(* ===== verification/Prelude.thy ===== *)
theory Prelude
  imports Complex_Main "HOL-Library.Monad_Syntax" "HOL-Library.Product_Lexorder"
begin

text \<open>
  What every component of the model shares: Python ranges, \<open>for\<close> loops over a state that may
  raise, Python list indexing, and the collections of rewrite rules the component proofs use.

  An uncaught Python exception (an \<open>IndexError\<close>, a \<open>ValueError\<close>) is the value
  \<open>None\<close> of an option; a loop that does not end is \<open>None\<close> as well, so every theorem that
  says \<open>Some\<close> excludes both.
\<close>

named_theorems py_simps "rewrite rules for the Python operations of the model"

section \<open>Coordinates\<close>

type_synonym cell = "int \<times> int"

section \<open>Ranges\<close>

text \<open>\<open>range(lo, hi)\<close>: the integers from \<open>lo\<close> up to \<open>hi - 1\<close>, none when \<open>hi \<le> lo\<close>.\<close>

definition py_range :: "int \<Rightarrow> int \<Rightarrow> int list" where
  "py_range lo hi = [lo..hi - 1]"

lemma set_py_range [simp]: "set (py_range lo hi) = {lo..<hi}"
  by (auto simp: py_range_def)

lemma distinct_py_range [simp]: "distinct (py_range lo hi)"
  by (simp add: py_range_def)

lemma length_py_range [simp]: "length (py_range lo hi) = nat (hi - lo)"
  by (simp add: py_range_def)

lemma sorted_py_range [simp]: "sorted (py_range lo hi)"
  by (simp add: py_range_def)

lemma nth_py_range: "i < nat (hi - lo) \<Longrightarrow> py_range lo hi ! i = lo + int i"
  by (simp add: py_range_def)

lemma py_range_empty [simp]: "hi \<le> lo \<Longrightarrow> py_range lo hi = []"
  by (simp add: py_range_def)

lemma py_range_Cons: "lo < hi \<Longrightarrow> py_range lo hi = lo # py_range (lo + 1) hi"
  by (simp add: py_range_def upto_rec1)

section \<open>For loops over a state that may raise\<close>

primrec for_each :: "'a list \<Rightarrow> ('a \<Rightarrow> 's \<Rightarrow> 's option) \<Rightarrow> 's \<Rightarrow> 's option" where
  "for_each [] f s = Some s"
| "for_each (x # xs) f s = do { s' \<leftarrow> f x s; for_each xs f s' }"

lemma for_each_append:
  "for_each (xs @ ys) f s = do { s' \<leftarrow> for_each xs f s; for_each ys f s' }"
  by (induction xs arbitrary: s) (auto simp: Option.bind_assoc)

lemma for_each_cong [fundef_cong]:
  assumes "xs = ys" and "s = t" and "\<And>x u. x \<in> set ys \<Longrightarrow> f x u = g x u"
  shows "for_each xs f s = for_each ys g t"
  unfolding assms(1,2) using assms(3)
  by (induction ys arbitrary: t) (auto intro!: Option.bind_cong)

text \<open>The invariant rule: a body that keeps \<open>I\<close> and never raises gives a loop that does so.\<close>

lemma for_each_inv:
  assumes "I s" and "\<And>x s. x \<in> set xs \<Longrightarrow> I s \<Longrightarrow> \<exists>s'. f x s = Some s' \<and> I s'"
  shows "\<exists>s'. for_each xs f s = Some s' \<and> I s'"
  using assms
proof (induction xs arbitrary: s)
  case Nil
  then show ?case by simp
next
  case (Cons x xs)
  from Cons.prems obtain s' where "f x s = Some s'" "I s'" by fastforce
  then show ?case using Cons.IH [of s'] Cons.prems(2) by auto
qed

text \<open>The same with an invariant that knows which elements have been visited.\<close>

lemma for_each_inv_set:
  assumes "I {} s"
    and "\<And>x s S. x \<in> set xs \<Longrightarrow> S \<subseteq> set xs \<Longrightarrow> I S s \<Longrightarrow> \<exists>s'. f x s = Some s' \<and> I (insert x S) s'"
  shows "\<exists>s'. for_each xs f s = Some s' \<and> I (set xs) s'"
proof -
  have "\<exists>s'. for_each ys f s = Some s' \<and> I (S \<union> set ys) s'"
    if "set ys \<subseteq> set xs" "S \<subseteq> set xs" "I S s" for ys S s
    using that
  proof (induction ys arbitrary: S s)
    case Nil
    then show ?case by simp
  next
    case (Cons y ys)
    then obtain s' where s': "f y s = Some s'" "I (insert y S) s'"
      using assms(2) [of y S s] by auto
    then obtain s'' where "for_each ys f s' = Some s''" "I (insert y S \<union> set ys) s''"
      using Cons.IH [of "insert y S" s'] Cons.prems by auto
    with s' show ?case by auto
  qed
  from this [of xs "{}" s] assms(1) show ?thesis by simp
qed

text \<open>A loop whose body never raises is a left fold.\<close>

lemma for_each_total: "(\<And>x s. x \<in> set xs \<Longrightarrow> f x s = Some (g x s)) \<Longrightarrow> for_each xs f s = Some (fold g xs s)"
  by (induction xs arbitrary: s) auto

text \<open>A loop whose body appends to a list.\<close>

lemma for_each_collect:
  "(\<And>x s. x \<in> set xs \<Longrightarrow> f x s = Some (s @ g x)) \<Longrightarrow> for_each xs f s = Some (s @ concat (map g xs))"
  by (induction xs arbitrary: s) auto

lemma map_py_range: "map f (py_range 0 n) = map (\<lambda>i. f (int i)) [0..<nat n]"
  by (rule nth_equalityI) (auto simp: nth_py_range)

section \<open>Python list indexing\<close>

text \<open>
  An index of a list of length \<open>n\<close> is valid from \<open>- n\<close> to \<open>n - 1\<close>; a negative one counts
  from the end. Outside that range Python raises \<open>IndexError\<close>.
\<close>

definition py_index :: "nat \<Rightarrow> int \<Rightarrow> nat option" where
  "py_index n i =
     (if 0 \<le> i \<and> i < int n then Some (nat i)
      else if - int n \<le> i \<and> i < 0 then Some (nat (int n + i))
      else None)"

definition lget :: "'a list \<Rightarrow> int \<Rightarrow> 'a option" where
  "lget xs i = map_option (\<lambda>k. xs ! k) (py_index (length xs) i)"

definition lset :: "'a list \<Rightarrow> int \<Rightarrow> 'a \<Rightarrow> 'a list option" where
  "lset xs i v = map_option (\<lambda>k. xs[k := v]) (py_index (length xs) i)"

lemma lget_in [simp]: "0 \<le> i \<Longrightarrow> i < int (length xs) \<Longrightarrow> lget xs i = Some (xs ! nat i)"
  by (simp add: lget_def py_index_def)

lemma lset_in [simp]: "0 \<le> i \<Longrightarrow> i < int (length xs) \<Longrightarrow> lset xs i v = Some (xs[nat i := v])"
  by (simp add: lset_def py_index_def)

lemma lget_out: "int (length xs) \<le> i \<Longrightarrow> lget xs i = None"
  by (simp add: lget_def py_index_def)

lemma lget_last: "xs \<noteq> [] \<Longrightarrow> lget xs (- 1) = Some (last xs)"
  by (cases xs rule: rev_cases) (auto simp: lget_def py_index_def nth_append)

end
