(* ===== verification/Search.thy ===== *)
theory Search
  imports Prelude
begin

text \<open>
  The interface of a breadth-first search. A search space is a finite set of nodes closed under
  a successor function; the loop below keeps a distance map and a first-in first-out queue. The
  locale proves once that the loop stops and that it returns the least number of steps from the
  start to the goal, or \<open>None\<close> exactly when the goal cannot be reached. The room search, the
  nine-action search of the generator and the Client's own search are instances.
\<close>

definition step_rel :: "('v \<Rightarrow> 'v list) \<Rightarrow> ('v \<times> 'v) set" where
  "step_rel succs = {(u, v). v \<in> set (succs u)}"

text \<open>The least number of steps from one node to another.\<close>

definition shortest :: "('v \<Rightarrow> 'v list) \<Rightarrow> 'v \<Rightarrow> 'v \<Rightarrow> nat \<Rightarrow> bool" where
  "shortest succs s t k \<longleftrightarrow> (s, t) \<in> step_rel succs ^^ k \<and> (\<forall>j < k. (s, t) \<notin> step_rel succs ^^ j)"

definition bfs_visit :: "'v \<Rightarrow> 'v \<Rightarrow> ('v \<rightharpoonup> nat) \<times> 'v list \<Rightarrow> ('v \<rightharpoonup> nat) \<times> 'v list" where
  "bfs_visit u v = (\<lambda>(d, q). if d v = None then (d(v \<mapsto> Suc (the (d u))), q @ [v]) else (d, q))"

partial_function (option) bfs_loop ::
    "('v \<Rightarrow> 'v list) \<Rightarrow> 'v \<Rightarrow> ('v \<rightharpoonup> nat) \<Rightarrow> 'v list \<Rightarrow> nat option option" where
  "bfs_loop succs goal d q =
     (case q of [] \<Rightarrow> Some None
      | u # q' \<Rightarrow>
          if u = goal then Some (d u)
          else let (d', q'') = fold (bfs_visit u) (succs u) (d, q') in bfs_loop succs goal d' q'')"

declare bfs_loop.simps [code]

lemma bfs_visit_app:
  "bfs_visit u v (d, q) = (if d v = None then (d(v \<mapsto> Suc (the (d u))), q @ [v]) else (d, q))"
  by (simp add: bfs_visit_def)

text \<open>Induction over a run that ends: how a concrete loop is shown to follow this one.\<close>

lemma bfs_loop_induct [consumes 1, case_names empty found step]:
  assumes run: "bfs_loop succs goal d q = Some r"
    and empty: "\<And>d. P d [] None"
    and found: "\<And>d q. P d (goal # q) (d goal)"
    and step: "\<And>d u q d' q' r. u \<noteq> goal \<Longrightarrow> fold (bfs_visit u) (succs u) (d, q) = (d', q') \<Longrightarrow>
      P d' q' r \<Longrightarrow> P d (u # q) r"
  shows "P d q r"
proof -
  have "succs = succs \<and> goal = goal \<longrightarrow> P d q r"
  proof (rule bfs_loop.raw_induct [where P = "\<lambda>s g d q r. s = succs \<and> g = goal \<longrightarrow> P d q r", OF _ run])
    fix f s g d q r
    assume IH: "\<And>s g d q r. f s g d q = Some r \<Longrightarrow> s = succs \<and> g = goal \<longrightarrow> P d q r"
      and eq: "(case q of [] \<Rightarrow> Some None
        | u # q' \<Rightarrow> if u = g then Some (d u)
            else let (d', q'') = fold (bfs_visit u) (s u) (d, q') in f s g d' q'') = Some r"
    show "s = succs \<and> g = goal \<longrightarrow> P d q r"
    proof (intro impI, cases q)
      case Nil
      with eq empty show "P d q r" by simp
    next
      case (Cons u q')
      assume sg: "s = succs \<and> g = goal"
      obtain d' q'' where n: "fold (bfs_visit u) (s u) (d, q') = (d', q'')"
        by (cases "fold (bfs_visit u) (s u) (d, q')")
      show "P d q r"
      proof (cases "u = goal")
        case True
        with eq Cons sg found show ?thesis by auto
      next
        case False
        with eq Cons sg n have "f succs goal d' q'' = Some r" by simp
        with IH have "P d' q'' r" by blast
        with step [OF False] n sg Cons show ?thesis by simp
      qed
    qed
  qed
  then show ?thesis by simp
qed

lemma shortest_unique: "shortest succs s t k \<Longrightarrow> shortest succs s t l \<Longrightarrow> k = l"
  unfolding shortest_def by (metis linorder_neqE_nat)

lemma shortest_exists: "(s, t) \<in> (step_rel succs)\<^sup>* \<Longrightarrow> \<exists>k. shortest succs s t k"
  unfolding shortest_def rtrancl_power
  using exists_least_iff [of "\<lambda>k. (s, t) \<in> step_rel succs ^^ k"] by auto

text \<open>One pass over the successors appends the new ones, each one step further.\<close>

lemma fold_bfs_visit:
  assumes "d u = Some k"
  obtains ns where "fold (bfs_visit u) vs (d, q) = ((\<lambda>v. if v \<in> set ns then Some (Suc k) else d v), q @ ns)"
    "set ns = set vs - dom d" "distinct ns"
proof -
  have "\<exists>ns. fold (bfs_visit u) vs (d, q) = ((\<lambda>v. if v \<in> set ns then Some (Suc k) else d v), q @ ns) \<and>
      set ns = set vs - dom d \<and> distinct ns"
    using assms
  proof (induction vs arbitrary: d q)
    case Nil
    then show ?case by (intro exI [of _ "[]"]) auto
  next
    case (Cons v vs)
    show ?case
    proof (cases "d v")
      case None
      let ?d = "d(v \<mapsto> Suc k)"
      have u: "?d u = Some k" using Cons.prems None by auto
      obtain ns where
        ns: "fold (bfs_visit u) vs (?d, q @ [v]) = ((\<lambda>w. if w \<in> set ns then Some (Suc k) else ?d w), (q @ [v]) @ ns)"
          "set ns = set vs - dom ?d" "distinct ns"
        using Cons.IH [where d = ?d and q = "q @ [v]", OF u] by blast
      have "fold (bfs_visit u) (v # vs) (d, q) = fold (bfs_visit u) vs (?d, q @ [v])"
        using Cons.prems None by (simp add: bfs_visit_def)
      with ns None show ?thesis by (intro exI [of _ "v # ns"]) auto
    next
      case (Some l)
      with Cons.prems Cons.IH [of d q] show ?thesis by (auto simp: bfs_visit_def)
    qed
  qed
  then show ?thesis using that by blast
qed

lemma fold_bfs_visit_dom:
  "fold (bfs_visit u) vs (d, q) = (d', q') \<Longrightarrow> set q \<subseteq> dom d \<Longrightarrow> set q' \<subseteq> dom d' \<and> dom d \<subseteq> dom d'"
proof (induction vs arbitrary: d q)
  case Nil
  then show ?case by simp
next
  case (Cons v vs)
  show ?case
  proof (cases "d v")
    case None
    with Cons.prems have "fold (bfs_visit u) vs (d(v \<mapsto> Suc (the (d u))), q @ [v]) = (d', q')"
      by (simp add: bfs_visit_app)
    moreover have "dom (d(v \<mapsto> Suc (the (d u)))) = insert v (dom d)" by simp
    moreover have "set (q @ [v]) \<subseteq> insert v (dom d)" using Cons.prems(2) by auto
    ultimately show ?thesis using Cons.IH by (metis insert_subset)
  next
    case (Some k)
    with Cons show ?thesis by (simp add: bfs_visit_app)
  qed
qed

section \<open>The invariant of the loop\<close>

text \<open>
  \<open>d\<close> is the distance map, \<open>q\<close> the queue: the queue is sorted by distance and no
  recorded distance exceeds that of its head by more than one, every distance is the length of some path, and a node taken off
  the queue has all its successors recorded at most one step further and is not the goal.
\<close>

definition bfs_inv :: "('v \<Rightarrow> 'v list) \<Rightarrow> 'v set \<Rightarrow> 'v \<Rightarrow> 'v \<Rightarrow> ('v \<rightharpoonup> nat) \<Rightarrow> 'v list \<Rightarrow> bool" where
  "bfs_inv succs nodes start goal d q \<longleftrightarrow>
     d start = Some 0 \<and> dom d \<subseteq> nodes \<and> set q \<subseteq> dom d \<and> distinct q \<and>
     (\<forall>v k. d v = Some k \<longrightarrow> (start, v) \<in> step_rel succs ^^ k) \<and>
     sorted (map (\<lambda>v. the (d v)) q) \<and>
     (q \<noteq> [] \<longrightarrow> (\<forall>v \<in> dom d. the (d v) \<le> Suc (the (d (hd q))))) \<and>
     (\<forall>v \<in> dom d - set q. v \<noteq> goal \<and>
        (\<forall>w \<in> set (succs v). w \<in> dom d \<and> the (d w) \<le> Suc (the (d v))))"

lemma bfs_invD:
  assumes "bfs_inv succs nodes start goal d q"
  shows "d start = Some 0" and "dom d \<subseteq> nodes" and "set q \<subseteq> dom d" and "distinct q"
    and "d v = Some k \<Longrightarrow> (start, v) \<in> step_rel succs ^^ k"
    and "sorted (map (\<lambda>v. the (d v)) q)"
    and "q \<noteq> [] \<Longrightarrow> v \<in> dom d \<Longrightarrow> the (d v) \<le> Suc (the (d (hd q)))"
    and "v \<in> dom d \<Longrightarrow> v \<notin> set q \<Longrightarrow> v \<noteq> goal"
    and "v \<in> dom d \<Longrightarrow> v \<notin> set q \<Longrightarrow> w \<in> set (succs v) \<Longrightarrow> w \<in> dom d \<and> the (d w) \<le> Suc (the (d v))"
proof -
  note parts = assms [unfolded bfs_inv_def]
  from parts have c: "\<forall>v k. d v = Some k \<longrightarrow> (start, v) \<in> step_rel succs ^^ k"
    "q \<noteq> [] \<longrightarrow> (\<forall>v \<in> dom d. the (d v) \<le> Suc (the (d (hd q))))"
    "\<forall>v \<in> dom d - set q. v \<noteq> goal \<and> (\<forall>w \<in> set (succs v). w \<in> dom d \<and> the (d w) \<le> Suc (the (d v)))"
    by - (elim conjE, assumption)+
  show "d start = Some 0" "dom d \<subseteq> nodes" "set q \<subseteq> dom d" "distinct q" "sorted (map (\<lambda>v. the (d v)) q)"
    using parts by - (elim conjE, assumption)+
  show "d v = Some k \<Longrightarrow> (start, v) \<in> step_rel succs ^^ k" using c(1) by blast
  show "q \<noteq> [] \<Longrightarrow> v \<in> dom d \<Longrightarrow> the (d v) \<le> Suc (the (d (hd q)))" using c(2) by blast
  show "v \<in> dom d \<Longrightarrow> v \<notin> set q \<Longrightarrow> v \<noteq> goal" using c(3) by blast
  show "v \<in> dom d \<Longrightarrow> v \<notin> set q \<Longrightarrow> w \<in> set (succs v) \<Longrightarrow> w \<in> dom d \<and> the (d w) \<le> Suc (the (d v))"
    using c(3) by blast
qed

lemma bfs_inv_head:
  assumes "bfs_inv succs nodes start goal d (u # q)"
  obtains k where "d u = Some k" "\<And>v. v \<in> set q \<Longrightarrow> v \<in> dom d \<and> k \<le> the (d v)" "u \<in> nodes" "u \<notin> set q"
    "distinct q" "sorted (map (\<lambda>v. the (d v)) q)" "\<And>v. v \<in> dom d \<Longrightarrow> the (d v) \<le> Suc k"
proof -
  from bfs_invD(3) [OF assms] obtain k where k: "d u = Some k" by auto
  show ?thesis
  proof (rule that [OF k])
    show "v \<in> dom d \<and> k \<le> the (d v)" if "v \<in> set q" for v
      using bfs_invD(3,6) [OF assms] that k by auto
    show "u \<in> nodes" "u \<notin> set q" "distinct q" "sorted (map (\<lambda>v. the (d v)) q)"
      using bfs_invD(2,3,4,6) [OF assms] by auto
    show "the (d v) \<le> Suc k" if "v \<in> dom d" for v
      using bfs_invD(7) [OF assms _ that] k by simp
  qed
qed

locale search_space =
  fixes nodes :: "'v set" and succs :: "'v \<Rightarrow> 'v list"
  assumes finite_nodes: "finite nodes"
    and succs_closed: "u \<in> nodes \<Longrightarrow> set (succs u) \<subseteq> nodes"
begin

lemma inv_init: "start \<in> nodes \<Longrightarrow> bfs_inv succs nodes start goal [start \<mapsto> 0] [start]"
  by (auto simp: bfs_inv_def split: if_splits)

text \<open>A path of length \<open>j\<close> ends in a recorded node, or the queue holds a node no further than \<open>j\<close>.\<close>

lemma inv_frontier:
  assumes inv: "bfs_inv succs nodes start goal d q" and "(start, v) \<in> step_rel succs ^^ j"
  shows "(\<exists>k \<le> j. d v = Some k) \<or> (\<exists>x \<in> set q. the (d x) < j)"
  using assms(2)
proof (induction j arbitrary: v)
  case 0
  then show ?case using inv by (auto simp: bfs_inv_def)
next
  case (Suc j)
  then obtain u where u: "(start, u) \<in> step_rel succs ^^ j" "v \<in> set (succs u)"
    by (auto simp: step_rel_def)
  from Suc.IH [OF u(1)] show ?case
  proof
    assume "\<exists>k \<le> j. d u = Some k"
    then obtain k where k: "k \<le> j" "d u = Some k" by blast
    show ?thesis
    proof (cases "u \<in> set q")
      case True
      with k show ?thesis by (intro disjI2 bexI [of _ u]) auto
    next
      case False
      with bfs_invD(9) [OF inv, of u v] k u(2) have "v \<in> dom d \<and> the (d v) \<le> Suc k" by auto
      with k(1) show ?thesis by auto
    qed
  next
    assume "\<exists>x \<in> set q. the (d x) < j"
    then show ?thesis by fastforce
  qed
qed

lemma inv_head_least:
  assumes "bfs_inv succs nodes start goal d (u # q)" and "d u = Some k" and "j < k"
  shows "(start, u) \<notin> step_rel succs ^^ j"
proof
  assume "(start, u) \<in> step_rel succs ^^ j"
  from inv_frontier [OF assms(1) this] show False
  proof
    assume "\<exists>k \<le> j. d u = Some k"
    with assms(2,3) show False by auto
  next
    assume "\<exists>x \<in> set (u # q). the (d x) < j"
    then obtain x where x: "x \<in> set (u # q)" "the (d x) < j" by blast
    from bfs_inv_head [OF assms(1)] obtain l where "d u = Some l" "x \<in> set q \<Longrightarrow> l \<le> the (d x)"
      by metis
    with x assms(2,3) show False by auto
  qed
qed

lemma inv_empty_unreachable:
  assumes inv: "bfs_inv succs nodes start goal d []"
  shows "(start, goal) \<notin> (step_rel succs)\<^sup>*"
proof
  assume "(start, goal) \<in> (step_rel succs)\<^sup>*"
  then obtain j where "(start, goal) \<in> step_rel succs ^^ j" by (auto simp: rtrancl_power)
  from inv_frontier [OF inv this] bfs_invD(8) [OF inv, of goal] show False by auto
qed

lemma inv_step:
  assumes inv: "bfs_inv succs nodes start goal d (u # q)" and "u \<noteq> goal"
  obtains k ns where "d u = Some k"
    "fold (bfs_visit u) (succs u) (d, q) = ((\<lambda>v. if v \<in> set ns then Some (Suc k) else d v), q @ ns)"
    "set ns = set (succs u) - dom d" "distinct ns"
    "bfs_inv succs nodes start goal (\<lambda>v. if v \<in> set ns then Some (Suc k) else d v) (q @ ns)"
proof -
  obtain k where k: "d u = Some k" and q: "\<And>v. v \<in> set q \<Longrightarrow> v \<in> dom d \<and> k \<le> the (d v)"
    "distinct q" "sorted (map (\<lambda>v. the (d v)) q)" "u \<notin> set q" "u \<in> nodes"
    and near: "\<And>v. v \<in> dom d \<Longrightarrow> the (d v) \<le> Suc k"
    using bfs_inv_head [OF inv] by metis
  obtain ns where ns: "fold (bfs_visit u) (succs u) (d, q) =
      ((\<lambda>v. if v \<in> set ns then Some (Suc k) else d v), q @ ns)"
    "set ns = set (succs u) - dom d" "distinct ns"
    using fold_bfs_visit [of d u k "succs u" q] k by blast
  let ?d = "\<lambda>v. if v \<in> set ns then Some (Suc k) else d v"
  have qns: "v \<notin> set ns" if "v \<in> set q" for v using q(1) [OF that] ns(2) by auto
  have path: "(start, v) \<in> step_rel succs ^^ l" if "?d v = Some l" for v l
  proof (cases "v \<in> set ns")
    case True
    with that ns(2) have "l = Suc k" "v \<in> set (succs u)" by auto
    with bfs_invD(5) [OF inv k] show ?thesis by (auto simp: step_rel_def)
  next
    case False
    with that bfs_invD(5) [OF inv] show ?thesis by simp
  qed
  have sorted: "sorted (map (\<lambda>v. the (?d v)) (q @ ns))"
  proof -
    have "map (\<lambda>v. the (?d v)) q = map (\<lambda>v. the (d v)) q"
      using qns by (intro map_cong) auto
    moreover have "map (\<lambda>v. the (?d v)) ns = replicate (length ns) (Suc k)"
      by (rule nth_equalityI) auto
    ultimately have "map (\<lambda>v. the (?d v)) (q @ ns) = map (\<lambda>v. the (d v)) q @ replicate (length ns) (Suc k)"
      by (simp only: map_append)
    moreover have "\<forall>v \<in> set q. the (d v) \<le> Suc k"
      using q(1) near by blast
    ultimately show ?thesis
      using q(3) by (simp only: sorted_append) (auto simp: sorted_replicate)
  qed
  have span: "the (?d v) \<le> Suc (the (?d (hd (q @ ns))))" if "q @ ns \<noteq> []" "v \<in> dom ?d" for v
  proof -
    have "k \<le> the (?d (hd (q @ ns)))"
    proof (cases q)
      case Nil
      with that(1) show ?thesis by (cases ns) auto
    next
      case (Cons x xs)
      with q(1) [of x] qns [of x] show ?thesis by simp
    qed
    moreover have "the (?d v) \<le> Suc k" using that(2) near [of v] by (cases "v \<in> set ns") (auto simp: domIff)
    ultimately show ?thesis by simp
  qed
  have closed: "v \<noteq> goal \<and> (\<forall>w \<in> set (succs v). w \<in> dom ?d \<and> the (?d w) \<le> Suc (the (?d v)))"
    if v: "v \<in> dom ?d - set (q @ ns)" for v
  proof (cases "v = u")
    case True
    with v have "?d v = Some k" using k by auto
    moreover have "w \<in> dom ?d \<and> the (?d w) \<le> Suc k" if "w \<in> set (succs u)" for w
      using that ns(2) near [of w] by (cases "w \<in> set ns") auto
    ultimately show ?thesis using True assms(2) by auto
  next
    case False
    with v have old: "v \<in> dom d" "v \<notin> set (u # q)" "v \<notin> set ns" by (auto split: if_splits)
    have "w \<in> dom ?d \<and> the (?d w) \<le> Suc (the (?d v))" if "w \<in> set (succs v)" for w
      using bfs_invD(9) [OF inv old(1,2) that] old(3) ns(2) by auto
    with bfs_invD(8) [OF inv old(1,2)] show ?thesis by blast
  qed
  have start: "?d start = Some 0"
    using bfs_invD(1) [OF inv] ns(2) by auto
  have dom: "dom ?d \<subseteq> nodes" "set (q @ ns) \<subseteq> dom ?d"
  proof -
    have "dom ?d = dom d \<union> set ns" by (auto simp: domIff)
    then show "dom ?d \<subseteq> nodes" "set (q @ ns) \<subseteq> dom ?d"
      using bfs_invD(2,3) [OF inv] ns(2) succs_closed [OF q(5)] by auto
  qed
  have dist: "distinct (q @ ns)" using q(2) ns(3) qns by auto
  have "bfs_inv succs nodes start goal ?d (q @ ns)"
    unfolding bfs_inv_def using start dom dist path sorted span closed by blast
  with k ns that show ?thesis by blast
qed

text \<open>Each round takes one node off the queue; the new ones leave the set of unseen nodes.\<close>

lemma bfs_loop_total:
  assumes "bfs_inv succs nodes start goal d q"
  shows "\<exists>r. bfs_loop succs goal d q = Some r \<and>
    (case r of None \<Rightarrow> (start, goal) \<notin> (step_rel succs)\<^sup>* | Some k \<Rightarrow> shortest succs start goal k)"
  using assms
proof (induction "card (nodes - dom d) + length q" arbitrary: d q rule: less_induct)
  case less
  show ?case
  proof (cases q)
    case Nil
    then show ?thesis using inv_empty_unreachable less.prems by (auto simp: bfs_loop.simps)
  next
    case (Cons u q')
    note inv = less.prems [unfolded Cons]
    show ?thesis
    proof (cases "u = goal")
      case True
      from bfs_inv_head [OF inv] obtain k where k: "d u = Some k" by blast
      have "shortest succs start goal k"
        using bfs_invD(5) [OF inv k] inv_head_least [OF inv k] True by (auto simp: shortest_def)
      then show ?thesis using Cons True k by (auto simp: bfs_loop.simps)
    next
      case False
      then obtain k ns where s: "d u = Some k"
        "fold (bfs_visit u) (succs u) (d, q') = ((\<lambda>v. if v \<in> set ns then Some (Suc k) else d v), q' @ ns)"
        "set ns = set (succs u) - dom d" "distinct ns"
        "bfs_inv succs nodes start goal (\<lambda>v. if v \<in> set ns then Some (Suc k) else d v) (q' @ ns)"
        using inv_step [OF inv] by blast
      let ?d = "\<lambda>v. if v \<in> set ns then Some (Suc k) else d v"
      from bfs_inv_head [OF inv] have "u \<in> nodes" by blast
      then have sub: "set ns \<subseteq> nodes - dom d" using s(3) succs_closed by auto
      have "nodes - dom ?d = (nodes - dom d) - set ns" by (auto split: if_splits)
      then have "card (nodes - dom ?d) + length ns = card (nodes - dom d)"
        using sub s(4) finite_nodes card_Diff_subset [of "set ns" "nodes - dom d"]
          card_mono [of "nodes - dom d" "set ns"] by (simp add: distinct_card)
      then have "card (nodes - dom ?d) + length (q' @ ns) < card (nodes - dom d) + length q"
        using Cons by simp
      from less.hyps [OF this s(5)] show ?thesis
        using Cons False s(2) by (subst bfs_loop.simps) simp
    qed
  qed
qed

lemma bfs_correct:
  assumes "start \<in> nodes"
  obtains r where "bfs_loop succs goal [start \<mapsto> 0] [start] = Some r"
    "r = None \<Longrightarrow> (start, goal) \<notin> (step_rel succs)\<^sup>*"
    "\<And>k. r = Some k \<Longrightarrow> shortest succs start goal k"
  using bfs_loop_total [OF inv_init [OF assms], of goal]
  by (auto split: option.splits)

end

end
