(* ===== verification/Grid.thy ===== *)
theory Grid
  imports Prelude
begin

text \<open>
  Two-dimensional lists \<open>rows[y][x]\<close>, as the generator uses them for \<open>visited\<close> and
  \<open>blocked\<close>: reads and writes that raise out of range, the rectangular shape, and the
  predicates \<open>draws\<close> and \<open>paints\<close>, which say of a loop that it writes exactly the cells of a given
  set. Loops compose: a loop over painting bodies paints the union.
\<close>

type_synonym 'a grid = "'a list list"

text \<open>\<open>[[v] * w for _ in range(h)]\<close>\<close>

definition new_grid :: "int \<Rightarrow> int \<Rightarrow> 'a \<Rightarrow> 'a grid" where
  "new_grid w h v = replicate (nat h) (replicate (nat w) v)"

text \<open>\<open>g[y][x]\<close> and \<open>g[y][x] = v\<close>; the rows of a grid are distinct list objects.\<close>

definition gget :: "'a grid \<Rightarrow> int \<Rightarrow> int \<Rightarrow> 'a option" where
  "gget g y x = do { row \<leftarrow> lget g y; lget row x }"

definition gset :: "'a grid \<Rightarrow> int \<Rightarrow> int \<Rightarrow> 'a \<Rightarrow> 'a grid option" where
  "gset g y x v = do { row \<leftarrow> lget g y; row' \<leftarrow> lset row x v; lset g y row' }"

definition wf_grid :: "int \<Rightarrow> int \<Rightarrow> 'a grid \<Rightarrow> bool" where
  "wf_grid w h g \<longleftrightarrow> length g = nat h \<and> (\<forall>row \<in> set g. length row = nat w)"

text \<open>The value at a cell inside the grid.\<close>

definition cell_at :: "'a grid \<Rightarrow> int \<Rightarrow> int \<Rightarrow> 'a" where
  "cell_at g x y = g ! nat y ! nat x"

definition in_grid :: "int \<Rightarrow> int \<Rightarrow> int \<Rightarrow> int \<Rightarrow> bool" where
  "in_grid w h x y \<longleftrightarrow> 0 \<le> x \<and> x < w \<and> 0 \<le> y \<and> y < h"

lemma in_gridI [intro]: "0 \<le> x \<Longrightarrow> x < w \<Longrightarrow> 0 \<le> y \<Longrightarrow> y < h \<Longrightarrow> in_grid w h x y"
  by (simp add: in_grid_def)

lemma wf_new_grid [simp]: "wf_grid w h (new_grid w h v)"
  by (auto simp: wf_grid_def new_grid_def)

lemma cell_at_new_grid [simp]: "in_grid w h x y \<Longrightarrow> cell_at (new_grid w h v) x y = v"
  by (simp add: cell_at_def new_grid_def in_grid_def nat_less_iff)

lemma wf_grid_row: "wf_grid w h g \<Longrightarrow> 0 \<le> y \<Longrightarrow> y < h \<Longrightarrow> length (g ! nat y) = nat w"
  by (auto simp: wf_grid_def)

lemma gget_in [simp]: "wf_grid w h g \<Longrightarrow> in_grid w h x y \<Longrightarrow> gget g y x = Some (cell_at g x y)"
  by (auto simp: gget_def cell_at_def wf_grid_def in_grid_def)

lemma gset_in:
  assumes "wf_grid w h g" and "in_grid w h x y"
  shows "\<exists>g'. gset g y x v = Some g' \<and> wf_grid w h g' \<and>
    (\<forall>x' y'. in_grid w h x' y' \<longrightarrow> cell_at g' x' y' = (if x' = x \<and> y' = y then v else cell_at g x' y'))"
proof -
  let ?g = "g[nat y := (g ! nat y)[nat x := v]]"
  have len: "length g = nat h" "length (g ! nat y) = nat w"
    using assms wf_grid_row [of w h g y] by (auto simp: wf_grid_def in_grid_def)
  have "gset g y x v = Some ?g"
    using len assms(2) by (simp add: gset_def in_grid_def)
  moreover have "wf_grid w h ?g"
    using assms(1) len by (auto simp: wf_grid_def dest!: set_update_subset_insert [THEN subsetD])
  moreover have "cell_at ?g x' y' = (if x' = x \<and> y' = y then v else cell_at g x' y')"
    if "in_grid w h x' y'" for x' y'
    using that assms(2) len by (auto simp: cell_at_def in_grid_def nth_list_update nat_eq_iff)
  ultimately show ?thesis by blast
qed

text \<open>The rows one after the other.\<close>

lemma nth_concat_rows:
  "\<forall>r \<in> set b. length r = cols \<Longrightarrow> y < length b \<Longrightarrow> x < cols \<Longrightarrow> concat b ! (y * cols + x) = b ! y ! x"
proof (induction b arbitrary: y)
  case (Cons r b)
  then show ?case by (cases y) (simp_all add: nth_append add.assoc)
qed simp

lemma length_concat_rows: "\<forall>r \<in> set b. length r = cols \<Longrightarrow> length (concat b) = length b * cols"
  by (induction b) simp_all

section \<open>Painting\<close>

text \<open>\<open>draws\<close>: exactly the cells of \<open>S\<close> are written, each with the value \<open>V\<close> has for it.\<close>

definition draws :: "int \<Rightarrow> int \<Rightarrow> ('a grid \<Rightarrow> 'a grid option) \<Rightarrow> cell set \<Rightarrow> (cell \<Rightarrow> 'a) \<Rightarrow> bool" where
  "draws w h f S V \<longleftrightarrow> (\<forall>g. wf_grid w h g \<longrightarrow> (\<exists>g'. f g = Some g' \<and> wf_grid w h g' \<and>
     (\<forall>x y. in_grid w h x y \<longrightarrow> cell_at g' x y = (if (x, y) \<in> S then V (x, y) else cell_at g x y))))"

lemma drawsD:
  assumes "draws w h f S V" and "wf_grid w h g"
  obtains g' where "f g = Some g'" "wf_grid w h g'"
    "\<And>x y. in_grid w h x y \<Longrightarrow> cell_at g' x y = (if (x, y) \<in> S then V (x, y) else cell_at g x y)"
  using assms unfolding draws_def by blast

lemma draws_gset: "in_grid w h x y \<Longrightarrow> v = V (x, y) \<Longrightarrow> draws w h (\<lambda>g. gset g y x v) {(x, y)} V"
  unfolding draws_def using gset_in [of w h _ x y v] by fastforce

lemma draws_none: "draws w h Some {} V"
  by (simp add: draws_def)

lemma draws_seq:
  assumes "draws w h f S V" and "draws w h f' T V"
  shows "draws w h (\<lambda>g. do { g' \<leftarrow> f g; f' g' }) (S \<union> T) V"
  unfolding draws_def
proof (intro allI impI)
  fix g :: "'a grid"
  assume "wf_grid w h g"
  then obtain g1 where 1: "f g = Some g1" "wf_grid w h g1"
    "\<And>x y. in_grid w h x y \<Longrightarrow> cell_at g1 x y = (if (x, y) \<in> S then V (x, y) else cell_at g x y)"
    using drawsD [OF assms(1)] by blast
  then obtain g2 where 2: "f' g1 = Some g2" "wf_grid w h g2"
    "\<And>x y. in_grid w h x y \<Longrightarrow> cell_at g2 x y = (if (x, y) \<in> T then V (x, y) else cell_at g1 x y)"
    using drawsD [OF assms(2)] by blast
  show "\<exists>g'. do { g' \<leftarrow> f g; f' g' } = Some g' \<and> wf_grid w h g' \<and>
      (\<forall>x y. in_grid w h x y \<longrightarrow> cell_at g' x y = (if (x, y) \<in> S \<union> T then V (x, y) else cell_at g x y))"
    using 1 2 by auto
qed

lemma draws_for_each:
  assumes "\<And>x. x \<in> set xs \<Longrightarrow> draws w h (f x) (S x) V"
  shows "draws w h (for_each xs f) (\<Union>x \<in> set xs. S x) V"
  using assms
proof (induction xs)
  case Nil
  then show ?case by (simp add: draws_def)
next
  case (Cons x xs)
  then have "draws w h (\<lambda>g. do { g' \<leftarrow> f x g; for_each xs f g' }) (S x \<union> (\<Union>y \<in> set xs. S y)) V"
    by (intro draws_seq) auto
  then show ?case by (simp add: draws_def)
qed

lemma draws_cong: "draws w h f S V \<Longrightarrow> (\<And>x y. in_grid w h x y \<Longrightarrow> (x, y) \<in> S \<longleftrightarrow> (x, y) \<in> T) \<Longrightarrow> draws w h f T V"
  by (fastforce simp: draws_def)

text \<open>\<open>paints\<close>: one value for all of them.\<close>

definition paints :: "int \<Rightarrow> int \<Rightarrow> ('a grid \<Rightarrow> 'a grid option) \<Rightarrow> cell set \<Rightarrow> 'a \<Rightarrow> bool" where
  "paints w h f S v \<longleftrightarrow> draws w h f S (\<lambda>_. v)"

lemma paintsD:
  assumes "paints w h f S v" and "wf_grid w h g"
  obtains g' where "f g = Some g'" "wf_grid w h g'"
    "\<And>x y. in_grid w h x y \<Longrightarrow> cell_at g' x y = (if (x, y) \<in> S then v else cell_at g x y)"
  using drawsD [OF assms(1) [unfolded paints_def] assms(2)] by blast

lemma paints_gset: "in_grid w h x y \<Longrightarrow> paints w h (\<lambda>g. gset g y x v) {(x, y)} v"
  by (simp add: paints_def draws_gset)

lemma paints_if: "(c \<Longrightarrow> paints w h f S v) \<Longrightarrow> paints w h (\<lambda>g. if c then f g else Some g) {p \<in> S. c} v"
  by (cases c) (simp_all add: paints_def draws_none)

lemma paints_seq:
  "paints w h f S v \<Longrightarrow> paints w h f' T v \<Longrightarrow> paints w h (\<lambda>g. do { g' \<leftarrow> f g; f' g' }) (S \<union> T) v"
  unfolding paints_def by (rule draws_seq)

lemma paints_for_each:
  "(\<And>x. x \<in> set xs \<Longrightarrow> paints w h (f x) (S x) v) \<Longrightarrow> paints w h (for_each xs f) (\<Union>x \<in> set xs. S x) v"
  unfolding paints_def by (rule draws_for_each)

lemma paints_cong: "paints w h f S v \<Longrightarrow> (\<And>x y. in_grid w h x y \<Longrightarrow> (x, y) \<in> S \<longleftrightarrow> (x, y) \<in> T) \<Longrightarrow> paints w h f T v"
  unfolding paints_def by (rule draws_cong)

end
