(* ===== verification/WallEdges.thy ===== *)
theory WallEdges
  imports Grid "HOL-Library.List_Lexorder"
begin

text \<open>
  \<open>WallEdgeSet\<close> of the map generator: the set of walls between adjacent rooms. A wall is the
  two-element set of the rooms it separates (the source's \<open>frozenset\<close>), so the order of the two
  rooms does not matter. The locale \<open>wall_store\<close> is what the generator relies on.
\<close>

type_synonym edge = "cell set"

record wall_edge_set =
  grid_dim :: int
  walls :: "edge set"

definition wall_edge_set_init :: "int \<Rightarrow> wall_edge_set" where
  "wall_edge_set_init n =
     \<lparr>grid_dim = n,
      walls = fold (\<lambda>y. fold (\<lambda>x W.
                 let W = (if x + 1 < n then insert {(x, y), (x + 1, y)} W else W)
                 in if y + 1 < n then insert {(x, y), (x, y + 1)} W else W)
               (py_range 0 n)) (py_range 0 n) {}\<rparr>"

definition has_wall :: "wall_edge_set \<Rightarrow> int \<Rightarrow> int \<Rightarrow> int \<Rightarrow> int \<Rightarrow> bool" where
  "has_wall es x1 y1 x2 y2 \<longleftrightarrow> {(x1, y1), (x2, y2)} \<in> walls es"

definition remove_wall :: "wall_edge_set \<Rightarrow> int \<Rightarrow> int \<Rightarrow> int \<Rightarrow> int \<Rightarrow> wall_edge_set" where
  "remove_wall es x1 y1 x2 y2 = es\<lparr>walls := walls es - {{(x1, y1), (x2, y2)}}\<rparr>"

definition wall_count :: "wall_edge_set \<Rightarrow> nat" where
  "wall_count es = card (walls es)"

text \<open>
  The order in which Python iterates over a set is not specified: \<open>order\<close> is a parameter that
  lists every element once. \<open>canonical_order\<close> is one such order, which computes.
\<close>

definition iterates :: "(edge set \<Rightarrow> edge list) \<Rightarrow> bool" where
  "iterates order \<longleftrightarrow> (\<forall>W. finite W \<longrightarrow> (\<forall>e \<in> W. finite e) \<longrightarrow> set (order W) = W \<and> distinct (order W))"

definition canonical_order :: "edge set \<Rightarrow> edge list" where
  "canonical_order W = map set (sorted_list_of_set (sorted_list_of_set ` W))"

text \<open>\<open>a, b = sorted(edge)\<close> raises unless the edge has two elements.\<close>

definition get_all_walls :: "(edge set \<Rightarrow> edge list) \<Rightarrow> wall_edge_set \<Rightarrow> (cell \<times> cell) list option" where
  "get_all_walls order es = for_each (order (walls es)) (\<lambda>e result.
     case sorted_list_of_set e of [a, b] \<Rightarrow> Some (result @ [(a, b)]) | _ \<Rightarrow> None) []"

section \<open>Rooms and adjacency\<close>

definition rooms :: "int \<Rightarrow> cell set" where
  "rooms n = {(x, y). 0 \<le> x \<and> x < n \<and> 0 \<le> y \<and> y < n}"

definition adjacent :: "cell \<Rightarrow> cell \<Rightarrow> bool" where
  "adjacent a b \<longleftrightarrow> \<bar>fst a - fst b\<bar> + \<bar>snd a - snd b\<bar> = 1"

definition grid_edges :: "int \<Rightarrow> edge set" where
  "grid_edges n = {{a, b} | a b. a \<in> rooms n \<and> b \<in> rooms n \<and> adjacent a b}"

text \<open>Two rooms with no wall between them.\<close>

definition passages :: "wall_edge_set \<Rightarrow> (cell \<times> cell) set" where
  "passages es = {(a, b). a \<in> rooms (grid_dim es) \<and> b \<in> rooms (grid_dim es) \<and> adjacent a b \<and> {a, b} \<notin> walls es}"

lemma in_rooms [simp]: "(x, y) \<in> rooms n \<longleftrightarrow> 0 \<le> x \<and> x < n \<and> 0 \<le> y \<and> y < n"
  by (simp add: rooms_def)

lemma rooms_eq: "rooms n = {0..<n} \<times> {0..<n}"
  by (auto simp: rooms_def)

lemma finite_rooms [simp]: "finite (rooms n)"
  by (simp add: rooms_eq)

lemma card_rooms: "0 \<le> n \<Longrightarrow> int (card (rooms n)) = n * n"
  by (simp add: rooms_eq card_cartesian_product)

lemma adjacent_cases:
  "adjacent (x, y) (x', y') \<longleftrightarrow>
     (x', y') = (x + 1, y) \<or> (x', y') = (x, y + 1) \<or> (x', y') = (x - 1, y) \<or> (x', y') = (x, y - 1)"
  unfolding adjacent_def by (simp, arith)

lemma adjacent_sym: "adjacent a b \<longleftrightarrow> adjacent b a"
  by (simp add: adjacent_def abs_minus_commute)

lemma sym_passages: "sym (passages es)"
  by (auto simp: sym_def passages_def adjacent_sym insert_commute)

lemma grid_edges_conv: "grid_edges n =
    (\<lambda>(x, y). {(x, y), (x + 1, y)}) ` ({0..<n - 1} \<times> {0..<n}) \<union>
    (\<lambda>(x, y). {(x, y), (x, y + 1)}) ` ({0..<n} \<times> {0..<n - 1})" (is "_ = ?H \<union> ?V")
proof
  show "grid_edges n \<subseteq> ?H \<union> ?V"
  proof
    fix e
    assume "e \<in> grid_edges n"
    then obtain x y x' y' where e: "e = {(x, y), (x', y')}" "(x, y) \<in> rooms n" "(x', y') \<in> rooms n"
      "adjacent (x, y) (x', y')"
      by (auto simp: grid_edges_def)
    from e(4) consider "(x', y') = (x + 1, y)" | "(x', y') = (x, y + 1)"
      | "(x', y') = (x - 1, y)" | "(x', y') = (x, y - 1)"
      by (auto simp: adjacent_cases)
    then show "e \<in> ?H \<union> ?V"
    proof cases
      case 1
      with e show ?thesis by (intro UnI1 image_eqI [of _ _ "(x, y)"]) auto
    next
      case 2
      with e show ?thesis by (intro UnI2 image_eqI [of _ _ "(x, y)"]) auto
    next
      case 3
      with e show ?thesis by (intro UnI1 image_eqI [of _ _ "(x', y')"]) auto
    next
      case 4
      with e show ?thesis by (intro UnI2 image_eqI [of _ _ "(x', y')"]) auto
    qed
  qed
  have "{(x, y), (x', y')} \<in> grid_edges n"
    if "(x, y) \<in> rooms n" "(x', y') \<in> rooms n" "adjacent (x, y) (x', y')" for x y x' y'
    using that unfolding grid_edges_def by blast
  then show "?H \<union> ?V \<subseteq> grid_edges n" by (auto simp: adjacent_cases)
qed

lemma finite_grid_edges [simp]: "finite (grid_edges n)"
  by (simp add: grid_edges_conv)

lemma card_grid_edges:
  assumes "1 \<le> n"
  shows "int (card (grid_edges n)) = 2 * n * (n - 1)"
proof -
  let ?h = "\<lambda>(x, y). {(x, y), (x + 1, y)} :: edge" and ?v = "\<lambda>(x, y). {(x, y), (x, y + 1)} :: edge"
  let ?H = "{0..<n - 1} \<times> {0..<n}" and ?V = "{0..<n} \<times> {0..<n - 1}"
  have "inj_on ?h ?H" "inj_on ?v ?V" by (auto simp: inj_on_def doubleton_eq_iff)
  then have "card (?h ` ?H) = nat (n - 1) * nat n" "card (?v ` ?V) = nat n * nat (n - 1)"
    by (simp_all add: card_image card_cartesian_product)
  moreover have "?h ` ?H \<inter> ?v ` ?V = {}" by (auto simp: doubleton_eq_iff)
  ultimately have "card (grid_edges n) = nat (n - 1) * nat n + nat n * nat (n - 1)"
    by (simp add: grid_edges_conv card_Un_disjoint)
  with assms show ?thesis by (simp add: algebra_simps)
qed

section \<open>The constructor\<close>

lemma fold_insert_walls:
  "fold (\<lambda>y. fold (\<lambda>x W. let W = (if P x y then insert (f x y) W else W) in if Q x y then insert (g x y) W else W) xs) ys W0
   = W0 \<union> {f x y | x y. x \<in> set xs \<and> y \<in> set ys \<and> P x y} \<union> {g x y | x y. x \<in> set xs \<and> y \<in> set ys \<and> Q x y}"
proof -
  have row: "fold (\<lambda>x W. let W = (if P x y then insert (f x y) W else W) in if Q x y then insert (g x y) W else W) xs W
      = W \<union> {f x y | x. x \<in> set xs \<and> P x y} \<union> {g x y | x. x \<in> set xs \<and> Q x y}" for y W
    by (induction xs arbitrary: W) (auto simp: Let_def)
  show ?thesis
    by (induction ys arbitrary: W0) (auto simp: row)
qed

lemma walls_init: "walls (wall_edge_set_init n) = grid_edges n"
  unfolding wall_edge_set_init_def wall_edge_set.simps fold_insert_walls grid_edges_conv
  by (fastforce simp: image_iff)

lemma grid_dim_init [simp]: "grid_dim (wall_edge_set_init n) = n"
  by (simp add: wall_edge_set_init_def)

section \<open>The interface\<close>

locale wall_store =
  fixes has :: "'w \<Rightarrow> cell \<Rightarrow> cell \<Rightarrow> bool" and remove :: "'w \<Rightarrow> cell \<Rightarrow> cell \<Rightarrow> 'w"
  assumes has_commute: "has w a b = has w b a"
    and has_remove: "has (remove w a b) c d \<longleftrightarrow> has w c d \<and> {c, d} \<noteq> {a, b}"
begin

lemma remove_gone: "\<not> has (remove w a b) a b"
  by (simp add: has_remove)

text \<open>Removing a list of walls leaves exactly the others.\<close>

lemma has_fold_remove:
  "has (fold (\<lambda>p w. remove w (fst p) (snd p)) ps w) c d \<longleftrightarrow> has w c d \<and> (\<forall>p \<in> set ps. {fst p, snd p} \<noteq> {c, d})"
  by (induction ps arbitrary: w) (auto simp: has_remove)

text \<open>A sweep over a rectangle that removes guarded walls to the right and upwards.\<close>

lemma has_sweep_row:
  "has (fold (\<lambda>x w.
       let w' = (if P x y then remove w (x, y) (x + 1, y) else w)
       in if Q x y then remove w' (x, y) (x, y + 1) else w') xs w) c d
   \<longleftrightarrow> has w c d \<and> (\<forall>x \<in> set xs. (P x y \<longrightarrow> {c, d} \<noteq> {(x, y), (x + 1, y)}) \<and> (Q x y \<longrightarrow> {c, d} \<noteq> {(x, y), (x, y + 1)}))"
  by (induction xs arbitrary: w) (auto simp: has_remove Let_def)

lemma has_sweep:
  "has (fold (\<lambda>y. fold (\<lambda>x w.
       let w' = (if P x y then remove w (x, y) (x + 1, y) else w)
       in if Q x y then remove w' (x, y) (x, y + 1) else w') xs) ys w) c d
   \<longleftrightarrow> has w c d \<and> (\<forall>y \<in> set ys. \<forall>x \<in> set xs.
         (P x y \<longrightarrow> {c, d} \<noteq> {(x, y), (x + 1, y)}) \<and> (Q x y \<longrightarrow> {c, d} \<noteq> {(x, y), (x, y + 1)}))"
  by (induction ys arbitrary: w) (auto simp: has_sweep_row)

end

interpretation edge_store: wall_store
  "\<lambda>es a b. has_wall es (fst a) (snd a) (fst b) (snd b)"
  "\<lambda>es a b. remove_wall es (fst a) (snd a) (fst b) (snd b)"
  by unfold_locales (auto simp: has_wall_def remove_wall_def insert_commute)

lemma remove_wall_simps [simp]:
  "grid_dim (remove_wall es x1 y1 x2 y2) = grid_dim es"
  "walls (remove_wall es x1 y1 x2 y2) = walls es - {{(x1, y1), (x2, y2)}}"
  by (simp_all add: remove_wall_def)

section \<open>Iteration\<close>

lemma iterates_canonical: "iterates canonical_order"
  unfolding iterates_def
proof (intro allI impI)
  fix W :: "edge set"
  assume W: "finite W" "\<forall>e \<in> W. finite e"
  have inverse: "set (sorted_list_of_set e) = e" if "e \<in> W" for e using W that by simp
  have "set (canonical_order W) = set ` sorted_list_of_set ` W"
    using W(1) by (simp add: canonical_order_def)
  also have "\<dots> = W" using inverse by (auto simp: image_iff)
  finally have 1: "set (canonical_order W) = W" .
  have "inj_on set (sorted_list_of_set ` W)"
    using inverse by (auto simp: inj_on_def)
  then have "distinct (canonical_order W)"
    using W(1) by (simp add: canonical_order_def distinct_map)
  with 1 show "set (canonical_order W) = W \<and> distinct (canonical_order W)" by simp
qed

lemma grid_edges_pair:
  assumes "e \<in> grid_edges n"
  obtains a b where "e = {a, b}" "a < b" "a \<in> rooms n" "b \<in> rooms n" "b = (fst a + 1, snd a) \<or> b = (fst a, snd a + 1)"
  using assms unfolding grid_edges_conv by (force simp: less_prod_def')

lemma sorted_pair: "(a :: cell) < b \<Longrightarrow> sorted_list_of_set {a, b} = [a, b]"
  using sorted_list_of_set.idem_if_sorted_distinct [of "[a, b]"] less_imp_le [of a b]
  by simp

lemma get_all_walls_correct:
  assumes "iterates order" and "walls es \<subseteq> grid_edges n"
  obtains ps where "get_all_walls order es = Some ps" "distinct ps"
    "set ps = {(a, b). a < b \<and> {a, b} \<in> walls es}"
proof -
  have ends: "\<exists>a b. e = {a, b} \<and> a < b \<and> sorted_list_of_set e = [a, b]" if "e \<in> walls es" for e
    using assms(2) that by (auto elim!: grid_edges_pair simp: sorted_pair)
  let ?p = "\<lambda>e :: edge. (hd (sorted_list_of_set e), last (sorted_list_of_set e))"
  let ?L = "order (walls es)"
  have "finite (walls es)" by (rule finite_subset [OF assms(2) finite_grid_edges])
  moreover have "\<forall>e \<in> walls es. finite e" using ends by (metis finite.simps)
  ultimately have L: "set ?L = walls es" "distinct ?L"
    using assms(1) by (auto simp: iterates_def)
  have "get_all_walls order es = Some (fold (\<lambda>e result. result @ [?p e]) ?L [])"
    unfolding get_all_walls_def
    by (rule for_each_total) (use L ends in fastforce)
  moreover have "fold (\<lambda>e result. result @ [?p e]) xs acc = acc @ map ?p xs" for xs acc
    by (induction xs arbitrary: acc) auto
  ultimately have 1: "get_all_walls order es = Some (map ?p ?L)" by simp
  have "inj_on ?p (walls es)"
  proof (rule inj_onI)
    fix e f
    assume "e \<in> walls es" "f \<in> walls es" and eq: "?p e = ?p f"
    with ends obtain a b c d where "e = {a, b}" "sorted_list_of_set e = [a, b]"
      "f = {c, d}" "sorted_list_of_set f = [c, d]" by metis
    with eq show "e = f" by simp
  qed
  then have 2: "distinct (map ?p ?L)" using L by (simp add: distinct_map)
  have "?p ` walls es = {(a, b). a < b \<and> {a, b} \<in> walls es}"
  proof
    show "?p ` walls es \<subseteq> {(a, b). a < b \<and> {a, b} \<in> walls es}"
      using ends by fastforce
    show "{(a, b). a < b \<and> {a, b} \<in> walls es} \<subseteq> ?p ` walls es"
      by (force simp: sorted_pair image_iff)
  qed
  with 1 2 L that show ?thesis by simp
qed

section \<open>Property\<close>

text \<open>The wall list of the edge set is complete and without repetition, each wall given once with its
  rooms in order.\<close>

theorem all_walls_listed:
  assumes "iterates order" and "walls es \<subseteq> grid_edges n"
  shows "\<exists>ps. get_all_walls order es = Some ps \<and> distinct ps \<and> length ps = wall_count es \<and>
    set ps = {(a, b). a < b \<and> has_wall es (fst a) (snd a) (fst b) (snd b)}"
proof -
  obtain ps where ps: "get_all_walls order es = Some ps" "distinct ps"
    "set ps = {(a, b). a < b \<and> {a, b} \<in> walls es}"
    by (rule get_all_walls_correct [OF assms])
  have "bij_betw (\<lambda>(a, b). {a, b}) (set ps) (walls es)"
    unfolding bij_betw_def
  proof
    show "inj_on (\<lambda>(a, b). {a, b}) (set ps)"
    proof (rule inj_onI)
      fix p q
      assume "p \<in> set ps" "q \<in> set ps" and eq: "(\<lambda>(a, b). {a, b}) p = (\<lambda>(a, b). {a, b}) q"
      then have p: "fst p < snd p" "fst q < snd q" using ps(3) by auto
      have "{fst p, snd p} = {fst q, snd q}" using eq by (simp add: case_prod_beta)
      then have "fst p = fst q \<and> snd p = snd q" using p unfolding doubleton_eq_iff by (metis less_asym)
      then show "p = q" by (simp add: prod_eq_iff)
    qed
    show "(\<lambda>(a, b). {a, b}) ` set ps = walls es"
    proof
      show "(\<lambda>(a, b). {a, b}) ` set ps \<subseteq> walls es" using ps(3) by auto
      show "walls es \<subseteq> (\<lambda>(a, b). {a, b}) ` set ps"
      proof
        fix e
        assume e: "e \<in> walls es"
        then obtain a b where "e = {a, b}" "a < b"
          using assms(2) by (meson grid_edges_pair in_mono)
        with e ps(3) show "e \<in> (\<lambda>(a, b). {a, b}) ` set ps" by (intro image_eqI [of _ _ "(a, b)"]) auto
      qed
    qed
  qed
  then have "length ps = wall_count es"
    using distinct_card [OF ps(2)] bij_betw_same_card by (metis wall_count_def)
  with ps show ?thesis by (auto simp: has_wall_def)
qed

theorem all_walls_listed_witness:
  "\<exists>ps. get_all_walls canonical_order (wall_edge_set_init 2) = Some ps \<and> distinct ps \<and> length ps = 4 \<and>
    ((0, 0), (1, 0)) \<in> set ps"
proof -
  have "wall_count (wall_edge_set_init 2) = 4"
    using card_grid_edges [of 2] by (simp add: wall_count_def walls_init)
  moreover have "has_wall (wall_edge_set_init 2) 0 0 1 0" by code_simp
  moreover have "((0, 0) :: cell) < (1, 0)" by code_simp
  moreover obtain ps where "get_all_walls canonical_order (wall_edge_set_init 2) = Some ps" "distinct ps"
    "length ps = wall_count (wall_edge_set_init 2)"
    "set ps = {(a, b). a < b \<and> has_wall (wall_edge_set_init 2) (fst a) (snd a) (fst b) (snd b)}"
    using all_walls_listed [OF iterates_canonical, of "wall_edge_set_init 2" 2] walls_init [of 2] by blast
  ultimately show ?thesis by simp
qed

end
