(* ===== verification/Rng.thy ===== *)
theory Rng
  imports Prelude "HOL-Library.Multiset"
begin

text \<open>
  Python's \<open>random.Random\<close> as the generator uses it. The generator object is an arbitrary tape
  of raw draws and a position on it: which numbers a seed gives is not modelled, so a theorem
  holds for every sequence of draws. The derived operations follow CPython: \<open>choice\<close> and
  \<open>randint\<close> reduce one draw below a bound, \<open>random\<close> is a multiple of \<open>2 ^ (- 53)\<close> below 1, and
  \<open>sample\<close> takes elements out of a pool, filling each hole with the pool's last element.
\<close>

record rng =
  tape :: "nat \<Rightarrow> nat"
  pos :: nat

definition draw :: "rng \<Rightarrow> nat \<times> rng" where
  "draw r = (tape r (pos r), r\<lparr>pos := Suc (pos r)\<rparr>)"

text \<open>\<open>_randbelow(n)\<close> for \<open>0 < n\<close>\<close>

definition randbelow :: "nat \<Rightarrow> rng \<Rightarrow> nat \<times> rng" where
  "randbelow n r = (let (k, r') = draw r in (k mod n, r'))"

definition choice :: "'a list \<Rightarrow> rng \<Rightarrow> ('a \<times> rng) option" where
  "choice xs r =
     (if xs = [] then None else let (k, r') = randbelow (length xs) r in Some (xs ! k, r'))"

definition randint :: "int \<Rightarrow> int \<Rightarrow> rng \<Rightarrow> (int \<times> rng) option" where
  "randint a b r =
     (if b < a then None else let (k, r') = randbelow (nat (b - a + 1)) r in Some (a + int k, r'))"

definition random :: "rng \<Rightarrow> rat \<times> rng" where
  "random r = (let (k, r') = draw r in (of_nat (k mod 2 ^ 53) / 2 ^ 53, r'))"

primrec sample_pool :: "nat \<Rightarrow> 'a list \<Rightarrow> rng \<Rightarrow> 'a list \<times> rng" where
  "sample_pool 0 pool r = ([], r)"
| "sample_pool (Suc k) pool r =
     (let (j, r1) = randbelow (length pool) r;
          (rest, r2) = sample_pool k (butlast (pool[j := last pool])) r1
      in (pool ! j # rest, r2))"

definition sample :: "'a list \<Rightarrow> int \<Rightarrow> rng \<Rightarrow> ('a list \<times> rng) option" where
  "sample xs k r = (if 0 \<le> k \<and> k \<le> int (length xs) then Some (sample_pool (nat k) xs r) else None)"

lemma randbelow_less: "0 < n \<Longrightarrow> fst (randbelow n r) < n"
  by (simp add: randbelow_def draw_def)

lemma choice_in: "xs \<noteq> [] \<Longrightarrow> \<exists>x r'. choice xs r = Some (x, r') \<and> x \<in> set xs"
  by (simp add: choice_def randbelow_def draw_def)

lemma randint_in: "a \<le> b \<Longrightarrow> \<exists>k r'. randint a b r = Some (k, r') \<and> a \<le> k \<and> k \<le> b"
  using randbelow_less [of "nat (b - a + 1)" r] by (auto simp: randint_def split: prod.splits)

lemma random_unit: "0 \<le> fst (random r) \<and> fst (random r) < 1"
proof -
  have "of_nat (k mod 2 ^ 53) < (2 ^ 53 :: rat)" for k :: nat
  proof -
    have "k mod 2 ^ 53 < 2 ^ 53" by simp
    then have "(of_nat (k mod 2 ^ 53) :: rat) < of_nat (2 ^ 53)" by (simp only: of_nat_less_iff)
    then show ?thesis by simp
  qed
  then show ?thesis by (simp add: random_def draw_def)
qed

text \<open>Taking an element out of the pool: the multiset loses exactly that element.\<close>

lemma mset_pool_take:
  assumes "j < length pool"
  shows "mset pool = add_mset (pool ! j) (mset (butlast (pool[j := last pool])))"
proof (cases pool rule: rev_cases)
  case Nil
  with assms show ?thesis by simp
next
  case (snoc ys y)
  show ?thesis
  proof (cases "j = length ys")
    case True
    with snoc show ?thesis by (simp add: list_update_append nth_append)
  next
    case False
    with assms snoc have j: "j < length ys" by simp
    then have "mset (ys[j := y]) = add_mset y (mset ys - {#ys ! j#})"
      by (simp add: mset_update)
    moreover have "ys ! j \<in># mset ys" using j by simp
    ultimately show ?thesis using snoc j
      by (simp add: list_update_append nth_append butlast_append add_mset_commute)
  qed
qed

lemma sample_pool_mset:
  "k \<le> length pool \<Longrightarrow> mset (fst (sample_pool k pool r)) \<subseteq># mset pool \<and> length (fst (sample_pool k pool r)) = k"
proof (induction k arbitrary: pool r)
  case 0
  then show ?case by simp
next
  case (Suc k)
  obtain j r1 where j: "randbelow (length pool) r = (j, r1)" by (cases "randbelow (length pool) r")
  have "0 < length pool" using Suc.prems by arith
  from randbelow_less [OF this, of r] j have "j < length pool" by simp
  note m = mset_pool_take [OF this]
  obtain rest r2 where rest: "sample_pool k (butlast (pool[j := last pool])) r1 = (rest, r2)"
    by (cases "sample_pool k (butlast (pool[j := last pool])) r1")
  have "mset rest \<subseteq># mset (butlast (pool[j := last pool])) \<and> length rest = k"
    using Suc.IH [of "butlast (pool[j := last pool])" r1] Suc.prems rest by simp
  then show ?case using m j rest by simp
qed

lemma sample_pool_distinct:
  assumes "k \<le> length pool" and "distinct pool"
  shows "distinct (fst (sample_pool k pool r)) \<and> set (fst (sample_pool k pool r)) \<subseteq> set pool
    \<and> length (fst (sample_pool k pool r)) = k"
proof -
  note s = sample_pool_mset [OF assms(1), of r]
  have "count (mset (fst (sample_pool k pool r))) x \<le> 1" for x
    using s assms(2) by (metis distinct_count_atmost_1 le_trans mset_subset_eq_count nat_le_linear not_less_eq_eq le_zero_eq One_nat_def)
  then have "distinct (fst (sample_pool k pool r))"
    by (metis count_mset_0_iff distinct_count_atmost_1 le_antisym le_less less_one not_less)
  with s show ?thesis by (metis mset_subset_eqD set_mset_mset subsetI)
qed

lemma sample_distinct:
  assumes "0 \<le> k" and "k \<le> int (length xs)" and "distinct xs"
  obtains ys r' where "sample xs k r = Some (ys, r')" "distinct ys" "set ys \<subseteq> set xs" "length ys = nat k"
proof (cases "sample_pool (nat k) xs r")
  case (Pair ys r')
  have "nat k \<le> length xs" using assms(2) by simp
  from sample_pool_distinct [OF this assms(3), of r] Pair assms(1,2) show ?thesis
    by (intro that [of ys r']) (simp_all add: sample_def)
qed

end
