(* ===== verification/MazeDfs.thy ===== *)
theory MazeDfs
  imports WallEdges Rng
begin

text \<open>
  \<open>generate_maze_edges\<close>: the randomised depth-first search that carves the maze. The stack is a
  list with its top first, \<open>visited\<close> a grid read and written with Python's index rules, and
  each random choice takes one draw from the generator object.
\<close>

definition DIRECTIONS :: "(int \<times> int) list" where
  "DIRECTIONS = [(1, 0), (0, 1), (- 1, 0), (0, - 1)]"

text \<open>The loop over \<open>DIRECTIONS\<close> that collects the unvisited neighbours of \<open>(cx, cy)\<close>.\<close>

definition unvisited_neighbors :: "int \<Rightarrow> bool grid \<Rightarrow> int \<Rightarrow> int \<Rightarrow> cell list option" where
  "unvisited_neighbors n visited cx cy = for_each DIRECTIONS (\<lambda>(dx, dy) neighbors.
     let nx = cx + dx; ny = cy + dy in
     if 0 \<le> nx \<and> nx < n \<and> 0 \<le> ny \<and> ny < n
     then do { v \<leftarrow> gget visited ny nx; Some (if v then neighbors else neighbors @ [(nx, ny)]) }
     else Some neighbors) []"

text \<open>The \<open>while stack\<close> loop.\<close>

partial_function (option) dfs_loop ::
    "int \<Rightarrow> bool grid \<Rightarrow> cell list \<Rightarrow> wall_edge_set \<Rightarrow> rng \<Rightarrow> (wall_edge_set \<times> rng) option" where
  "dfs_loop n visited stack edge_set r =
     (case stack of [] \<Rightarrow> Some (edge_set, r)
      | (cx, cy) # below \<Rightarrow> do {
          neighbors \<leftarrow> unvisited_neighbors n visited cx cy;
          if neighbors = [] then dfs_loop n visited below edge_set r
          else do {
            ((nx, ny), r') \<leftarrow> choice neighbors r;
            visited' \<leftarrow> gset visited ny nx True;
            dfs_loop n visited' ((nx, ny) # stack) (remove_wall edge_set cx cy nx ny) r'
          }
        })"

definition generate_maze_edges :: "int \<Rightarrow> rng \<Rightarrow> (wall_edge_set \<times> rng) option" where
  "generate_maze_edges n r = do {
     visited \<leftarrow> gset (new_grid n n False) 0 0 True;
     dfs_loop n visited [(0, 0)] (wall_edge_set_init n) r
   }"

declare dfs_loop.simps [code]

text \<open>The three ways through one round of the loop.\<close>

lemma dfs_loop_done: "dfs_loop n visited [] es r = Some (es, r)"
  by (simp add: dfs_loop.simps)

lemma dfs_loop_pop:
  "unvisited_neighbors n visited cx cy = Some [] \<Longrightarrow>
   dfs_loop n visited ((cx, cy) # below) es r = dfs_loop n visited below es r"
  by (subst dfs_loop.simps) simp

lemma dfs_loop_push:
  "unvisited_neighbors n visited cx cy = Some ns \<Longrightarrow> ns \<noteq> [] \<Longrightarrow> choice ns r = Some ((nx, ny), r') \<Longrightarrow>
   gset visited ny nx True = Some visited' \<Longrightarrow>
   dfs_loop n visited ((cx, cy) # below) es r =
   dfs_loop n visited' ((nx, ny) # (cx, cy) # below) (remove_wall es cx cy nx ny) r'"
  by (subst dfs_loop.simps) simp

section \<open>The neighbours\<close>

text \<open>The visited cells as a set.\<close>

definition marked :: "int \<Rightarrow> bool grid \<Rightarrow> cell set" where
  "marked n visited = {(x, y). in_grid n n x y \<and> cell_at visited x y}"

lemma marked_subset: "marked n visited \<subseteq> rooms n"
  by (auto simp: marked_def in_grid_def)

lemma finite_marked [simp]: "finite (marked n visited)"
  by (rule finite_subset [OF marked_subset]) simp

lemma unvisited_neighbors_eq:
  assumes "wf_grid n n visited"
  shows "unvisited_neighbors n visited cx cy =
    Some (filter (\<lambda>c. c \<in> rooms n \<and> c \<notin> marked n visited) (map (\<lambda>(dx, dy). (cx + dx, cy + dy)) DIRECTIONS))"
proof -
  let ?body = "\<lambda>(dx, dy) neighbors. let nx = cx + dx; ny = cy + dy in
     if 0 \<le> nx \<and> nx < n \<and> 0 \<le> ny \<and> ny < n
     then do { v \<leftarrow> gget visited ny nx; Some (if v then neighbors else neighbors @ [(nx, ny)]) }
     else Some neighbors"
  have step: "?body (dx, dy) ns =
      Some (ns @ filter (\<lambda>c. c \<in> rooms n \<and> c \<notin> marked n visited) [(cx + dx, cy + dy)])" for dx dy ns
  proof (cases "in_grid n n (cx + dx) (cy + dy)")
    case True
    then show ?thesis using gget_in [OF assms True] by (simp add: in_grid_def marked_def)
  next
    case False
    then show ?thesis by (auto simp: in_grid_def)
  qed
  have "for_each ds ?body ns = Some (ns @ filter (\<lambda>c. c \<in> rooms n \<and> c \<notin> marked n visited)
      (map (\<lambda>(dx, dy). (cx + dx, cy + dy)) ds))" for ds ns
  proof (induction ds arbitrary: ns)
    case Nil
    show ?case by simp
  next
    case (Cons d ds)
    obtain dx dy where d: "d = (dx, dy)" by (cases d)
    show ?case unfolding d for_each.simps step bind.simps Cons.IH by simp
  qed
  from this [of DIRECTIONS "[]"] show ?thesis unfolding unvisited_neighbors_def by simp
qed

lemma set_unvisited:
  "set (filter (\<lambda>c. c \<in> rooms n \<and> c \<notin> M) (map (\<lambda>(dx, dy). (cx + dx, cy + dy)) DIRECTIONS))
   = {c. adjacent (cx, cy) c \<and> c \<in> rooms n \<and> c \<notin> M}"
  by (auto simp: DIRECTIONS_def adjacent_cases)

lemma marked_gset:
  assumes "wf_grid n n visited" and "(x, y) \<in> rooms n"
  obtains visited' where "gset visited y x True = Some visited'" "wf_grid n n visited'"
    "marked n visited' = insert (x, y) (marked n visited)"
proof -
  from assms(2) have g: "in_grid n n x y" by (simp add: in_grid_def)
  from gset_in [OF assms(1) g, of True] obtain v' where v': "gset visited y x True = Some v'" "wf_grid n n v'"
    "\<forall>x' y'. in_grid n n x' y' \<longrightarrow> cell_at v' x' y' = (if x' = x \<and> y' = y then True else cell_at visited x' y')"
    by blast
  then have "marked n v' = insert (x, y) (marked n visited)"
    using g by (auto simp: marked_def)
  with v' that show ?thesis by blast
qed

section \<open>The invariant of the search\<close>

text \<open>
  Every stacked room is marked; each marked room was reached from the corner through opened
  walls; a marked room that has left the stack has no unmarked neighbour; and one wall was
  opened for every marked room but the first, so the opened walls form a tree.
\<close>

definition dfs_inv :: "int \<Rightarrow> bool grid \<Rightarrow> cell list \<Rightarrow> wall_edge_set \<Rightarrow> bool" where
  "dfs_inv n visited stack es \<longleftrightarrow>
     wf_grid n n visited \<and> grid_dim es = n \<and> walls es \<subseteq> grid_edges n \<and>
     (0, 0) \<in> marked n visited \<and> set stack \<subseteq> marked n visited \<and>
     (\<forall>v \<in> marked n visited. ((0, 0), v) \<in> (passages es)\<^sup>*) \<and>
     (\<forall>v \<in> marked n visited - set stack. \<forall>w \<in> rooms n. adjacent v w \<longrightarrow> w \<in> marked n visited) \<and>
     card (grid_edges n - walls es) + 1 = card (marked n visited) \<and>
     (\<forall>e \<in> grid_edges n - walls es. e \<subseteq> marked n visited)"

lemma dfs_invD:
  assumes "dfs_inv n visited stack es"
  shows "wf_grid n n visited" "grid_dim es = n" "walls es \<subseteq> grid_edges n"
    "(0, 0) \<in> marked n visited" "set stack \<subseteq> marked n visited"
    "\<And>v. v \<in> marked n visited \<Longrightarrow> ((0, 0), v) \<in> (passages es)\<^sup>*"
    "\<And>v w. v \<in> marked n visited \<Longrightarrow> v \<notin> set stack \<Longrightarrow> w \<in> rooms n \<Longrightarrow> adjacent v w \<Longrightarrow> w \<in> marked n visited"
    "card (grid_edges n - walls es) + 1 = card (marked n visited)"
    "\<And>e. e \<in> grid_edges n \<Longrightarrow> e \<notin> walls es \<Longrightarrow> e \<subseteq> marked n visited"
proof -
  note parts = assms [unfolded dfs_inv_def]
  from parts have c: "\<forall>v \<in> marked n visited. ((0, 0), v) \<in> (passages es)\<^sup>*"
    "\<forall>v \<in> marked n visited - set stack. \<forall>w \<in> rooms n. adjacent v w \<longrightarrow> w \<in> marked n visited"
    "\<forall>e \<in> grid_edges n - walls es. e \<subseteq> marked n visited"
    by - (elim conjE, assumption)+
  show "wf_grid n n visited" "grid_dim es = n" "walls es \<subseteq> grid_edges n" "(0, 0) \<in> marked n visited"
    "set stack \<subseteq> marked n visited" "card (grid_edges n - walls es) + 1 = card (marked n visited)"
    using parts by - (elim conjE, assumption)+
  show "\<And>v. v \<in> marked n visited \<Longrightarrow> ((0, 0), v) \<in> (passages es)\<^sup>*" using c(1) by blast
  show "\<And>v w. v \<in> marked n visited \<Longrightarrow> v \<notin> set stack \<Longrightarrow> w \<in> rooms n \<Longrightarrow> adjacent v w \<Longrightarrow> w \<in> marked n visited"
    using c(2) by blast
  show "\<And>e. e \<in> grid_edges n \<Longrightarrow> e \<notin> walls es \<Longrightarrow> e \<subseteq> marked n visited" using c(3) by blast
qed

lemma dfs_invI:
  assumes "wf_grid n n visited" "grid_dim es = n" "walls es \<subseteq> grid_edges n"
    "(0, 0) \<in> marked n visited" "set stack \<subseteq> marked n visited"
    "\<And>v. v \<in> marked n visited \<Longrightarrow> ((0, 0), v) \<in> (passages es)\<^sup>*"
    "\<And>v w. v \<in> marked n visited \<Longrightarrow> v \<notin> set stack \<Longrightarrow> w \<in> rooms n \<Longrightarrow> adjacent v w \<Longrightarrow> w \<in> marked n visited"
    "card (grid_edges n - walls es) + 1 = card (marked n visited)"
    "\<And>e. e \<in> grid_edges n \<Longrightarrow> e \<notin> walls es \<Longrightarrow> e \<subseteq> marked n visited"
  shows "dfs_inv n visited stack es"
  unfolding dfs_inv_def using assms by (intro conjI ballI impI) blast+

lemma dfs_inv_pop:
  assumes "dfs_inv n visited (c # below) es" and "\<And>w. w \<in> rooms n \<Longrightarrow> adjacent c w \<Longrightarrow> w \<in> marked n visited"
  shows "dfs_inv n visited below es"
proof -
  note D = dfs_invD [OF assms(1)]
  have "w \<in> marked n visited"
    if "v \<in> marked n visited" "v \<notin> set below" "w \<in> rooms n" "adjacent v w" for v w
    using that assms(2) D(7) by (cases "v = c") auto
  moreover have "set below \<subseteq> marked n visited" using D(5) by simp
  ultimately show ?thesis using D(1-4,6,8,9) by (intro dfs_invI)
qed

lemma passages_remove_mono: "passages es \<subseteq> passages (remove_wall es x y x' y')"
  by (auto simp: passages_def)

lemma dfs_inv_push:
  assumes inv: "dfs_inv n visited ((cx, cy) # below) es"
    and new: "adjacent (cx, cy) (nx, ny)" "(nx, ny) \<in> rooms n" "(nx, ny) \<notin> marked n visited"
    and v': "wf_grid n n visited'" "marked n visited' = insert (nx, ny) (marked n visited)"
  shows "dfs_inv n visited' ((nx, ny) # (cx, cy) # below) (remove_wall es cx cy nx ny)"
proof -
  note D = dfs_invD [OF inv]
  let ?es = "remove_wall es cx cy nx ny" and ?e = "{(cx, cy), (nx, ny)} :: edge"
  have c: "(cx, cy) \<in> marked n visited" using D(5) by simp
  have c_room: "(cx, cy) \<in> rooms n" using c marked_subset by blast
  have e: "?e \<in> grid_edges n" "?e \<in> walls es"
    using new c_room D(9) [of ?e] unfolding grid_edges_def by auto
  have edges: "grid_edges n - walls ?es = insert ?e (grid_edges n - walls es)"
    using e by auto
  have step: "((cx, cy), (nx, ny)) \<in> passages ?es"
    using new(1,2) c_room D(2) by (simp add: passages_def)
  have reach: "((0, 0), v) \<in> (passages ?es)\<^sup>*" if "v \<in> marked n visited'" for v
  proof -
    have old: "((0, 0), u) \<in> (passages ?es)\<^sup>*" if "u \<in> marked n visited" for u
      using D(6) [OF that] rtrancl_mono [OF passages_remove_mono] by blast
    show ?thesis
    proof (cases "v = (nx, ny)")
      case True
      with rtrancl_into_rtrancl [OF old [OF c] step] show ?thesis by simp
    next
      case False
      with that v'(2) show ?thesis by (intro old) simp
    qed
  qed
  have closed: "w \<in> marked n visited'"
    if "v \<in> marked n visited'" "v \<notin> set ((nx, ny) # (cx, cy) # below)" "w \<in> rooms n" "adjacent v w" for v w
    using that v'(2) D(7) [of v w] by simp
  have "card (grid_edges n - walls ?es) + 1 = card (marked n visited')"
    using e(2) edges v'(2) new(3) D(8) by simp
  moreover have "f \<subseteq> marked n visited'" if "f \<in> grid_edges n" "f \<notin> walls ?es" for f
    using that edges v'(2) c D(9) [of f] by auto
  moreover have "walls ?es \<subseteq> grid_edges n" "grid_dim ?es = n" "(0, 0) \<in> marked n visited'"
    "set ((nx, ny) # (cx, cy) # below) \<subseteq> marked n visited'"
    using D(2-5) v'(2) by auto
  ultimately show ?thesis
    using v'(1) reach closed by (intro dfs_invI)
qed

text \<open>Rooms with no unmarked neighbour that hold the corner are all the rooms.\<close>

lemma closed_is_all:
  assumes "(0, 0) \<in> M" and closed: "\<And>v w. v \<in> M \<Longrightarrow> w \<in> rooms n \<Longrightarrow> adjacent v w \<Longrightarrow> w \<in> M"
  shows "rooms n \<subseteq> M"
proof
  fix c
  assume c: "c \<in> rooms n"
  obtain x y where xy: "c = (x, y)" by (cases c)
  have col: "(int i, 0) \<in> M" if "int i < n" for i :: nat
    using that
  proof (induction i)
    case 0
    then show ?case using assms(1) by simp
  next
    case (Suc i)
    then show ?case using closed [of "(int i, 0)" "(int (Suc i), 0)"] by (simp add: adjacent_cases)
  qed
  have "(int i, int j) \<in> M" if "int i < n" "int j < n" for i j :: nat
    using that
  proof (induction j)
    case 0
    then show ?case using col by simp
  next
    case (Suc j)
    then show ?case using closed [of "(int i, int j)" "(int i, int (Suc j))"] by (simp add: adjacent_cases)
  qed
  from this [of "nat x" "nat y"] c xy show "c \<in> M" by simp
qed

lemma dfs_inv_done:
  assumes "dfs_inv n visited [] es"
  shows "marked n visited = rooms n"
proof
  show "rooms n \<subseteq> marked n visited"
    by (rule closed_is_all) (use dfs_invD(4,7) [OF assms] in \<open>simp_all\<close>)
qed (rule marked_subset)

lemma dfs_loop_total:
  assumes "dfs_inv n visited stack es"
  shows "\<exists>es' r' visited'. dfs_loop n visited stack es r = Some (es', r') \<and> dfs_inv n visited' [] es'"
  using assms
proof (induction "2 * card (rooms n - marked n visited) + length stack" arbitrary: visited stack es r rule: less_induct)
  case less
  note inv = less.prems
  show ?case
  proof (cases stack)
    case Nil
    with inv show ?thesis using dfs_loop_done by blast
  next
    case (Cons c below)
    obtain cx cy where c: "c = (cx, cy)" by (cases c)
    let ?ns = "filter (\<lambda>c. c \<in> rooms n \<and> c \<notin> marked n visited) (map (\<lambda>(dx, dy). (cx + dx, cy + dy)) DIRECTIONS)"
    note nb = unvisited_neighbors_eq [OF dfs_invD(1) [OF inv], of cx cy]
    note ns = set_unvisited [of n "marked n visited" cx cy]
    show ?thesis
    proof (cases "?ns = []")
      case True
      have "dfs_inv n visited below es"
        by (rule dfs_inv_pop [OF inv [unfolded Cons c]]) (use ns True in auto)
      moreover have "2 * card (rooms n - marked n visited) + length below
          < 2 * card (rooms n - marked n visited) + length stack"
        using Cons by simp
      ultimately obtain es' r' visited' where
        "dfs_loop n visited below es r = Some (es', r')" "dfs_inv n visited' [] es'"
        using less.hyps by blast
      moreover have "dfs_loop n visited stack es r = dfs_loop n visited below es r"
        unfolding Cons c by (rule dfs_loop_pop) (use nb True in simp)
      ultimately show ?thesis by auto
    next
      case False
      from choice_in [OF this, of r] obtain d r' where d: "choice ?ns r = Some (d, r')" "d \<in> set ?ns" by blast
      obtain nx ny where dn: "d = (nx, ny)" by (cases d)
      note ch = d [unfolded dn]
      then have new: "adjacent (cx, cy) (nx, ny)" "(nx, ny) \<in> rooms n" "(nx, ny) \<notin> marked n visited"
        unfolding ns by auto
      obtain v' where v': "gset visited ny nx True = Some v'" "wf_grid n n v'"
        "marked n v' = insert (nx, ny) (marked n visited)"
        using marked_gset [OF dfs_invD(1) [OF inv] new(2)] .
      note inv' = dfs_inv_push [OF inv [unfolded Cons c] new v'(2,3)]
      have "rooms n - marked n visited = insert (nx, ny) (rooms n - marked n v')"
        using new v'(3) by auto
      moreover have "(nx, ny) \<notin> rooms n - marked n v'" using v'(3) by simp
      ultimately have "card (rooms n - marked n visited) = Suc (card (rooms n - marked n v'))"
        by (metis card_insert_disjoint finite_Diff finite_rooms)
      then have "2 * card (rooms n - marked n v') + length ((nx, ny) # (cx, cy) # below)
          < 2 * card (rooms n - marked n visited) + length stack"
        using Cons by simp
      from less.hyps [OF this inv'] obtain es' r'' visited' where
        "dfs_loop n v' ((nx, ny) # (cx, cy) # below) (remove_wall es cx cy nx ny) r' = Some (es', r'')"
        "dfs_inv n visited' [] es'" by blast
      moreover have "dfs_loop n visited stack es r =
          dfs_loop n v' ((nx, ny) # (cx, cy) # below) (remove_wall es cx cy nx ny) r'"
        unfolding Cons c by (rule dfs_loop_push [OF nb False ch(1) v'(1)])
      ultimately show ?thesis by auto
    qed
  qed
qed

lemma dfs_inv_start:
  assumes "1 \<le> n"
  obtains visited where "gset (new_grid n n False) 0 0 True = Some visited"
    "dfs_inv n visited [(0, 0)] (wall_edge_set_init n)"
proof -
  obtain v where v: "gset (new_grid n n False) 0 0 True = Some v" "wf_grid n n v"
    "marked n v = insert (0, 0) (marked n (new_grid n n False))"
    using marked_gset [of n "new_grid n n False" 0 0] assms by auto
  moreover have "marked n (new_grid n n False) = {}" by (auto simp: marked_def)
  ultimately have "dfs_inv n v [(0, 0)] (wall_edge_set_init n)"
    by (auto simp: dfs_inv_def walls_init)
  with v(1) that show ?thesis by blast
qed

lemma generate_maze_edges_total:
  assumes "1 \<le> n"
  obtains es r' where "generate_maze_edges n r = Some (es, r')" "grid_dim es = n" "walls es \<subseteq> grid_edges n"
    "\<forall>c \<in> rooms n. ((0, 0), c) \<in> (passages es)\<^sup>*" "int (card (walls es)) = (n - 1) * (n - 1)"
proof -
  obtain v where v: "gset (new_grid n n False) 0 0 True = Some v" "dfs_inv n v [(0, 0)] (wall_edge_set_init n)"
    using dfs_inv_start [OF assms] .
  from dfs_loop_total [OF v(2), of r] obtain es r' v' where
    run: "dfs_loop n v [(0, 0)] (wall_edge_set_init n) r = Some (es, r')" and inv: "dfs_inv n v' [] es"
    by blast
  note D = dfs_invD [OF inv] and all = dfs_inv_done [OF inv]
  have "card (walls es) \<le> card (grid_edges n)" using D(3) by (simp add: card_mono)
  moreover have "card (grid_edges n - walls es) = card (grid_edges n) - card (walls es)"
    using D(3) by (simp add: card_Diff_subset finite_subset)
  ultimately have "int (card (grid_edges n)) - int (card (walls es)) + 1 = int (card (rooms n))"
    using D(8) all by simp
  then have "int (card (walls es)) = (n - 1) * (n - 1)"
    using assms by (simp add: card_grid_edges card_rooms algebra_simps)
  moreover have "generate_maze_edges n r = Some (es, r')"
    using v(1) run by (simp add: generate_maze_edges_def)
  ultimately show ?thesis using that D(2,3,6) all by auto
qed

section \<open>Property\<close>

text \<open>A generator object for examples: its raw draws are all zero.\<close>

definition sample_rng :: rng where
  "sample_rng = \<lparr>tape = (\<lambda>_. 0), pos = 0\<rparr>"

text \<open>C9: The randomised search ends for every grid of at least one room and every sequence of draws, and what it
  opens is a spanning tree: all rooms are linked and one wall fewer than rooms is open.\<close>

theorem generate_maze_edges_spanning_tree:
  assumes "1 \<le> n"
  shows "\<exists>es r'. generate_maze_edges n r = Some (es, r') \<and>
    walls es \<subseteq> grid_edges n \<and> int (card (grid_edges n - walls es)) = n * n - 1 \<and>
    (\<forall>a \<in> rooms n. \<forall>b \<in> rooms n. (a, b) \<in> (passages es)\<^sup>*)"
proof -
  obtain es r' where es: "generate_maze_edges n r = Some (es, r')" "walls es \<subseteq> grid_edges n"
    "\<forall>c \<in> rooms n. ((0, 0), c) \<in> (passages es)\<^sup>*" "int (card (walls es)) = (n - 1) * (n - 1)"
    using generate_maze_edges_total [OF assms, of r] by metis
  have "card (walls es) \<le> card (grid_edges n)" using es(2) by (simp add: card_mono)
  then have "int (card (grid_edges n - walls es)) = 2 * n * (n - 1) - (n - 1) * (n - 1)"
    using es(2,4) card_grid_edges [OF assms] finite_subset [OF es(2)] by (simp add: card_Diff_subset of_nat_diff)
  then have "int (card (grid_edges n - walls es)) = n * n - 1" by (simp add: algebra_simps)
  moreover have "(a, b) \<in> (passages es)\<^sup>*" if "a \<in> rooms n" "b \<in> rooms n" for a b
    using es(3) that sym_rtrancl [OF sym_passages [of es]] by (meson rtrancl_trans symD)
  ultimately show ?thesis using es(1,2) by blast
qed

theorem generate_maze_edges_spanning_tree_witness:
  "\<exists>es r'. generate_maze_edges 3 sample_rng = Some (es, r') \<and> int (card (grid_edges 3 - walls es)) = 8 \<and>
    ((0, 0), (2, 2)) \<in> (passages es)\<^sup>*"
  using generate_maze_edges_spanning_tree [of 3 sample_rng] by force

end
