(* ===== verification/RoomSearch.thy ===== *)
theory RoomSearch
  imports Search MazeDfs
begin

text \<open>
  \<open>bfs_reachable\<close>: the breadth-first search over rooms, with four directions and the walls of a
  \<open>WallEdgeSet\<close>. The queue holds \<open>(x, y, dist')\<close>; \<open>visited\<close> is a grid. It refines the search of
  \<open>Search\<close> on rooms, whose steps are the passages of the edge set.
\<close>

text \<open>The body of the loop over the directions.\<close>

definition room_visit ::
    "wall_edge_set \<Rightarrow> int \<Rightarrow> int \<Rightarrow> int \<Rightarrow> int \<Rightarrow> int \<times> int \<Rightarrow> bool grid \<times> (int \<times> int \<times> int) list \<Rightarrow>
      (bool grid \<times> (int \<times> int \<times> int) list) option" where
  "room_visit edge_set n cx cy dist' = (\<lambda>(dx, dy) (visited, queue).
     let nx = cx + dx; ny = cy + dy in
     if 0 \<le> nx \<and> nx < n \<and> 0 \<le> ny \<and> ny < n
     then do {
       v \<leftarrow> gget visited ny nx;
       if \<not> v \<and> \<not> has_wall edge_set cx cy nx ny
       then do {
         visited' \<leftarrow> gset visited ny nx True;
         Some (visited', queue @ [(nx, ny, dist' + 1)])
       }
       else Some (visited, queue)
     }
     else Some (visited, queue))"

text \<open>The \<open>while queue\<close> loop.\<close>

partial_function (option) room_loop ::
    "wall_edge_set \<Rightarrow> int \<Rightarrow> int \<Rightarrow> int \<Rightarrow> bool grid \<Rightarrow> (int \<times> int \<times> int) list \<Rightarrow> (bool \<times> int) option" where
  "room_loop edge_set n ex ey visited queue =
     (case queue of [] \<Rightarrow> Some (False, - 1)
      | (cx, cy, dist') # queue' \<Rightarrow>
          if cx = ex \<and> cy = ey then Some (True, dist')
          else do {
            (visited', queue'') \<leftarrow> for_each DIRECTIONS (room_visit edge_set n cx cy dist') (visited, queue');
            room_loop edge_set n ex ey visited' queue''
          })"

declare room_loop.simps [code]

definition bfs_reachable ::
    "wall_edge_set \<Rightarrow> int \<Rightarrow> int \<Rightarrow> int \<Rightarrow> int \<Rightarrow> int \<Rightarrow> (bool \<times> int) option" where
  "bfs_reachable edge_set n sx sy ex ey = do {
     visited \<leftarrow> gset (new_grid n n False) sy sx True;
     room_loop edge_set n ex ey visited [(sx, sy, 0)]
   }"

section \<open>The moves between rooms\<close>

definition room_open :: "wall_edge_set \<Rightarrow> int \<Rightarrow> cell \<Rightarrow> cell \<Rightarrow> bool" where
  "room_open es n c c' \<longleftrightarrow> c' \<in> rooms n \<and> \<not> has_wall es (fst c) (snd c) (fst c') (snd c')"

definition room_moves :: "wall_edge_set \<Rightarrow> int \<Rightarrow> cell \<Rightarrow> cell list" where
  "room_moves es n c = filter (room_open es n c) (map (\<lambda>d. (fst c + fst d, snd c + snd d)) DIRECTIONS)"

interpretation room_space: search_space "rooms n" "room_moves es n" for es n
  by unfold_locales (auto simp: room_moves_def room_open_def)

lemma set_directions: "set (map (\<lambda>d. (fst c + fst d, snd c + snd d)) DIRECTIONS) = {c'. adjacent c c'}"
  by (cases c) (auto simp: DIRECTIONS_def adjacent_cases)

lemma set_room_moves: "set (room_moves es n c) = {c' \<in> rooms n. adjacent c c' \<and> {c, c'} \<notin> walls es}"
  unfolding room_moves_def set_filter set_directions by (auto simp: room_open_def has_wall_def)

lemma passages_step_rel: "grid_dim es = n \<Longrightarrow> passages es = {(c, c'). c \<in> rooms n} \<inter> step_rel (room_moves es n)"
  by (auto simp: passages_def step_rel_def set_room_moves)

text \<open>A chain of moves that starts in a room is a chain of passages.\<close>

lemma room_moves_reach:
  assumes "grid_dim es = n" and "c \<in> rooms n"
  shows "(c, c') \<in> (step_rel (room_moves es n))\<^sup>* \<longleftrightarrow> (c, c') \<in> (passages es)\<^sup>*"
proof
  assume "(c, c') \<in> (step_rel (room_moves es n))\<^sup>*"
  then have "(c, c') \<in> (passages es)\<^sup>* \<and> c' \<in> rooms n"
  proof induction
    case base
    then show ?case using assms(2) by simp
  next
    case (step a b)
    then show ?case
      using passages_step_rel [OF assms(1)] by (auto simp: step_rel_def set_room_moves intro: rtrancl_into_rtrancl)
  qed
  then show "(c, c') \<in> (passages es)\<^sup>*" ..
next
  assume "(c, c') \<in> (passages es)\<^sup>*"
  then show "(c, c') \<in> (step_rel (room_moves es n))\<^sup>*"
    using passages_step_rel [OF assms(1)] by (metis inf_le2 in_mono rtrancl_mono)
qed

section \<open>Refinement\<close>

text \<open>The visited grid marks the rooms that have a distance; queue entries carry theirs.\<close>

definition queue_of :: "(cell \<rightharpoonup> nat) \<Rightarrow> cell list \<Rightarrow> (int \<times> int \<times> int) list" where
  "queue_of d q = map (\<lambda>c. (fst c, snd c, int (the (d c)))) q"

definition room_rel :: "int \<Rightarrow> bool grid \<times> (int \<times> int \<times> int) list \<Rightarrow> (cell \<rightharpoonup> nat) \<times> cell list \<Rightarrow> bool" where
  "room_rel n state dq \<longleftrightarrow>
     wf_grid n n (fst state) \<and> marked n (fst state) = dom (fst dq) \<and> set (snd dq) \<subseteq> dom (fst dq) \<and>
     snd state = queue_of (fst dq) (snd dq)"

lemma room_visit_refines:
  assumes rel: "room_rel n (visited, queue) (d, q)" and u: "d (cx, cy) = Some k"
  obtains state' where "room_visit es n cx cy (int k) dir (visited, queue) = Some state'"
    "room_rel n state' (if room_open es n (cx, cy) (cx + fst dir, cy + snd dir)
       then bfs_visit (cx, cy) (cx + fst dir, cy + snd dir) (d, q) else (d, q))"
proof -
  let ?c = "(cx + fst dir, cy + snd dir)"
  have wf: "wf_grid n n visited" and m: "marked n visited = dom d" and q: "set q \<subseteq> dom d"
    and queue: "queue = queue_of d q"
    using rel by (auto simp: room_rel_def)
  have eq: "room_visit es n cx cy (int k) dir (visited, queue) =
      (if room_open es n (cx, cy) ?c \<and> d ?c = None
       then map_option (\<lambda>v. (v, queue @ [(fst ?c, snd ?c, int k + 1)])) (gset visited (snd ?c) (fst ?c) True)
       else Some (visited, queue))"
  proof (cases "?c \<in> rooms n")
    case True
    then have g: "in_grid n n (cx + fst dir) (cy + snd dir)" by (simp add: in_grid_def)
    have "cell_at visited (cx + fst dir) (cy + snd dir) \<longleftrightarrow> d ?c \<noteq> None"
      using m g by (auto simp: marked_def)
    then show ?thesis
      using True gget_in [OF wf g]
      by (cases dir) (auto simp: room_visit_def room_open_def map_option_case bind_eq_Some_conv split: option.splits)
  next
    case False
    then show ?thesis by (cases dir) (auto simp: room_visit_def room_open_def)
  qed
  show ?thesis
  proof (cases "room_open es n (cx, cy) ?c \<and> d ?c = None")
    case False
    with eq rel that show ?thesis by (auto simp: bfs_visit_app)
  next
    case True
    then have room: "?c \<in> rooms n" by (simp add: room_open_def)
    obtain v' where v': "gset visited (snd ?c) (fst ?c) True = Some v'" "wf_grid n n v'"
      "marked n v' = insert ?c (marked n visited)"
      using marked_gset [OF wf, of "fst ?c" "snd ?c"] room by auto
    have "queue_of (d(?c \<mapsto> Suc k)) (q @ [?c]) = queue @ [(fst ?c, snd ?c, int k + 1)]"
      using q True unfolding queue queue_of_def by auto
    then have "room_rel n (v', queue @ [(fst ?c, snd ?c, int k + 1)]) (d(?c \<mapsto> Suc k), q @ [?c])"
      using v' m q by (auto simp: room_rel_def)
    with eq True v'(1) u that show ?thesis by (simp add: bfs_visit_app)
  qed
qed

lemma room_round_refines:
  assumes "room_rel n state (d, q)" and "d (cx, cy) = Some k"
  shows "\<exists>state'. for_each dirs (room_visit es n cx cy (int k)) state = Some state' \<and>
    room_rel n state' (fold (bfs_visit (cx, cy))
      (filter (room_open es n (cx, cy)) (map (\<lambda>e. (cx + fst e, cy + snd e)) dirs)) (d, q))"
  using assms
proof (induction dirs arbitrary: state d q)
  case Nil
  then show ?case by simp
next
  case (Cons dir dirs)
  let ?next = "if room_open es n (cx, cy) (cx + fst dir, cy + snd dir)
      then bfs_visit (cx, cy) (cx + fst dir, cy + snd dir) (d, q) else (d, q)"
  obtain state1 where 1: "room_visit es n cx cy (int k) dir state = Some state1" "room_rel n state1 ?next"
    using room_visit_refines [of n "fst state" "snd state" d q cx cy k es dir] Cons.prems by auto
  have "fst ?next (cx, cy) = Some k"
    using Cons.prems(2) by (auto simp: bfs_visit_def)
  with Cons.IH [of state1 "fst ?next" "snd ?next"] 1 show ?case by auto
qed

lemma room_loop_refines:
  assumes run: "bfs_loop (room_moves es n) (ex, ey) d q = Some r" and "room_rel n (visited, queue) (d, q)"
  shows "room_loop es n ex ey visited queue =
    Some (case r of None \<Rightarrow> (False, - 1) | Some k \<Rightarrow> (True, int k))"
  using run assms(2)
proof (induction arbitrary: visited queue rule: bfs_loop_induct)
  case (empty d)
  then show ?case by (simp add: room_rel_def queue_of_def room_loop.simps)
next
  case (found d q)
  then obtain k where "d (ex, ey) = Some k" by (auto simp: room_rel_def)
  with found show ?case by (auto simp: room_rel_def queue_of_def room_loop.simps)
next
  case (step d u q d' q' r)
  obtain cx cy k where u: "u = (cx, cy)" "d (cx, cy) = Some k"
    using step.prems by (cases u) (auto simp: room_rel_def)
  have queue: "queue = (cx, cy, int k) # queue_of d q"
    using step.prems u by (simp add: room_rel_def queue_of_def)
  have rel: "room_rel n (visited, queue_of d q) (d, q)"
    using step.prems by (simp add: room_rel_def)
  obtain state' where s: "for_each DIRECTIONS (room_visit es n cx cy (int k)) (visited, queue_of d q) = Some state'"
    "room_rel n state' (d', q')"
    using room_round_refines [OF rel u(2), of DIRECTIONS es] step.hyps(2) u(1) by (auto simp: room_moves_def)
  obtain v' queue' where st: "state' = (v', queue')" by (cases state')
  have "(cx, cy) \<noteq> (ex, ey)" using step.hyps(1) u(1) by simp
  with step.IH [OF s(2) [unfolded st]] s(1) st queue show ?case
    by (subst room_loop.simps) auto
qed

section \<open>Property\<close>

text \<open>The room search ends; it answers whether the passages link the two rooms, with the least number of
  passages when they do and -1 when they do not.\<close>

theorem bfs_reachable_correct:
  assumes "grid_dim es = n" and s: "(sx, sy) \<in> rooms n"
  shows "\<exists>reachable k. bfs_reachable es n sx sy ex ey = Some (reachable, k) \<and>
    (reachable \<longleftrightarrow> ((sx, sy), (ex, ey)) \<in> (passages es)\<^sup>*) \<and>
    (if reachable then 0 \<le> k \<and> shortest (room_moves es n) (sx, sy) (ex, ey) (nat k) else k = - 1)"
proof -
  obtain r where r: "bfs_loop (room_moves es n) (ex, ey) [(sx, sy) \<mapsto> 0] [(sx, sy)] = Some r"
    "r = None \<Longrightarrow> ((sx, sy), (ex, ey)) \<notin> (step_rel (room_moves es n))\<^sup>*"
    "\<And>k. r = Some k \<Longrightarrow> shortest (room_moves es n) (sx, sy) (ex, ey) k"
    using room_space.bfs_correct [OF s] by blast
  obtain v where v: "gset (new_grid n n False) sy sx True = Some v" "wf_grid n n v"
    "marked n v = insert (sx, sy) (marked n (new_grid n n False))"
    using marked_gset [OF wf_new_grid s] .
  moreover have "marked n (new_grid n n False) = {}" by (auto simp: marked_def)
  ultimately have "room_rel n (v, [(sx, sy, 0)]) ([(sx, sy) \<mapsto> 0], [(sx, sy)])"
    by (simp add: room_rel_def queue_of_def)
  from room_loop_refines [OF r(1) this] v(1)
  have run: "bfs_reachable es n sx sy ex ey = Some (case r of None \<Rightarrow> (False, - 1) | Some k \<Rightarrow> (True, int k))"
    by (simp add: bfs_reachable_def)
  note reach = room_moves_reach [OF assms, of "(ex, ey)"]
  show ?thesis
  proof (cases r)
    case None
    with run r(2) reach show ?thesis by auto
  next
    case (Some k)
    then have short: "shortest (room_moves es n) (sx, sy) (ex, ey) k" by (rule r(3))
    then have "((sx, sy), (ex, ey)) \<in> (passages es)\<^sup>*"
      using reach by (metis relpow_imp_rtrancl shortest_def)
    with run Some short show ?thesis by auto
  qed
qed

theorem bfs_reachable_correct_witness:
  "(let es = remove_wall (remove_wall (wall_edge_set_init 2) 0 0 0 1) 0 1 1 1 in
    shortest (room_moves es 2) (0, 0) (1, 1) 2 \<and> ((0, 0), (1, 0)) \<notin> (passages es)\<^sup>*)"
proof -
  define es where "es = remove_wall (remove_wall (wall_edge_set_init 2) 0 0 0 1) 0 1 1 1"
  have "bfs_reachable es 2 0 0 1 1 = Some (True, 2)" "bfs_reachable es 2 0 0 1 0 = Some (False, - 1)"
    unfolding es_def by code_simp+
  moreover have "grid_dim es = 2" by (simp add: es_def)
  ultimately have "shortest (room_moves es 2) (0, 0) (1, 1) 2 \<and> ((0, 0), (1, 0)) \<notin> (passages es)\<^sup>*"
    using bfs_reachable_correct [of es 2 0 0 1 1] bfs_reachable_correct [of es 2 0 0 1 0] by auto
  then show ?thesis unfolding es_def Let_def .
qed

end
