(* ===== verification/OpenWalls.thy ===== *)
theory OpenWalls
  imports MazeDfs
begin

text \<open>
  Opening more walls: \<open>extra_open_walls\<close> removes a random share of the walls that are left,
  \<open>clear_safe_zone\<close> every wall inside a square of rooms, and \<open>generate_random_start_end\<close> draws
  two rooms far enough apart.
\<close>

text \<open>\<open>int(x)\<close> of a float: towards zero. Floats are modelled as exact rationals.\<close>

definition py_int :: "rat \<Rightarrow> int" where
  "py_int q = (if 0 \<le> q then \<lfloor>q\<rfloor> else \<lceil>q\<rceil>)"

definition extra_open_walls ::
    "(edge set \<Rightarrow> edge list) \<Rightarrow> wall_edge_set \<Rightarrow> rat \<Rightarrow> rng \<Rightarrow> (wall_edge_set \<times> rng) option" where
  "extra_open_walls order edge_set ratio r =
     (let remaining = order (walls edge_set);
          count = py_int (of_nat (length remaining) * ratio) in
      if count > 0
      then do {
        (to_remove, r') \<leftarrow> sample remaining (min count (int (length remaining))) r;
        Some (fold (\<lambda>e es. es\<lparr>walls := walls es - {e}\<rparr>) to_remove edge_set, r')
      }
      else Some (edge_set, r))"

definition clear_safe_zone :: "wall_edge_set \<Rightarrow> int \<Rightarrow> int \<Rightarrow> int \<Rightarrow> int \<Rightarrow> wall_edge_set" where
  "clear_safe_zone edge_set n cx cy radius =
     fold (\<lambda>y. fold (\<lambda>x es.
         let es' = (if x + 1 < n \<and> x + 1 \<le> cx + radius then remove_wall es x y (x + 1) y else es)
         in if y + 1 < n \<and> y + 1 \<le> cy + radius then remove_wall es' x y x (y + 1) else es')
       (py_range (max 0 (cx - radius)) (min n (cx + radius + 1))))
       (py_range (max 0 (cy - radius)) (min n (cy + radius + 1))) edge_set"

text \<open>
  Up to 500 attempts. \<open>math.sqrt(s) >= min_distance\<close> for integers is \<open>min_distance\<^sup>2 <= s\<close>, or
  true when the bound is not positive.
\<close>

definition far_enough :: "int \<Rightarrow> int \<Rightarrow> int \<Rightarrow> int \<Rightarrow> int \<Rightarrow> bool" where
  "far_enough min_distance sx sy ex ey \<longleftrightarrow>
     min_distance \<le> 0 \<or> min_distance ^ 2 \<le> (sx - ex) ^ 2 + (sy - ey) ^ 2"

primrec random_start_end_loop ::
    "nat \<Rightarrow> int \<Rightarrow> int \<Rightarrow> rng \<Rightarrow> ((int \<times> int \<times> int \<times> int) option \<times> rng) option" where
  "random_start_end_loop 0 n min_distance r = Some (None, r)"
| "random_start_end_loop (Suc k) n min_distance r = do {
     (sx, r1) \<leftarrow> randint 0 (n - 1) r;
     (sy, r2) \<leftarrow> randint 0 (n - 1) r1;
     (ex, r3) \<leftarrow> randint 0 (n - 1) r2;
     (ey, r4) \<leftarrow> randint 0 (n - 1) r3;
     if far_enough min_distance sx sy ex ey then Some (Some (sx, sy, ex, ey), r4)
     else random_start_end_loop k n min_distance r4
   }"

definition generate_random_start_end ::
    "int \<Rightarrow> int \<Rightarrow> rng \<Rightarrow> ((int \<times> int \<times> int \<times> int) option \<times> rng) option" where
  "generate_random_start_end n min_distance r = random_start_end_loop 500 n min_distance r"

section \<open>Fewer walls, more passages\<close>

lemma passages_mono: "walls es' \<subseteq> walls es \<Longrightarrow> grid_dim es' = grid_dim es \<Longrightarrow> passages es \<subseteq> passages es'"
  by (auto simp: passages_def)

lemma fold_discard:
  "walls (fold (\<lambda>e es. es\<lparr>walls := walls es - {e}\<rparr>) xs es) = walls es - set xs"
  "grid_dim (fold (\<lambda>e es. es\<lparr>walls := walls es - {e}\<rparr>) xs es) = grid_dim es"
  by (induction xs arbitrary: es) auto

lemma extra_open_walls_total:
  assumes "iterates order" and "walls es \<subseteq> grid_edges n"
  obtains es' r' where "extra_open_walls order es ratio r = Some (es', r')"
    "walls es' \<subseteq> walls es" "grid_dim es' = grid_dim es"
    "int (card (walls es - walls es')) = max 0 (min (py_int (of_nat (card (walls es)) * ratio)) (int (card (walls es))))"
proof -
  have fin: "finite (walls es)" by (rule finite_subset [OF assms(2) finite_grid_edges])
  moreover have "\<forall>e \<in> walls es. finite e"
    using assms(2) by (fastforce simp: grid_edges_conv)
  ultimately have L: "set (order (walls es)) = walls es" "distinct (order (walls es))"
    using assms(1) by (auto simp: iterates_def)
  then have len: "length (order (walls es)) = card (walls es)" by (metis distinct_card)
  let ?count = "py_int (of_nat (card (walls es)) * ratio)"
  show ?thesis
  proof (cases "?count > 0")
    case False
    with that [of es r] len show ?thesis by (simp add: extra_open_walls_def Let_def)
  next
    case True
    obtain ys r' where ys: "sample (order (walls es)) (min ?count (int (length (order (walls es))))) r = Some (ys, r')"
      "distinct ys" "set ys \<subseteq> walls es" "length ys = nat (min ?count (int (card (walls es))))"
      using sample_distinct [OF _ _ L(2), of "min ?count (int (length (order (walls es))))" r] True L(1) len by auto
    let ?es = "fold (\<lambda>e es. es\<lparr>walls := walls es - {e}\<rparr>) ys es"
    have "extra_open_walls order es ratio r = Some (?es, r')"
      using True ys(1) len by (simp add: extra_open_walls_def Let_def)
    moreover have "walls es - walls ?es = set ys" using ys(3) by (auto simp: fold_discard)
    then have "int (card (walls es - walls ?es)) = max 0 (min ?count (int (card (walls es))))"
      using ys(2,4) True by (simp add: distinct_card)
    ultimately show ?thesis using that [of ?es r'] by (auto simp: fold_discard)
  qed
qed

text \<open>The square of rooms around a centre, cut off at the border of the grid.\<close>

definition zone :: "int \<Rightarrow> int \<Rightarrow> int \<Rightarrow> int \<Rightarrow> cell set" where
  "zone n cx cy radius = {(x, y) \<in> rooms n. \<bar>x - cx\<bar> \<le> radius \<and> \<bar>y - cy\<bar> \<le> radius}"

lemma clear_safe_zone_has_wall:
  "has_wall (clear_safe_zone es n cx cy radius) x1 y1 x2 y2 \<longleftrightarrow>
     has_wall es x1 y1 x2 y2 \<and>
     \<not> ((x1, y1) \<in> zone n cx cy radius \<and> (x2, y2) \<in> zone n cx cy radius \<and> adjacent (x1, y1) (x2, y2))"
  (is "_ \<longleftrightarrow> _ \<and> \<not> ?in")
proof -
  let ?P = "\<lambda>x y. x + 1 < n \<and> x + 1 \<le> cx + radius" and ?Q = "\<lambda>x y. y + 1 < n \<and> y + 1 \<le> cy + radius"
  let ?X = "{max 0 (cx - radius)..<min n (cx + radius + 1)}" and ?Y = "{max 0 (cy - radius)..<min n (cy + radius + 1)}"
  have "has_wall (clear_safe_zone es n cx cy radius) x1 y1 x2 y2 \<longleftrightarrow> has_wall es x1 y1 x2 y2 \<and>
      (\<forall>y \<in> ?Y. \<forall>x \<in> ?X. (?P x y \<longrightarrow> {(x1, y1), (x2, y2)} \<noteq> {(x, y), (x + 1, y)}) \<and>
        (?Q x y \<longrightarrow> {(x1, y1), (x2, y2)} \<noteq> {(x, y), (x, y + 1)}))"
    using edge_store.has_sweep [of ?P ?Q "py_range (max 0 (cx - radius)) (min n (cx + radius + 1))"
        "py_range (max 0 (cy - radius)) (min n (cy + radius + 1))" es "(x1, y1)" "(x2, y2)"]
    unfolding clear_safe_zone_def fst_conv snd_conv set_py_range .
  moreover have "(\<forall>y \<in> ?Y. \<forall>x \<in> ?X. (?P x y \<longrightarrow> {(x1, y1), (x2, y2)} \<noteq> {(x, y), (x + 1, y)}) \<and>
        (?Q x y \<longrightarrow> {(x1, y1), (x2, y2)} \<noteq> {(x, y), (x, y + 1)})) \<longleftrightarrow> \<not> ?in" (is "?all \<longleftrightarrow> _")
  proof
    assume all: ?all
    show "\<not> ?in"
    proof
      assume i: ?in
      then have dirs: "(x2, y2) = (x1 + 1, y1) \<or> (x2, y2) = (x1, y1 + 1) \<or> (x1, y1) = (x2 + 1, y2) \<or> (x1, y1) = (x2, y2 + 1)"
        by (auto simp: adjacent_cases)
      note zone = i [unfolded zone_def]
      have P: "{(x1, y1), (x2, y2)} \<noteq> {(x, y), (x + 1, y)}" if "y \<in> ?Y" "x \<in> ?X" "?P x y" for x y
        using all that by blast
      have Q: "{(x1, y1), (x2, y2)} \<noteq> {(x, y), (x, y + 1)}" if "y \<in> ?Y" "x \<in> ?X" "?Q x y" for x y
        using all that by blast
      from dirs consider "(x2, y2) = (x1 + 1, y1)" | "(x2, y2) = (x1, y1 + 1)"
        | "(x1, y1) = (x2 + 1, y2)" | "(x1, y1) = (x2, y2 + 1)" by blast
      then show False
      proof cases
        case 1
        with P [of y1 x1] zone show False by (auto simp: abs_le_iff)
      next
        case 2
        with Q [of y1 x1] zone show False by (auto simp: abs_le_iff)
      next
        case 3
        with P [of y2 x2] zone show False by (auto simp: insert_commute abs_le_iff)
      next
        case 4
        with Q [of y2 x2] zone show False by (auto simp: insert_commute abs_le_iff)
      qed
    qed
  next
    assume "\<not> ?in"
    then show ?all by (auto simp: zone_def adjacent_cases doubleton_eq_iff)
  qed
  ultimately show ?thesis by simp
qed

lemma clear_safe_zone_frame:
  "walls (clear_safe_zone es n cx cy radius) \<subseteq> walls es \<and> grid_dim (clear_safe_zone es n cx cy radius) = grid_dim es"
  unfolding clear_safe_zone_def
proof (rule fold_invariant [where Q = "\<lambda>_. True"])
  fix y and es' :: wall_edge_set
  assume *: "walls es' \<subseteq> walls es \<and> grid_dim es' = grid_dim es"
  show "walls (fold (\<lambda>x es.
         let es' = (if x + 1 < n \<and> x + 1 \<le> cx + radius then remove_wall es x y (x + 1) y else es)
         in if y + 1 < n \<and> y + 1 \<le> cy + radius then remove_wall es' x y x (y + 1) else es')
       (py_range (max 0 (cx - radius)) (min n (cx + radius + 1))) es') \<subseteq> walls es \<and>
    grid_dim (fold (\<lambda>x es.
         let es' = (if x + 1 < n \<and> x + 1 \<le> cx + radius then remove_wall es x y (x + 1) y else es)
         in if y + 1 < n \<and> y + 1 \<le> cy + radius then remove_wall es' x y x (y + 1) else es')
       (py_range (max 0 (cx - radius)) (min n (cx + radius + 1))) es') = grid_dim es"
    by (rule fold_invariant [where Q = "\<lambda>_. True"]) (use * in \<open>auto simp: Let_def\<close>)
qed auto

section \<open>Random end points\<close>

lemma random_start_end_loop_total:
  assumes "1 \<le> n"
  obtains result r' where "random_start_end_loop k n min_distance r = Some (result, r')"
    "\<forall>sx sy ex ey. result = Some (sx, sy, ex, ey) \<longrightarrow>
       (sx, sy) \<in> rooms n \<and> (ex, ey) \<in> rooms n \<and> far_enough min_distance sx sy ex ey"
proof -
  have "\<exists>result r'. random_start_end_loop k n min_distance r = Some (result, r') \<and>
    (\<forall>sx sy ex ey. result = Some (sx, sy, ex, ey) \<longrightarrow>
       (sx, sy) \<in> rooms n \<and> (ex, ey) \<in> rooms n \<and> far_enough min_distance sx sy ex ey)"
  proof (induction k arbitrary: r)
    case 0
    show ?case by simp
  next
    case (Suc k)
    have bound: "0 \<le> n - 1" using assms by simp
    obtain sx r1 where 1: "randint 0 (n - 1) r = Some (sx, r1)" "0 \<le> sx" "sx \<le> n - 1"
      using randint_in [OF bound] by blast
    obtain sy r2 where 2: "randint 0 (n - 1) r1 = Some (sy, r2)" "0 \<le> sy" "sy \<le> n - 1"
      using randint_in [OF bound] by blast
    obtain ex r3 where 3: "randint 0 (n - 1) r2 = Some (ex, r3)" "0 \<le> ex" "ex \<le> n - 1"
      using randint_in [OF bound] by blast
    obtain ey r4 where 4: "randint 0 (n - 1) r3 = Some (ey, r4)" "0 \<le> ey" "ey \<le> n - 1"
      using randint_in [OF bound] by blast
    show ?case
    proof (cases "far_enough min_distance sx sy ex ey")
      case True
      with 1 2 3 4 show ?thesis by auto
    next
      case False
      with 1 2 3 4 Suc.IH [of r4] show ?thesis by auto
    qed
  qed
  with that show ?thesis by blast
qed

section \<open>Properties\<close>

text \<open>Opening extra walls never raises: it removes exactly the truncated share of the walls that are left, at
  least none and at most all, and adds none.\<close>

theorem extra_open_walls_count:
  assumes "iterates order" and "walls es \<subseteq> grid_edges n"
  shows "\<exists>es' r'. extra_open_walls order es ratio r = Some (es', r') \<and> walls es' \<subseteq> walls es \<and>
    int (card (walls es - walls es')) =
      max 0 (min (py_int (of_nat (wall_count es) * ratio)) (int (wall_count es)))"
  using extra_open_walls_total [OF assms, of ratio r] unfolding wall_count_def by metis

theorem extra_open_walls_count_witness:
  "\<exists>es' r'. extra_open_walls canonical_order (wall_edge_set_init 3) (1 / 5) sample_rng = Some (es', r') \<and>
    int (card (walls (wall_edge_set_init 3) - walls es')) = 2"
proof -
  have "wall_count (wall_edge_set_init 3) = 12"
    using card_grid_edges [of 3] by (simp add: wall_count_def walls_init)
  moreover have "max 0 (min (py_int (of_nat 12 * (1 / 5))) (int 12)) = 2" by code_simp
  ultimately show ?thesis
    using extra_open_walls_count [OF iterates_canonical, of "wall_edge_set_init 3" 3 "1 / 5" sample_rng]
    by (auto simp: walls_init)
qed

text \<open>The safe zone removes exactly the walls between two rooms of the square around its centre, and no
  others.\<close>

theorem clear_safe_zone_exact:
  "has_wall (clear_safe_zone es n cx cy radius) x1 y1 x2 y2 \<longleftrightarrow>
     has_wall es x1 y1 x2 y2 \<and>
     \<not> ((x1, y1) \<in> zone n cx cy radius \<and> (x2, y2) \<in> zone n cx cy radius \<and> adjacent (x1, y1) (x2, y2))"
  by (rule clear_safe_zone_has_wall)

text \<open>Drawing random end points ends after at most 500 rounds; the rooms it gives lie in the grid and keep the
  minimum distance.\<close>

theorem random_start_end_in_range:
  assumes "1 \<le> n"
  shows "\<exists>result r'. generate_random_start_end n min_distance r = Some (result, r') \<and>
    (case result of None \<Rightarrow> True
     | Some (sx, sy, ex, ey) \<Rightarrow>
         (sx, sy) \<in> rooms n \<and> (ex, ey) \<in> rooms n \<and> far_enough min_distance sx sy ex ey)"
proof -
  obtain result r' where "random_start_end_loop 500 n min_distance r = Some (result, r')"
    "\<forall>sx sy ex ey. result = Some (sx, sy, ex, ey) \<longrightarrow>
       (sx, sy) \<in> rooms n \<and> (ex, ey) \<in> rooms n \<and> far_enough min_distance sx sy ex ey"
    by (rule random_start_end_loop_total [OF assms])
  then show ?thesis by (auto simp: generate_random_start_end_def split: option.splits)
qed

theorem random_start_end_in_range_witness:
  "\<exists>result r'. generate_random_start_end 4 0 sample_rng = Some (result, r') \<and>
    (case result of None \<Rightarrow> False
     | Some (sx, sy, ex, ey) \<Rightarrow>
         (sx, sy) \<in> rooms 4 \<and> (ex, ey) \<in> rooms 4 \<and> far_enough 0 sx sy ex ey)"
proof -
  have "(case generate_random_start_end 4 0 sample_rng of Some (Some _, _) \<Rightarrow> True | _ \<Rightarrow> False)" by code_simp
  then show ?thesis
    using random_start_end_in_range [of 4 0 sample_rng] by (fastforce split: option.splits)
qed

end
