(* ===== verification/ActionSearch.thy ===== *)
theory ActionSearch
  imports Search Grid
begin

text \<open>
  \<open>shortest_action_steps\<close>: the breadth-first search of the generator over the final blocked
  grid, with the eight moves of the action set and the rule that a diagonal move needs both
  orthogonal neighbours free. The distance table is a flat list indexed row by row and the queue
  holds flat indices. The search refines the search of \<open>Search\<close> on cells.
\<close>

definition ACTION_DIRECTIONS :: "(int \<times> int) list" where
  "ACTION_DIRECTIONS =
     [(0, 1), (1, 1), (1, 0), (1, - 1), (0, - 1), (- 1, - 1), (- 1, 0), (- 1, 1)]"

definition walkable :: "bool grid \<Rightarrow> int \<Rightarrow> int \<Rightarrow> int \<Rightarrow> int \<Rightarrow> bool option" where
  "walkable blocked cols rows gx gy =
     (if 0 \<le> gx \<and> gx < cols \<and> 0 \<le> gy \<and> gy < rows then map_option Not (gget blocked gy gx) else Some False)"

text \<open>The body of the loop over the directions: \<open>continue\<close> leaves distances and queue as they are.\<close>

definition action_visit ::
    "bool grid \<Rightarrow> int \<Rightarrow> int \<Rightarrow> int \<Rightarrow> int \<times> int \<Rightarrow> int list \<times> int list \<Rightarrow> (int list \<times> int list) option" where
  "action_visit blocked cols rows current = (\<lambda>(dx, dy) (distance, queue).
     let gx = current mod cols; gy = current div cols; nx = gx + dx; ny = gy + dy in do {
       free \<leftarrow> walkable blocked cols rows nx ny;
       if \<not> free then Some (distance, queue)
       else do {
         cut \<leftarrow> (if dx \<noteq> 0 \<and> dy \<noteq> 0 then do {
                  side \<leftarrow> walkable blocked cols rows (gx + dx) gy;
                  if \<not> side then Some True
                  else map_option Not (walkable blocked cols rows gx (gy + dy)) }
                else Some False);
         if cut then Some (distance, queue)
         else do {
           let next_index = ny * cols + nx;
           seen \<leftarrow> lget distance next_index;
           if seen \<ge> 0 then Some (distance, queue)
           else do {
             here \<leftarrow> lget distance current;
             distance' \<leftarrow> lset distance next_index (here + 1);
             Some (distance', queue @ [next_index])
           }
         }
       }
     })"

text \<open>The \<open>while queue\<close> loop.\<close>

partial_function (option) action_loop ::
    "bool grid \<Rightarrow> int \<Rightarrow> int \<Rightarrow> int \<Rightarrow> int list \<Rightarrow> int list \<Rightarrow> int option" where
  "action_loop blocked cols rows goal_index distance queue =
     (case queue of [] \<Rightarrow> Some (- 1)
      | current # queue' \<Rightarrow>
          if current = goal_index then lget distance current
          else do {
            (distance', queue'') \<leftarrow>
              for_each ACTION_DIRECTIONS (action_visit blocked cols rows current) (distance, queue');
            action_loop blocked cols rows goal_index distance' queue''
          })"

declare action_loop.simps [code]

definition shortest_action_steps ::
    "bool grid \<Rightarrow> int \<Rightarrow> int \<Rightarrow> int \<Rightarrow> int \<Rightarrow> int \<Rightarrow> int \<Rightarrow> int option" where
  "shortest_action_steps blocked cols rows start_gx start_gy goal_gx goal_gy = do {
     s \<leftarrow> walkable blocked cols rows start_gx start_gy;
     g \<leftarrow> (if \<not> s then Some False else walkable blocked cols rows goal_gx goal_gy);
     if \<not> s \<or> \<not> g then Some (- 1)
     else do {
       let start_index = start_gy * cols + start_gx;
       let goal_index = goal_gy * cols + goal_gx;
       distance \<leftarrow> lset (replicate (nat (cols * rows)) (- 1)) start_index 0;
       action_loop blocked cols rows goal_index distance [start_index]
     }
   }"

section \<open>The moves\<close>

text \<open>A cell of the grid that is not blocked.\<close>

definition free_cell :: "bool grid \<Rightarrow> int \<Rightarrow> int \<Rightarrow> cell \<Rightarrow> bool" where
  "free_cell blocked cols rows c \<longleftrightarrow>
     in_grid cols rows (fst c) (snd c) \<and> \<not> cell_at blocked (fst c) (snd c)"

definition legal_move :: "(cell \<Rightarrow> bool) \<Rightarrow> cell \<Rightarrow> int \<times> int \<Rightarrow> bool" where
  "legal_move free c d \<longleftrightarrow>
     free (fst c + fst d, snd c + snd d) \<and>
     (fst d \<noteq> 0 \<and> snd d \<noteq> 0 \<longrightarrow> free (fst c + fst d, snd c) \<and> free (fst c, snd c + snd d))"

definition action_moves :: "(cell \<Rightarrow> bool) \<Rightarrow> cell \<Rightarrow> cell list" where
  "action_moves free c =
     map (\<lambda>d. (fst c + fst d, snd c + snd d)) (filter (legal_move free c) ACTION_DIRECTIONS)"

lemma walkable_eq [simp]:
  assumes "wf_grid cols rows blocked"
  shows "walkable blocked cols rows x y = Some (free_cell blocked cols rows (x, y))"
proof (cases "in_grid cols rows x y")
  case True
  with gget_in [OF assms True] show ?thesis by (simp add: walkable_def free_cell_def in_grid_def)
next
  case False
  then show ?thesis by (auto simp: walkable_def free_cell_def in_grid_def)
qed

lemma action_moves_free: "c' \<in> set (action_moves free c) \<Longrightarrow> free c'"
  by (auto simp: action_moves_def legal_move_def)

section \<open>Flat indices\<close>

definition cell_index :: "int \<Rightarrow> cell \<Rightarrow> int" where
  "cell_index cols c = snd c * cols + fst c"

lemma cell_index_range:
  assumes "in_grid cols rows x y"
  shows "0 \<le> cell_index cols (x, y)" "cell_index cols (x, y) < cols * rows"
proof -
  have "0 \<le> y * cols" using assms by (simp add: in_grid_def)
  then show "0 \<le> cell_index cols (x, y)" using assms by (simp add: cell_index_def in_grid_def)
  have "(y + 1) * cols \<le> rows * cols" using assms by (intro mult_right_mono) (auto simp: in_grid_def)
  then show "cell_index cols (x, y) < cols * rows"
    using assms by (simp add: cell_index_def in_grid_def algebra_simps)
qed

lemma cell_index_decode:
  assumes "in_grid cols rows x y"
  shows "cell_index cols (x, y) mod cols = x" "cell_index cols (x, y) div cols = y"
  using assms by (simp_all add: cell_index_def in_grid_def)

lemma cell_index_inj:
  assumes "in_grid cols rows x y" and "in_grid cols rows x' y'"
  shows "cell_index cols (x, y) = cell_index cols (x', y') \<longleftrightarrow> x = x' \<and> y = y'"
  using cell_index_decode [OF assms(1)] cell_index_decode [OF assms(2)] by metis

section \<open>Refinement\<close>

definition cells :: "int \<Rightarrow> int \<Rightarrow> cell set" where
  "cells cols rows = {(x, y). in_grid cols rows x y}"

lemma finite_cells [simp]: "finite (cells cols rows)"
proof -
  have "cells cols rows = {0..<cols} \<times> {0..<rows}"
    by (auto simp: cells_def in_grid_def)
  then show ?thesis by simp
qed

interpretation action_space: search_space "cells cols rows"
  "action_moves (free_cell blocked cols rows)" for blocked cols rows
  by unfold_locales (simp, auto simp: cells_def free_cell_def dest!: action_moves_free)

text \<open>A distance table and an index queue stand for a distance map and a queue of cells.\<close>

definition dist_rel :: "int \<Rightarrow> int \<Rightarrow> int list \<Rightarrow> (cell \<rightharpoonup> nat) \<Rightarrow> bool" where
  "dist_rel cols rows distance d \<longleftrightarrow>
     length distance = nat (cols * rows) \<and> dom d \<subseteq> cells cols rows \<and>
     (\<forall>x y. in_grid cols rows x y \<longrightarrow>
        distance ! nat (cell_index cols (x, y)) = (case d (x, y) of None \<Rightarrow> - 1 | Some k \<Rightarrow> int k))"

lemma dist_rel_get:
  assumes "dist_rel cols rows distance d" and "in_grid cols rows x y"
  shows "lget distance (cell_index cols (x, y)) = Some (case d (x, y) of None \<Rightarrow> - 1 | Some k \<Rightarrow> int k)"
  using assms cell_index_range [OF assms(2)] by (simp add: dist_rel_def)

lemma dist_rel_set:
  assumes "dist_rel cols rows distance d" and "in_grid cols rows x y"
  obtains distance' where "lset distance (cell_index cols (x, y)) (int k) = Some distance'"
    "dist_rel cols rows distance' (d((x, y) \<mapsto> k))"
proof -
  let ?i = "cell_index cols (x, y)"
  note range = cell_index_range [OF assms(2)]
  have len: "length distance = nat (cols * rows)" using assms(1) by (simp add: dist_rel_def)
  have "distance[nat ?i := int k] ! nat (cell_index cols (x', y')) =
      (case (d((x, y) \<mapsto> k)) (x', y') of None \<Rightarrow> - 1 | Some k \<Rightarrow> int k)"
    if g: "in_grid cols rows x' y'" for x' y'
  proof (cases "x' = x \<and> y' = y")
    case True
    with range len show ?thesis by (simp add: nat_less_eq_zless)
  next
    case False
    then have "nat ?i \<noteq> nat (cell_index cols (x', y'))"
      using cell_index_inj [OF assms(2) g] range(1) cell_index_range(1) [OF g] by (auto simp: nat_eq_iff)
    with False g assms(1) show ?thesis by (auto simp: dist_rel_def)
  qed
  then have "dist_rel cols rows (distance[nat ?i := int k]) (d((x, y) \<mapsto> k))"
    using assms len by (auto simp: dist_rel_def cells_def)
  moreover have "lset distance ?i (int k) = Some (distance[nat ?i := int k])"
    using range len by simp
  ultimately show ?thesis using that by blast
qed

text \<open>One visit, its guards collected into \<open>legal_move\<close>.\<close>

lemma action_visit_eq:
  assumes "wf_grid cols rows blocked" and "in_grid cols rows x y"
  shows "action_visit blocked cols rows (cell_index cols (x, y)) (dx, dy) (distance, queue) =
    (if legal_move (free_cell blocked cols rows) (x, y) (dx, dy)
     then do {
       seen \<leftarrow> lget distance (cell_index cols (x + dx, y + dy));
       if seen \<ge> 0 then Some (distance, queue)
       else do {
         here \<leftarrow> lget distance (cell_index cols (x, y));
         distance' \<leftarrow> lset distance (cell_index cols (x + dx, y + dy)) (here + 1);
         Some (distance', queue @ [cell_index cols (x + dx, y + dy)])
       }
     }
     else Some (distance, queue))"
proof -
  have next_index: "(y + dy) * cols + (x + dx) = cell_index cols (x + dx, y + dy)"
    by (simp add: cell_index_def)
  show ?thesis
    unfolding action_visit_def prod.case cell_index_decode [OF assms(2)] Let_def next_index
      walkable_eq [OF assms(1)] legal_move_def
    by simp
qed

lemma action_visit_refines:
  assumes wf: "wf_grid cols rows blocked" and rel: "dist_rel cols rows distance d"
    and u: "in_grid cols rows x y" "d (x, y) = Some k"
  obtains distance' where
    "action_visit blocked cols rows (cell_index cols (x, y)) dir (distance, map (cell_index cols) q) =
       Some (distance', map (cell_index cols) (snd (if legal_move (free_cell blocked cols rows) (x, y) dir
          then bfs_visit (x, y) (x + fst dir, y + snd dir) (d, q) else (d, q))))"
    "dist_rel cols rows distance' (fst (if legal_move (free_cell blocked cols rows) (x, y) dir
          then bfs_visit (x, y) (x + fst dir, y + snd dir) (d, q) else (d, q)))"
proof -
  obtain dx dy where dir: "dir = (dx, dy)" by (cases dir)
  note eq = action_visit_eq [OF wf u(1), of dx dy distance "map (cell_index cols) q"]
  let ?c = "(x + dx, y + dy)"
  show ?thesis
  proof (cases "legal_move (free_cell blocked cols rows) (x, y) (dx, dy)")
    case False
    with eq rel that dir show ?thesis by simp
  next
    case True
    then have g: "in_grid cols rows (x + dx) (y + dy)"
      by (simp add: legal_move_def free_cell_def)
    show ?thesis
    proof (cases "d ?c")
      case (Some l)
      with eq dist_rel_get [OF rel g] True rel that dir show ?thesis
        by (simp add: bfs_visit_def)
    next
      case None
      obtain distance' where "lset distance (cell_index cols ?c) (int (Suc k)) = Some distance'"
        "dist_rel cols rows distance' (d(?c \<mapsto> Suc k))"
        using dist_rel_set [OF rel g] .
      with None eq dist_rel_get [OF rel g] dist_rel_get [OF rel u(1)] u(2) True that dir show ?thesis
        by (simp add: bfs_visit_def add.commute)
    qed
  qed
qed

lemma action_round_refines:
  assumes wf: "wf_grid cols rows blocked" and rel: "dist_rel cols rows distance d"
    and u: "in_grid cols rows x y" "d (x, y) = Some k"
  shows "\<exists>distance'. for_each dirs (action_visit blocked cols rows (cell_index cols (x, y)))
        (distance, map (cell_index cols) q) =
      Some (distance', map (cell_index cols) (snd (fold (bfs_visit (x, y))
        (map (\<lambda>e. (x + fst e, y + snd e)) (filter (legal_move (free_cell blocked cols rows) (x, y)) dirs)) (d, q)))) \<and>
    dist_rel cols rows distance' (fst (fold (bfs_visit (x, y))
        (map (\<lambda>e. (x + fst e, y + snd e)) (filter (legal_move (free_cell blocked cols rows) (x, y)) dirs)) (d, q)))"
  using rel u(2)
proof (induction dirs arbitrary: distance d q)
  case Nil
  then show ?case by simp
next
  case (Cons dir dirs)
  let ?next = "if legal_move (free_cell blocked cols rows) (x, y) dir
      then bfs_visit (x, y) (x + fst dir, y + snd dir) (d, q) else (d, q)"
  obtain distance1 where 1: "action_visit blocked cols rows (cell_index cols (x, y)) dir (distance, map (cell_index cols) q)
      = Some (distance1, map (cell_index cols) (snd ?next))" "dist_rel cols rows distance1 (fst ?next)"
    using action_visit_refines [OF wf Cons.prems(1) u(1) Cons.prems(2)] .
  have "fst ?next (x, y) = Some k"
    using Cons.prems(2) by (auto simp: bfs_visit_def)
  from Cons.IH [OF 1(2) this, of "snd ?next"] 1(1) show ?case by auto
qed

lemma action_loop_refines:
  assumes run: "bfs_loop (action_moves (free_cell blocked cols rows)) goal d q = Some r"
    and wf: "wf_grid cols rows blocked" and goal: "goal \<in> cells cols rows"
    and "dist_rel cols rows distance d" and "set q \<subseteq> dom d"
  shows "action_loop blocked cols rows (cell_index cols goal) distance (map (cell_index cols) q) =
    Some (case r of None \<Rightarrow> - 1 | Some k \<Rightarrow> int k)"
  using run assms(4,5)
proof (induction arbitrary: distance rule: bfs_loop_induct)
  case (empty d)
  then show ?case by (simp add: action_loop.simps)
next
  case (found d q)
  obtain x y where g: "goal = (x, y)" "in_grid cols rows x y" using goal by (auto simp: cells_def)
  from found dist_rel_get [OF found(1) g(2)] g(1) show ?case by (auto simp: action_loop.simps)
next
  case (step d u q d' q' r)
  obtain x y k where u: "u = (x, y)" "in_grid cols rows x y" "d (x, y) = Some k"
  proof -
    have "u \<in> dom d" "dom d \<subseteq> cells cols rows" using step.prems by (auto simp: dist_rel_def)
    then show ?thesis using that by (cases u) (auto simp: cells_def)
  qed
  obtain gx gy where g: "goal = (gx, gy)" "in_grid cols rows gx gy" using goal by (auto simp: cells_def)
  have ne: "cell_index cols u \<noteq> cell_index cols goal"
    using step.hyps(1) cell_index_inj [OF u(2) g(2)] u(1) g(1) by auto
  obtain distance' where d': "for_each ACTION_DIRECTIONS (action_visit blocked cols rows (cell_index cols u))
      (distance, map (cell_index cols) q) = Some (distance', map (cell_index cols) q')"
    "dist_rel cols rows distance' d'"
    using action_round_refines [OF wf step.prems(1) u(2,3), of ACTION_DIRECTIONS q] step.hyps(2) u(1)
    by (auto simp: action_moves_def)
  have "set q' \<subseteq> dom d'"
    using fold_bfs_visit_dom [OF step.hyps(2)] step.prems(2) by auto
  from step.IH [OF d'(2) this] ne d'(1) show ?case
    by (subst action_loop.simps) simp
qed

lemma shortest_action_steps_total:
  assumes wf: "wf_grid cols rows blocked"
  defines "free \<equiv> free_cell blocked cols rows"
  obtains k where "shortest_action_steps blocked cols rows sx sy gx gy = Some k" "- 1 \<le> k"
    "0 \<le> k \<Longrightarrow> free (sx, sy) \<and> free (gx, gy) \<and> shortest (action_moves free) (sx, sy) (gx, gy) (nat k)"
    "k = - 1 \<Longrightarrow> \<not> free (sx, sy) \<or> \<not> free (gx, gy) \<or> ((sx, sy), (gx, gy)) \<notin> (step_rel (action_moves free))\<^sup>*"
proof (cases "free (sx, sy) \<and> free (gx, gy)")
  case False
  then have "shortest_action_steps blocked cols rows sx sy gx gy = Some (- 1)"
    using wf by (auto simp: shortest_action_steps_def free_def)
  with False that show ?thesis by auto
next
  case True
  then have s: "in_grid cols rows sx sy" and g: "(gx, gy) \<in> cells cols rows"
    by (simp_all add: free_def free_cell_def cells_def)
  have start: "(sx, sy) \<in> cells cols rows" using s by (simp add: cells_def)
  obtain r where r: "bfs_loop (action_moves free) (gx, gy) [(sx, sy) \<mapsto> 0] [(sx, sy)] = Some r"
    "r = None \<Longrightarrow> ((sx, sy), (gx, gy)) \<notin> (step_rel (action_moves free))\<^sup>*"
    "\<And>k. r = Some k \<Longrightarrow> shortest (action_moves free) (sx, sy) (gx, gy) k"
    unfolding free_def using action_space.bfs_correct [OF start] by blast
  have "nat (cell_index cols (x, y)) < nat (cols * rows)" if "in_grid cols rows x y" for x y
    using cell_index_range [OF that] by simp
  then have "dist_rel cols rows (replicate (nat (cols * rows)) (- 1)) Map.empty"
    by (simp add: dist_rel_def)
  then obtain distance where d: "lset (replicate (nat (cols * rows)) (- 1)) (cell_index cols (sx, sy)) (int 0) = Some distance"
    "dist_rel cols rows distance [(sx, sy) \<mapsto> 0]"
    using dist_rel_set [OF _ s] by blast
  have "action_loop blocked cols rows (cell_index cols (gx, gy)) distance (map (cell_index cols) [(sx, sy)])
      = Some (case r of None \<Rightarrow> - 1 | Some k \<Rightarrow> int k)"
    by (rule action_loop_refines [OF r(1) [unfolded free_def] wf g d(2)]) simp
  then have "shortest_action_steps blocked cols rows sx sy gx gy = Some (case r of None \<Rightarrow> - 1 | Some k \<Rightarrow> int k)"
    using True wf d(1) by (simp add: shortest_action_steps_def free_def cell_index_def)
  with r(2,3) True that show ?thesis by (cases r) auto
qed

section \<open>Property\<close>

text \<open>C11: The nine-action search ends on every grid; a result of at least 0 is the least number of moves between two
  free cells under the diagonal rule, and -1 means that an end point is blocked or no path exists.\<close>

theorem shortest_action_steps_correct:
  assumes "wf_grid cols rows blocked"
  shows "\<exists>k. shortest_action_steps blocked cols rows sx sy gx gy = Some k \<and>
    (let free = free_cell blocked cols rows in
     if 0 \<le> k then free (sx, sy) \<and> free (gx, gy) \<and> shortest (action_moves free) (sx, sy) (gx, gy) (nat k)
     else k = - 1 \<and> (\<not> free (sx, sy) \<or> \<not> free (gx, gy) \<or>
       ((sx, sy), (gx, gy)) \<notin> (step_rel (action_moves free))\<^sup>*))"
proof -
  let ?free = "free_cell blocked cols rows"
  show ?thesis
  proof (rule shortest_action_steps_total [OF assms, of sx sy gx gy])
    fix k
    assume k: "shortest_action_steps blocked cols rows sx sy gx gy = Some k" "- 1 \<le> k"
      "0 \<le> k \<Longrightarrow> ?free (sx, sy) \<and> ?free (gx, gy) \<and> shortest (action_moves ?free) (sx, sy) (gx, gy) (nat k)"
      "k = - 1 \<Longrightarrow> \<not> ?free (sx, sy) \<or> \<not> ?free (gx, gy) \<or> ((sx, sy), (gx, gy)) \<notin> (step_rel (action_moves ?free))\<^sup>*"
    from k(2) have "0 \<le> k \<or> k = - 1" by arith
    with k show ?thesis unfolding Let_def by (intro exI [of _ k]) auto
  qed
qed

text \<open>A corner that may not be cut: four moves, not two.\<close>

theorem shortest_action_steps_correct_witness:
  "(let blocked = [[False, False, False], [False, True, False], [False, False, False]] in
    shortest_action_steps blocked 3 3 0 0 2 2 = Some 4 \<and>
    shortest (action_moves (free_cell blocked 3 3)) (0, 0) (2, 2) 4)"
proof -
  let ?b = "[[False, False, False], [False, True, False], [False, False, False]]"
  have run: "shortest_action_steps ?b 3 3 0 0 2 2 = Some 4" by code_simp
  have "wf_grid 3 3 ?b" by code_simp
  from shortest_action_steps_correct [OF this, of 0 0 2 2] run show ?thesis by (auto simp: Let_def)
qed

end
