(* ===== verification/BlockedGrid.thy ===== *)
theory BlockedGrid
  imports WallEdges Rng "HOL-Library.Word"
begin

text \<open>
  From walls to the blocked grid: \<open>edges_to_blocked_grid\<close> expands every room to a square of
  free cells and every opened wall to a corridor, \<open>clear_blocked_safe_zone\<close> frees the
  surroundings of the end points, \<open>add_room_obstacles\<close> blocks random cells inside rooms, and
  \<open>blocked_bitmap_bytes\<close> lists the grid row by row.
\<close>

section \<open>Expanding rooms and corridors\<close>

definition edges_to_blocked_grid :: "wall_edge_set \<Rightarrow> int \<Rightarrow> int \<Rightarrow> (bool grid \<times> int) option" where
  "edges_to_blocked_grid edge_set n room_size = do {
     let stride = room_size + 1;
     let out_dim = n * stride + 1;
     let blocked = new_grid out_dim out_dim False;
     blocked \<leftarrow> for_each (py_range 0 out_dim) (\<lambda>gy. for_each (py_range 0 out_dim) (\<lambda>gx b.
       gset b gy gx True)) blocked;
     blocked \<leftarrow> for_each (py_range 0 n) (\<lambda>ry. for_each (py_range 0 n) (\<lambda>rx.
       let base_x = rx * stride + 1; base_y = ry * stride + 1 in
       for_each (py_range 0 room_size) (\<lambda>dy. for_each (py_range 0 room_size) (\<lambda>dx b.
         gset b (base_y + dy) (base_x + dx) False)))) blocked;
     blocked \<leftarrow> for_each (py_range 0 n) (\<lambda>ry. for_each (py_range 0 n) (\<lambda>rx b. do {
       b' \<leftarrow> (if rx + 1 < n \<and> \<not> has_wall edge_set rx ry (rx + 1) ry
             then let wall_col = (rx + 1) * stride; base_y = ry * stride + 1 in
                  for_each (py_range 0 room_size) (\<lambda>dy b. gset b (base_y + dy) wall_col False) b
             else Some b);
       if ry + 1 < n \<and> \<not> has_wall edge_set rx ry rx (ry + 1)
       then let wall_row = (ry + 1) * stride; base_x = rx * stride + 1 in
            for_each (py_range 0 room_size) (\<lambda>dx b. gset b wall_row (base_x + dx) False) b'
       else Some b' })) blocked;
     Some (blocked, out_dim)
   }"

text \<open>The cells of room \<open>(rx, ry)\<close>, and of the corridors through opened walls.\<close>

definition room_cells :: "int \<Rightarrow> int \<Rightarrow> int \<Rightarrow> cell set" where
  "room_cells k rx ry = {(rx * (k + 1) + 1 + dx, ry * (k + 1) + 1 + dy) | dx dy. dx \<in> {0..<k} \<and> dy \<in> {0..<k}}"

definition right_corridor :: "int \<Rightarrow> int \<Rightarrow> int \<Rightarrow> cell set" where
  "right_corridor k rx ry = {((rx + 1) * (k + 1), ry * (k + 1) + 1 + dy) | dy. dy \<in> {0..<k}}"

definition up_corridor :: "int \<Rightarrow> int \<Rightarrow> int \<Rightarrow> cell set" where
  "up_corridor k rx ry = {(rx * (k + 1) + 1 + dx, (ry + 1) * (k + 1)) | dx. dx \<in> {0..<k}}"

definition open_cells :: "wall_edge_set \<Rightarrow> int \<Rightarrow> int \<Rightarrow> cell set" where
  "open_cells es n k =
     (\<Union>ry \<in> {0..<n}. \<Union>rx \<in> {0..<n}. room_cells k rx ry) \<union>
     (\<Union>ry \<in> {0..<n}. \<Union>rx \<in> {0..<n}.
        {p \<in> right_corridor k rx ry. rx + 1 < n \<and> \<not> has_wall es rx ry (rx + 1) ry} \<union>
        {p \<in> up_corridor k rx ry. ry + 1 < n \<and> \<not> has_wall es rx ry rx (ry + 1)})"

lemma stride_range:
  fixes r n d k :: int
  assumes "0 \<le> r" and "r < n" and "0 \<le> d" and "d \<le> k"
  shows "0 \<le> r * (k + 1) + d" and "r * (k + 1) + d < n * (k + 1)"
proof -
  have "0 \<le> r * (k + 1)" using assms by (intro mult_nonneg_nonneg) auto
  then show "0 \<le> r * (k + 1) + d" using assms by simp
  have "(r + 1) * (k + 1) \<le> n * (k + 1)" using assms by (intro mult_right_mono) auto
  then show "r * (k + 1) + d < n * (k + 1)" using assms by (simp add: algebra_simps)
qed

lemma paints_all:
  "paints w h (for_each (py_range 0 h) (\<lambda>gy. for_each (py_range 0 w) (\<lambda>gx b. gset b gy gx v))) {(x, y). in_grid w h x y} v"
proof -
  have "paints w h (for_each (py_range 0 h) (\<lambda>gy. for_each (py_range 0 w) (\<lambda>gx b. gset b gy gx v)))
      (\<Union>gy \<in> set (py_range 0 h). \<Union>gx \<in> set (py_range 0 w). {(gx, gy)}) v"
    by (intro paints_for_each paints_gset) auto
  then show ?thesis by (rule paints_cong) (auto simp: in_grid_def)
qed

lemma paints_room:
  assumes "0 \<le> rx" "rx < n" "0 \<le> ry" "ry < n"
  shows "paints (n * (k + 1) + 1) (n * (k + 1) + 1)
    (for_each (py_range 0 k) (\<lambda>dy. for_each (py_range 0 k) (\<lambda>dx b.
       gset b (ry * (k + 1) + 1 + dy) (rx * (k + 1) + 1 + dx) v)))
    (room_cells k rx ry) v"
proof -
  have "paints (n * (k + 1) + 1) (n * (k + 1) + 1)
    (for_each (py_range 0 k) (\<lambda>dy. for_each (py_range 0 k) (\<lambda>dx b.
       gset b (ry * (k + 1) + 1 + dy) (rx * (k + 1) + 1 + dx) v)))
    (\<Union>dy \<in> set (py_range 0 k). \<Union>dx \<in> set (py_range 0 k). {(rx * (k + 1) + 1 + dx, ry * (k + 1) + 1 + dy)}) v"
  proof (intro paints_for_each paints_gset in_gridI)
    fix dx dy
    assume "dy \<in> set (py_range 0 k)" "dx \<in> set (py_range 0 k)"
    then show "0 \<le> rx * (k + 1) + 1 + dx" "rx * (k + 1) + 1 + dx < n * (k + 1) + 1"
      "0 \<le> ry * (k + 1) + 1 + dy" "ry * (k + 1) + 1 + dy < n * (k + 1) + 1"
      using stride_range [of rx n dx k] stride_range [of ry n dy k] assms by auto
  qed
  then show ?thesis by (rule paints_cong) (auto simp: room_cells_def)
qed

lemma paints_right_corridor:
  assumes "0 \<le> rx" "rx + 1 < n" "0 \<le> ry" "ry < n"
  shows "paints (n * (k + 1) + 1) (n * (k + 1) + 1)
    (for_each (py_range 0 k) (\<lambda>dy b. gset b (ry * (k + 1) + 1 + dy) ((rx + 1) * (k + 1)) v))
    (right_corridor k rx ry) v"
proof -
  have "paints (n * (k + 1) + 1) (n * (k + 1) + 1)
    (for_each (py_range 0 k) (\<lambda>dy b. gset b (ry * (k + 1) + 1 + dy) ((rx + 1) * (k + 1)) v))
    (\<Union>dy \<in> set (py_range 0 k). {((rx + 1) * (k + 1), ry * (k + 1) + 1 + dy)}) v"
  proof (intro paints_for_each paints_gset in_gridI)
    fix dy
    assume "dy \<in> set (py_range 0 k)"
    then show "0 \<le> (rx + 1) * (k + 1)" "(rx + 1) * (k + 1) < n * (k + 1) + 1"
      "0 \<le> ry * (k + 1) + 1 + dy" "ry * (k + 1) + 1 + dy < n * (k + 1) + 1"
      using stride_range [of "rx + 1" n 0 k] stride_range [of ry n dy k] assms by auto
  qed
  then show ?thesis by (rule paints_cong) (auto simp: right_corridor_def)
qed

lemma paints_up_corridor:
  assumes "0 \<le> rx" "rx < n" "0 \<le> ry" "ry + 1 < n"
  shows "paints (n * (k + 1) + 1) (n * (k + 1) + 1)
    (for_each (py_range 0 k) (\<lambda>dx b. gset b ((ry + 1) * (k + 1)) (rx * (k + 1) + 1 + dx) v))
    (up_corridor k rx ry) v"
proof -
  have "paints (n * (k + 1) + 1) (n * (k + 1) + 1)
    (for_each (py_range 0 k) (\<lambda>dx b. gset b ((ry + 1) * (k + 1)) (rx * (k + 1) + 1 + dx) v))
    (\<Union>dx \<in> set (py_range 0 k). {(rx * (k + 1) + 1 + dx, (ry + 1) * (k + 1))}) v"
  proof (intro paints_for_each paints_gset in_gridI)
    fix dx
    assume "dx \<in> set (py_range 0 k)"
    then show "0 \<le> rx * (k + 1) + 1 + dx" "rx * (k + 1) + 1 + dx < n * (k + 1) + 1"
      "0 \<le> (ry + 1) * (k + 1)" "(ry + 1) * (k + 1) < n * (k + 1) + 1"
      using stride_range [of "ry + 1" n 0 k] stride_range [of rx n dx k] assms by auto
  qed
  then show ?thesis by (rule paints_cong) (auto simp: up_corridor_def)
qed

text \<open>The whole routine: every access is in range, and exactly the open cells are free.\<close>

lemma edges_to_blocked_grid_exact:
  obtains blocked where "edges_to_blocked_grid es n k = Some (blocked, n * (k + 1) + 1)"
    "wf_grid (n * (k + 1) + 1) (n * (k + 1) + 1) blocked"
    "\<And>x y. in_grid (n * (k + 1) + 1) (n * (k + 1) + 1) x y \<Longrightarrow> cell_at blocked x y \<longleftrightarrow> (x, y) \<notin> open_cells es n k"
proof -
  let ?N = "n * (k + 1) + 1"
  let ?all = "for_each (py_range 0 ?N) (\<lambda>gy. for_each (py_range 0 ?N) (\<lambda>gx b. gset b gy gx True))"
  let ?rooms = "for_each (py_range 0 n) (\<lambda>ry. for_each (py_range 0 n) (\<lambda>rx.
       for_each (py_range 0 k) (\<lambda>dy. for_each (py_range 0 k) (\<lambda>dx b.
         gset b (ry * (k + 1) + 1 + dy) (rx * (k + 1) + 1 + dx) False))))"
  let ?pass = "for_each (py_range 0 n) (\<lambda>ry. for_each (py_range 0 n) (\<lambda>rx b. do {
       b' \<leftarrow> (if rx + 1 < n \<and> \<not> has_wall es rx ry (rx + 1) ry
             then for_each (py_range 0 k) (\<lambda>dy b. gset b (ry * (k + 1) + 1 + dy) ((rx + 1) * (k + 1)) False) b
             else Some b);
       if ry + 1 < n \<and> \<not> has_wall es rx ry rx (ry + 1)
       then for_each (py_range 0 k) (\<lambda>dx b. gset b ((ry + 1) * (k + 1)) (rx * (k + 1) + 1 + dx) False) b'
       else Some b' }))"
  have rooms: "paints ?N ?N ?rooms (\<Union>ry \<in> set (py_range 0 n). \<Union>rx \<in> set (py_range 0 n). room_cells k rx ry) False"
    by (intro paints_for_each paints_room) auto
  have pass: "paints ?N ?N ?pass (\<Union>ry \<in> set (py_range 0 n). \<Union>rx \<in> set (py_range 0 n).
      {p \<in> right_corridor k rx ry. rx + 1 < n \<and> \<not> has_wall es rx ry (rx + 1) ry} \<union>
      {p \<in> up_corridor k rx ry. ry + 1 < n \<and> \<not> has_wall es rx ry rx (ry + 1)}) False"
    by (intro paints_for_each paints_seq paints_if paints_right_corridor paints_up_corridor) auto
  have open_painted: "paints ?N ?N (\<lambda>b. do { b' \<leftarrow> ?rooms b; ?pass b' }) (open_cells es n k) False"
    using paints_seq [OF rooms pass] by (simp add: open_cells_def)
  obtain b1 where b1: "?all (new_grid ?N ?N False) = Some b1" "wf_grid ?N ?N b1"
    "\<And>x y. in_grid ?N ?N x y \<Longrightarrow> cell_at b1 x y"
    using paintsD [OF paints_all, of ?N ?N "new_grid ?N ?N False" True] by auto
  obtain b2 where b2: "do { b' \<leftarrow> ?rooms b1; ?pass b' } = Some b2" "wf_grid ?N ?N b2"
    "\<And>x y. in_grid ?N ?N x y \<Longrightarrow> cell_at b2 x y = (if (x, y) \<in> open_cells es n k then False else cell_at b1 x y)"
    using paintsD [OF open_painted b1(2)] by blast
  have "edges_to_blocked_grid es n k = Some (b2, ?N)"
    unfolding edges_to_blocked_grid_def Let_def b1(1) bind.simps bind_assoc [symmetric] b2(1) ..
  with b1(3) b2(2,3) that show ?thesis by auto
qed

section \<open>The safe zone and the obstacles\<close>

definition clear_blocked_safe_zone :: "bool grid \<Rightarrow> int \<Rightarrow> int \<Rightarrow> int \<Rightarrow> int \<Rightarrow> bool grid option" where
  "clear_blocked_safe_zone blocked out_dim gx gy radius =
     for_each (py_range (- radius) (radius + 1)) (\<lambda>dy. for_each (py_range (- radius) (radius + 1)) (\<lambda>dx b.
       let nx = gx + dx; ny = gy + dy in
       if 0 \<le> nx \<and> nx < out_dim \<and> 0 \<le> ny \<and> ny < out_dim then gset b ny nx False else Some b)) blocked"

text \<open>The innermost statement: one draw per inner cell.\<close>

definition place_obstacle :: "rat \<Rightarrow> int \<Rightarrow> int \<Rightarrow> bool grid \<times> rng \<Rightarrow> (bool grid \<times> rng) option" where
  "place_obstacle density x y = (\<lambda>(b, r).
     let (p, r') = random r in
     if p < density then do { b' \<leftarrow> gset b y x True; Some (b', r') } else Some (b, r'))"

definition add_room_obstacles ::
    "bool grid \<Rightarrow> int \<Rightarrow> int \<Rightarrow> rat \<Rightarrow> rng \<Rightarrow> int \<Rightarrow> int \<Rightarrow> int \<Rightarrow> int \<Rightarrow> int \<Rightarrow> (bool grid \<times> rng) option" where
  "add_room_obstacles blocked n room_size density r start_rx start_ry end_rx end_ry safe_radius =
     (if density \<le> 0 then Some (blocked, r)
      else let stride = room_size + 1 in
        for_each (py_range 0 n) (\<lambda>ry. for_each (py_range 0 n) (\<lambda>rx state.
          if \<bar>rx - start_rx\<bar> \<le> safe_radius \<and> \<bar>ry - start_ry\<bar> \<le> safe_radius then Some state
          else if \<bar>rx - end_rx\<bar> \<le> safe_radius \<and> \<bar>ry - end_ry\<bar> \<le> safe_radius then Some state
          else
            let base_x = rx * stride + 1; base_y = ry * stride + 1;
                inner = (if room_size \<ge> 3 then py_range 1 (room_size - 1) else py_range 0 room_size) in
            for_each inner (\<lambda>dy. for_each inner (\<lambda>dx.
              place_obstacle density (base_x + dx) (base_y + dy))) state)) (blocked, r))"

lemma clear_blocked_safe_zone_exact:
  assumes "wf_grid d d blocked"
  obtains b where "clear_blocked_safe_zone blocked d gx gy radius = Some b" "wf_grid d d b"
    "\<And>x y. in_grid d d x y \<Longrightarrow>
       cell_at b x y \<longleftrightarrow> cell_at blocked x y \<and> \<not> (\<bar>x - gx\<bar> \<le> radius \<and> \<bar>y - gy\<bar> \<le> radius)"
proof -
  let ?f = "for_each (py_range (- radius) (radius + 1)) (\<lambda>dy. for_each (py_range (- radius) (radius + 1)) (\<lambda>dx b.
       if 0 \<le> gx + dx \<and> gx + dx < d \<and> 0 \<le> gy + dy \<and> gy + dy < d then gset b (gy + dy) (gx + dx) False else Some b))"
  have "paints d d ?f (\<Union>dy \<in> set (py_range (- radius) (radius + 1)). \<Union>dx \<in> set (py_range (- radius) (radius + 1)).
      {p \<in> {(gx + dx, gy + dy)}. 0 \<le> gx + dx \<and> gx + dx < d \<and> 0 \<le> gy + dy \<and> gy + dy < d}) False"
    by (intro paints_for_each paints_if paints_gset) auto
  then have "paints d d ?f {(x, y). \<bar>x - gx\<bar> \<le> radius \<and> \<bar>y - gy\<bar> \<le> radius} False"
  proof (rule paints_cong)
    fix x y
    assume g: "in_grid d d x y"
    show "(x, y) \<in> (\<Union>dy \<in> set (py_range (- radius) (radius + 1)). \<Union>dx \<in> set (py_range (- radius) (radius + 1)).
        {p \<in> {(gx + dx, gy + dy)}. 0 \<le> gx + dx \<and> gx + dx < d \<and> 0 \<le> gy + dy \<and> gy + dy < d}) \<longleftrightarrow>
      (x, y) \<in> {(x, y). \<bar>x - gx\<bar> \<le> radius \<and> \<bar>y - gy\<bar> \<le> radius}" (is "?l \<longleftrightarrow> ?r")
    proof
      assume ?r
      with g show ?l
        by (intro UN_I [of "y - gy"] UN_I [of "x - gx"]) (auto simp: in_grid_def)
    qed auto
  qed
  from paintsD [OF this assms] obtain b where b: "?f blocked = Some b" "wf_grid d d b"
    "\<And>x y. in_grid d d x y \<Longrightarrow> cell_at b x y =
      (if (x, y) \<in> {(x, y). \<bar>x - gx\<bar> \<le> radius \<and> \<bar>y - gy\<bar> \<le> radius} then False else cell_at blocked x y)"
    by blast
  moreover have "clear_blocked_safe_zone blocked d gx gy radius = ?f blocked"
    unfolding clear_blocked_safe_zone_def Let_def ..
  ultimately show ?thesis using that by auto
qed

text \<open>
  Where an obstacle may stand: inside a room that is in neither safe zone and, in rooms of side
  three or more, off the room's border.
\<close>

definition inner_range :: "int \<Rightarrow> int set" where
  "inner_range k = (if k \<ge> 3 then {1..<k - 1} else {0..<k})"

definition near_room :: "int \<Rightarrow> int \<Rightarrow> int \<Rightarrow> int \<Rightarrow> int \<Rightarrow> bool" where
  "near_room radius rx ry sx sy \<longleftrightarrow> \<bar>rx - sx\<bar> \<le> radius \<and> \<bar>ry - sy\<bar> \<le> radius"

definition obstacle_zone :: "int \<Rightarrow> int \<Rightarrow> int \<Rightarrow> int \<Rightarrow> int \<Rightarrow> int \<Rightarrow> int \<Rightarrow> cell set" where
  "obstacle_zone n k srx sry erx ery radius =
     {(rx * (k + 1) + 1 + dx, ry * (k + 1) + 1 + dy) | rx ry dx dy.
        (rx, ry) \<in> rooms n \<and> \<not> near_room radius rx ry srx sry \<and> \<not> near_room radius rx ry erx ery \<and>
        dx \<in> inner_range k \<and> dy \<in> inner_range k}"

text \<open>\<open>b\<close> blocks what \<open>b0\<close> blocks, and otherwise only cells of \<open>Z\<close>.\<close>

definition adds_within :: "int \<Rightarrow> cell set \<Rightarrow> bool grid \<Rightarrow> bool grid \<Rightarrow> bool" where
  "adds_within d Z b0 b \<longleftrightarrow> wf_grid d d b \<and> (\<forall>x y. in_grid d d x y \<longrightarrow>
     (cell_at b0 x y \<longrightarrow> cell_at b x y) \<and> (cell_at b x y \<longrightarrow> cell_at b0 x y \<or> (x, y) \<in> Z))"

lemma adds_within_refl: "wf_grid d d b \<Longrightarrow> adds_within d Z b b"
  by (simp add: adds_within_def)

lemma adds_within_set:
  assumes "adds_within d Z b0 b" and "in_grid d d x y" and "(x, y) \<in> Z"
  shows "\<exists>b'. gset b y x True = Some b' \<and> adds_within d Z b0 b'"
proof -
  have "wf_grid d d b" using assms(1) by (simp add: adds_within_def)
  from gset_in [OF this assms(2), of True] obtain b' where
    "gset b y x True = Some b'" "wf_grid d d b'"
    "\<forall>x' y'. in_grid d d x' y' \<longrightarrow> cell_at b' x' y' = (if x' = x \<and> y' = y then True else cell_at b x' y')"
    by blast
  with assms(1,3) show ?thesis by (auto simp: adds_within_def)
qed

lemma obstacle_cell_in_grid:
  assumes "(rx, ry) \<in> rooms n" and "dx \<in> inner_range k" and "dy \<in> inner_range k"
  shows "in_grid (n * (k + 1) + 1) (n * (k + 1) + 1) (rx * (k + 1) + 1 + dx) (ry * (k + 1) + 1 + dy)"
  using stride_range [of rx n dx k] stride_range [of ry n dy k] assms
  by (auto simp: in_grid_def inner_range_def split: if_splits)

lemma add_room_obstacles_within:
  assumes wf: "wf_grid (n * (k + 1) + 1) (n * (k + 1) + 1) blocked"
  obtains b r' where "add_room_obstacles blocked n k density r srx sry erx ery radius = Some (b, r')"
    "adds_within (n * (k + 1) + 1) (obstacle_zone n k srx sry erx ery radius) blocked b"
proof (cases "density \<le> 0")
  case True
  with adds_within_refl [OF wf] that show ?thesis by (simp add: add_room_obstacles_def)
next
  case False
  let ?I = "\<lambda>state :: bool grid \<times> rng. adds_within (n * (k + 1) + 1) (obstacle_zone n k srx sry erx ery radius) blocked (fst state)"
  let ?inner = "if k \<ge> 3 then py_range 1 (k - 1) else py_range 0 k"
  have inner: "set ?inner = inner_range k" by (auto simp: inner_range_def)
  let ?place = "\<lambda>rx ry dx dy. place_obstacle density (rx * (k + 1) + 1 + dx) (ry * (k + 1) + 1 + dy)"
  have cell: "\<exists>s'. ?place rx ry dx dy s = Some s' \<and> ?I s'"
    if "?I s" "(rx, ry) \<in> rooms n" "\<not> near_room radius rx ry srx sry" "\<not> near_room radius rx ry erx ery"
      "dx \<in> set ?inner" "dy \<in> set ?inner" for rx ry dx dy s
  proof -
    have d: "dx \<in> inner_range k" "dy \<in> inner_range k" using that(5,6) inner by auto
    then have "(rx * (k + 1) + 1 + dx, ry * (k + 1) + 1 + dy) \<in> obstacle_zone n k srx sry erx ery radius"
      unfolding obstacle_zone_def using that(2-4) by blast
    from adds_within_set [OF that(1) obstacle_cell_in_grid [OF that(2) d] this]
    obtain b' where "gset (fst s) (ry * (k + 1) + 1 + dy) (rx * (k + 1) + 1 + dx) True = Some b'"
      "?I (b', snd s)" by auto
    with that(1) show ?thesis by (cases s) (auto simp: place_obstacle_def random_def draw_def)
  qed
  have "\<exists>s'. for_each (py_range 0 n) (\<lambda>ry. for_each (py_range 0 n) (\<lambda>rx state.
      if near_room radius rx ry srx sry then Some state
      else if near_room radius rx ry erx ery then Some state
      else for_each ?inner (\<lambda>dy. for_each ?inner (\<lambda>dx. ?place rx ry dx dy)) state)) (blocked, r) = Some s' \<and> ?I s'"
  proof (intro for_each_inv)
    show "?I (blocked, r)" using adds_within_refl [OF wf] by simp
    fix ry rx s
    assume ry: "ry \<in> set (py_range 0 n)" and rx: "rx \<in> set (py_range 0 n)" and s: "?I s"
    show "\<exists>s'. (if near_room radius rx ry srx sry then Some s
      else if near_room radius rx ry erx ery then Some s
      else for_each ?inner (\<lambda>dy. for_each ?inner (\<lambda>dx. ?place rx ry dx dy)) s) = Some s' \<and> ?I s'"
    proof (cases "near_room radius rx ry srx sry \<or> near_room radius rx ry erx ery")
      case True
      with s show ?thesis by (cases s) auto
    next
      case False
      have "\<exists>s'. for_each ?inner (\<lambda>dy. for_each ?inner (\<lambda>dx. ?place rx ry dx dy)) s = Some s' \<and> ?I s'"
        by (intro for_each_inv cell s) (use ry rx False in auto)
      with False show ?thesis by simp
    qed
  qed
  then obtain b r' where "add_room_obstacles blocked n k density r srx sry erx ery radius = Some (b, r')" "?I (b, r')"
    using False unfolding add_room_obstacles_def near_room_def Let_def by (simp only: if_False) (metis surj_pair)
  with that show ?thesis by simp
qed

section \<open>The bitmap\<close>

text \<open>One byte per cell, row by row; a grid whose shape does not fit raises \<open>ValueError\<close>.\<close>

definition blocked_bitmap_bytes :: "bool grid \<Rightarrow> int \<Rightarrow> int \<Rightarrow> 8 word list option" where
  "blocked_bitmap_bytes blocked cols rows =
     (if int (length blocked) \<noteq> rows \<or> (\<exists>row \<in> set blocked. int (length row) \<noteq> cols) then None
      else for_each (py_range 0 rows) (\<lambda>gy. for_each (py_range 0 cols) (\<lambda>gx out. do {
        b \<leftarrow> gget blocked gy gx; Some (out @ [if b then 1 else 0]) })) [])"

lemma blocked_bitmap_bytes_eq:
  assumes "wf_grid cols rows blocked" and "0 \<le> cols" and "0 \<le> rows"
  shows "blocked_bitmap_bytes blocked cols rows = Some (map (\<lambda>b. if b then 1 else 0) (concat blocked))"
proof -
  let ?f = "\<lambda>b :: bool. if b then 1 else (0 :: 8 word)"
  have row: "for_each (py_range 0 cols) (\<lambda>gx out. do {
      b \<leftarrow> gget blocked gy gx; Some (out @ [if b then 1 else 0]) }) out = Some (out @ map ?f (blocked ! nat gy))"
    if "gy \<in> set (py_range 0 rows)" for gy out
  proof -
    have y: "0 \<le> gy" "gy < rows" using that by auto
    have "for_each (py_range 0 cols) (\<lambda>gx out. do { b \<leftarrow> gget blocked gy gx; Some (out @ [if b then 1 else 0]) }) out
        = Some (out @ concat (map (\<lambda>gx. [?f (cell_at blocked gx gy)]) (py_range 0 cols)))"
      using y by (intro for_each_collect) (simp add: gget_in [OF assms(1)] in_grid_def)
    also have "concat (map (\<lambda>gx. [?f (cell_at blocked gx gy)]) (py_range 0 cols)) = map ?f (blocked ! nat gy)"
    proof -
      have "length (blocked ! nat gy) = nat cols" using wf_grid_row [OF assms(1) y] .
      then have "map (\<lambda>gx. ?f (cell_at blocked gx gy)) (py_range 0 cols) = map ?f (blocked ! nat gy)"
        by (intro nth_equalityI) (auto simp: cell_at_def nth_py_range)
      then show ?thesis by (simp only: concat_map_singleton)
    qed
    finally show ?thesis .
  qed
  have shape: "\<not> (int (length blocked) \<noteq> rows \<or> (\<exists>row \<in> set blocked. int (length row) \<noteq> cols))"
    using assms by (auto simp: wf_grid_def)
  have "map (\<lambda>gy. blocked ! nat gy) (py_range 0 rows) = blocked"
    using assms by (intro nth_equalityI) (auto simp: wf_grid_def nth_py_range)
  then have "concat (map (\<lambda>gy. map ?f (blocked ! nat gy)) (py_range 0 rows)) = map ?f (concat blocked)"
    by (metis (no_types, lifting) map_concat map_map comp_apply map_cong)
  moreover have "for_each (py_range 0 rows) (\<lambda>gy. for_each (py_range 0 cols) (\<lambda>gx out. do {
      b \<leftarrow> gget blocked gy gx; Some (out @ [if b then 1 else 0]) })) []
    = Some ([] @ concat (map (\<lambda>gy. map ?f (blocked ! nat gy)) (py_range 0 rows)))"
    by (rule for_each_collect) (rule row)
  ultimately show ?thesis
    unfolding blocked_bitmap_bytes_def if_not_P [OF shape] by simp
qed

section \<open>Properties\<close>

text \<open>C32: Expanding the walls into the blocked grid never raises, and the free cells are exactly those of the rooms
  and of the corridors through opened walls.\<close>

theorem blocked_grid_exact:
  "\<exists>blocked. edges_to_blocked_grid es n k = Some (blocked, n * (k + 1) + 1) \<and>
    wf_grid (n * (k + 1) + 1) (n * (k + 1) + 1) blocked \<and>
    {(x, y). in_grid (n * (k + 1) + 1) (n * (k + 1) + 1) x y \<and> \<not> cell_at blocked x y} =
    {(x, y). in_grid (n * (k + 1) + 1) (n * (k + 1) + 1) x y \<and> (x, y) \<in> open_cells es n k}"
proof -
  obtain blocked where "edges_to_blocked_grid es n k = Some (blocked, n * (k + 1) + 1)"
    "wf_grid (n * (k + 1) + 1) (n * (k + 1) + 1) blocked"
    "\<And>x y. in_grid (n * (k + 1) + 1) (n * (k + 1) + 1) x y \<Longrightarrow> cell_at blocked x y \<longleftrightarrow> (x, y) \<notin> open_cells es n k"
    using edges_to_blocked_grid_exact [of es n k] by blast
  then show ?thesis by (intro exI [of _ blocked]) blast
qed

text \<open>Clearing around an end point frees exactly the square of the given radius and changes no other cell.\<close>

theorem clear_blocked_zone_exact:
  assumes "wf_grid d d blocked"
  shows "\<exists>b. clear_blocked_safe_zone blocked d gx gy radius = Some b \<and> wf_grid d d b \<and>
    (\<forall>x y. in_grid d d x y \<longrightarrow>
       (cell_at b x y \<longleftrightarrow> cell_at blocked x y \<and> \<not> (\<bar>x - gx\<bar> \<le> radius \<and> \<bar>y - gy\<bar> \<le> radius)))"
  using clear_blocked_safe_zone_exact [OF assms, of gx gy radius] by metis

theorem clear_blocked_zone_exact_witness:
  "\<exists>b. clear_blocked_safe_zone (new_grid 4 4 True) 4 0 0 1 = Some b \<and> \<not> cell_at b 1 1 \<and> cell_at b 2 1"
  using clear_blocked_zone_exact [OF wf_new_grid, of 4 True 0 0 1]
  by (auto simp: in_grid_def cell_at_new_grid)

text \<open>The obstacle pass never raises, frees no cell, and blocks only cells inside rooms outside both safe
  zones, off the border of rooms of side three or more.\<close>

theorem obstacles_confined:
  assumes "wf_grid (n * (k + 1) + 1) (n * (k + 1) + 1) blocked"
  shows "\<exists>b r'. add_room_obstacles blocked n k density r srx sry erx ery radius = Some (b, r') \<and>
    wf_grid (n * (k + 1) + 1) (n * (k + 1) + 1) b \<and>
    (\<forall>x y. in_grid (n * (k + 1) + 1) (n * (k + 1) + 1) x y \<longrightarrow>
       (cell_at blocked x y \<longrightarrow> cell_at b x y) \<and>
       (cell_at b x y \<longrightarrow> cell_at blocked x y \<or> (x, y) \<in> obstacle_zone n k srx sry erx ery radius))"
  using add_room_obstacles_within [OF assms, of density r srx sry erx ery radius]
  unfolding adds_within_def by metis

theorem obstacles_confined_witness:
  "\<exists>b r'. add_room_obstacles (new_grid 17 17 False) 4 3 1 \<lparr>tape = (\<lambda>_. 0), pos = 0\<rparr> 0 0 3 3 1 = Some (b, r') \<and>
    \<not> cell_at b 9 2 \<and> \<not> cell_at b 2 2"
proof -
  let ?run = "add_room_obstacles (new_grid 17 17 False) 4 3 1 \<lparr>tape = (\<lambda>_. 0), pos = 0\<rparr> 0 0 3 3 1"
  have wf: "wf_grid (4 * (3 + 1) + 1) (4 * (3 + 1) + 1) (new_grid 17 17 False)" by simp
  have "inner_range 3 = {1 :: int}" by (auto simp: inner_range_def)
  then have zone: "\<exists>rx ry. x = rx * 4 + 2 \<and> y = ry * 4 + 2 \<and> \<not> near_room 1 rx ry 0 0"
    if "(x, y) \<in> obstacle_zone 4 3 0 0 3 3 1" for x y
    using that by (auto simp: obstacle_zone_def)
  have "(9, 2) \<notin> obstacle_zone 4 3 0 0 3 3 1"
  proof
    assume "(9, 2) \<in> obstacle_zone 4 3 0 0 3 3 1"
    from zone [OF this] obtain rx :: int where "9 = rx * 4 + 2" by blast
    then show False by presburger
  qed
  moreover have "(2, 2) \<notin> obstacle_zone 4 3 0 0 3 3 1"
    using zone [of 2 2] by (auto simp: near_room_def)
  moreover have "in_grid 17 17 9 2" "in_grid 17 17 2 2" by (simp_all add: in_grid_def)
  moreover obtain b r' where "?run = Some (b, r')"
    "\<forall>x y. in_grid 17 17 x y \<longrightarrow> (cell_at b x y \<longrightarrow> cell_at (new_grid 17 17 False) x y \<or> (x, y) \<in> obstacle_zone 4 3 0 0 3 3 1)"
    using obstacles_confined [OF wf, of 1 "\<lparr>tape = (\<lambda>_. 0), pos = 0\<rparr>" 0 0 3 3 1] by auto
  ultimately show ?thesis by auto
qed

end
