(* ===== verification/Connectivity.thy ===== *)
theory Connectivity
  imports ActionSearch BlockedGrid
begin

text \<open>
  Why a generated map can be walked: every room keeps its bottom row and its left column free of
  obstacles, and the corridor of an opened wall meets them. So the nine-action search finds a
  path between the centres of two rooms whenever the passages of the edge set link the rooms.
\<close>

section \<open>Straight walks\<close>

definition walks :: "(cell \<Rightarrow> bool) \<Rightarrow> cell \<Rightarrow> cell \<Rightarrow> bool" where
  "walks free p q \<longleftrightarrow> (p, q) \<in> (step_rel (action_moves free))\<^sup>*"

lemma walks_refl [simp]: "walks free p p"
  by (simp add: walks_def)

lemma walks_trans [trans]: "walks free p q \<Longrightarrow> walks free q r \<Longrightarrow> walks free p r"
  unfolding walks_def by (rule rtrancl_trans)

lemma walks_step:
  "free (x', y') \<Longrightarrow> adjacent (x, y) (x', y') \<Longrightarrow> walks free (x, y) (x', y')"
  unfolding walks_def step_rel_def adjacent_cases
  by (rule r_into_rtrancl) (auto simp: action_moves_def legal_move_def ACTION_DIRECTIONS_def)

lemma walks_row_up:
  "(\<And>x'. x \<le> x' \<Longrightarrow> x' \<le> x + int m \<Longrightarrow> free (x', y)) \<Longrightarrow>
   walks free (x, y) (x + int m, y) \<and> walks free (x + int m, y) (x, y)"
proof (induction m)
  case 0
  then show ?case by simp
next
  case (Suc m)
  have "walks free (x + int m, y) (x + int (Suc m), y)" "walks free (x + int (Suc m), y) (x + int m, y)"
    using Suc.prems by (intro walks_step; simp add: adjacent_def)+
  with Suc.IH Suc.prems show ?case by (auto intro: walks_trans)
qed

lemma walks_column_up:
  "(\<And>y'. y \<le> y' \<Longrightarrow> y' \<le> y + int m \<Longrightarrow> free (x, y')) \<Longrightarrow>
   walks free (x, y) (x, y + int m) \<and> walks free (x, y + int m) (x, y)"
proof (induction m)
  case 0
  then show ?case by simp
next
  case (Suc m)
  have "walks free (x, y + int m) (x, y + int (Suc m))" "walks free (x, y + int (Suc m)) (x, y + int m)"
    using Suc.prems by (intro walks_step; simp add: adjacent_def)+
  with Suc.IH Suc.prems show ?case by (auto intro: walks_trans)
qed

lemma walks_row:
  assumes "\<And>x. x1 \<le> x \<Longrightarrow> x \<le> x2 \<Longrightarrow> free (x, y)" and "x1 \<le> x2"
  shows "walks free (x1, y) (x2, y)" and "walks free (x2, y) (x1, y)"
  using walks_row_up [of x1 "nat (x2 - x1)" free y] assms by auto

lemma walks_column:
  assumes "\<And>y. y1 \<le> y \<Longrightarrow> y \<le> y2 \<Longrightarrow> free (x, y)" and "y1 \<le> y2"
  shows "walks free (x, y1) (x, y2)" and "walks free (x, y2) (x, y1)"
  using walks_column_up [of y1 "nat (y2 - y1)" free x] assms by auto

section \<open>Rooms in the blocked grid\<close>

text \<open>The lower left cell of a room, and the cell at its centre.\<close>

definition room_corner :: "int \<Rightarrow> cell \<Rightarrow> cell" where
  "room_corner k r = (fst r * (k + 1) + 1, snd r * (k + 1) + 1)"

definition room_centre :: "int \<Rightarrow> cell \<Rightarrow> cell" where
  "room_centre k r = (fst r * (k + 1) + 1 + k div 2, snd r * (k + 1) + 1 + k div 2)"

text \<open>The bottom row, the left column and the corridor cells next to them.\<close>

definition lanes_free :: "wall_edge_set \<Rightarrow> int \<Rightarrow> int \<Rightarrow> (cell \<Rightarrow> bool) \<Rightarrow> bool" where
  "lanes_free es n k free \<longleftrightarrow>
     (\<forall>rx ry i. (rx, ry) \<in> rooms n \<and> 0 \<le> i \<and> i < k \<longrightarrow>
        free (rx * (k + 1) + 1 + i, ry * (k + 1) + 1) \<and> free (rx * (k + 1) + 1, ry * (k + 1) + 1 + i)) \<and>
     (\<forall>rx ry. ((rx, ry), (rx + 1, ry)) \<in> passages es \<longrightarrow> free ((rx + 1) * (k + 1), ry * (k + 1) + 1)) \<and>
     (\<forall>rx ry. ((rx, ry), (rx, ry + 1)) \<in> passages es \<longrightarrow> free (rx * (k + 1) + 1, (ry + 1) * (k + 1)))"

lemma corner_right:
  assumes lanes: "lanes_free es n k free" and "grid_dim es = n" and "1 \<le> k"
    and p: "((rx, ry), (rx + 1, ry)) \<in> passages es"
  shows "walks free (room_corner k (rx, ry)) (room_corner k (rx + 1, ry))"
    and "walks free (room_corner k (rx + 1, ry)) (room_corner k (rx, ry))"
proof -
  have r: "(rx, ry) \<in> rooms n" "(rx + 1, ry) \<in> rooms n"
    using p assms(2) by (auto simp: passages_def)
  have "free (x, ry * (k + 1) + 1)" if x: "rx * (k + 1) + 1 \<le> x" "x \<le> (rx + 1) * (k + 1) + 1" for x
  proof -
    have "x < rx * (k + 1) + 1 + k \<or> x = (rx + 1) * (k + 1) \<or> x = (rx + 1) * (k + 1) + 1"
      using x by (simp add: algebra_simps) arith
    moreover have "free (rx * (k + 1) + 1 + (x - (rx * (k + 1) + 1)), ry * (k + 1) + 1)" if "x < rx * (k + 1) + 1 + k"
      using lanes r(1) x that unfolding lanes_free_def by (metis add_le_cancel_left diff_ge_0_iff_ge diff_less_eq add.commute)
    moreover have "free ((rx + 1) * (k + 1), ry * (k + 1) + 1)"
      using lanes p unfolding lanes_free_def by blast
    moreover have "free ((rx + 1) * (k + 1) + 1 + 0, ry * (k + 1) + 1)"
      using lanes r(2) assms(3) unfolding lanes_free_def by (metis order_refl zero_less_one order_less_le_trans)
    ultimately show ?thesis by auto
  qed
  moreover have "rx * (k + 1) + 1 \<le> (rx + 1) * (k + 1) + 1" using assms(3) by (simp add: algebra_simps)
  ultimately show "walks free (room_corner k (rx, ry)) (room_corner k (rx + 1, ry))"
    "walks free (room_corner k (rx + 1, ry)) (room_corner k (rx, ry))"
    unfolding room_corner_def fst_conv snd_conv by (blast intro: walks_row)+
qed

lemma corner_up:
  assumes lanes: "lanes_free es n k free" and "grid_dim es = n" and "1 \<le> k"
    and p: "((rx, ry), (rx, ry + 1)) \<in> passages es"
  shows "walks free (room_corner k (rx, ry)) (room_corner k (rx, ry + 1))"
    and "walks free (room_corner k (rx, ry + 1)) (room_corner k (rx, ry))"
proof -
  have r: "(rx, ry) \<in> rooms n" "(rx, ry + 1) \<in> rooms n"
    using p assms(2) by (auto simp: passages_def)
  have "free (rx * (k + 1) + 1, y)" if y: "ry * (k + 1) + 1 \<le> y" "y \<le> (ry + 1) * (k + 1) + 1" for y
  proof -
    have "y < ry * (k + 1) + 1 + k \<or> y = (ry + 1) * (k + 1) \<or> y = (ry + 1) * (k + 1) + 1"
      using y by (simp add: algebra_simps) arith
    moreover have "free (rx * (k + 1) + 1, ry * (k + 1) + 1 + (y - (ry * (k + 1) + 1)))" if "y < ry * (k + 1) + 1 + k"
      using lanes r(1) y that unfolding lanes_free_def by (metis add_le_cancel_left diff_ge_0_iff_ge diff_less_eq add.commute)
    moreover have "free (rx * (k + 1) + 1, (ry + 1) * (k + 1))"
      using lanes p unfolding lanes_free_def by blast
    moreover have "free (rx * (k + 1) + 1, (ry + 1) * (k + 1) + 1 + 0)"
      using lanes r(2) assms(3) unfolding lanes_free_def by (metis order_refl zero_less_one order_less_le_trans)
    ultimately show ?thesis by auto
  qed
  moreover have "ry * (k + 1) + 1 \<le> (ry + 1) * (k + 1) + 1" using assms(3) by (simp add: algebra_simps)
  ultimately show "walks free (room_corner k (rx, ry)) (room_corner k (rx, ry + 1))"
    "walks free (room_corner k (rx, ry + 1)) (room_corner k (rx, ry))"
    unfolding room_corner_def fst_conv snd_conv by (blast intro: walks_column)+
qed

lemma corner_walks:
  assumes lanes: "lanes_free es n k free" and "grid_dim es = n" and "1 \<le> k" and "(a, b) \<in> (passages es)\<^sup>*"
  shows "walks free (room_corner k a) (room_corner k b)"
  using assms(4)
proof induction
  case base
  then show ?case by simp
next
  case (step b c)
  obtain x y x' y' where bc: "b = (x, y)" "c = (x', y')" by (cases b; cases c)
  have p: "((x, y), (x', y')) \<in> passages es" "((x', y'), (x, y)) \<in> passages es"
    using step.hyps(2) bc sym_passages [of es] by (auto simp: sym_def)
  then have "adjacent (x, y) (x', y')" by (simp add: passages_def)
  then have "(x', y') = (x + 1, y) \<or> (x', y') = (x, y + 1) \<or> (x, y) = (x' + 1, y') \<or> (x, y) = (x', y' + 1)"
    by (auto simp: adjacent_cases)
  then have "walks free (room_corner k (x, y)) (room_corner k (x', y'))"
    using p corner_right [OF lanes assms(2,3)] corner_up [OF lanes assms(2,3)] by auto
  with step.IH bc show ?case by (auto intro: walks_trans)
qed

text \<open>In a room without obstacles the centre is linked to the corner.\<close>

lemma centre_corner:
  assumes "\<And>x y. (x, y) \<in> room_cells k rx ry \<Longrightarrow> free (x, y)" and "1 \<le> k"
  shows "walks free (room_centre k (rx, ry)) (room_corner k (rx, ry))"
    and "walks free (room_corner k (rx, ry)) (room_centre k (rx, ry))"
proof -
  let ?bx = "rx * (k + 1) + 1" and ?by = "ry * (k + 1) + 1" and ?h = "k div 2"
  have h: "0 \<le> ?h" "?h < k" using assms(2) by simp_all
  have cell: "free (?bx + i, ?by + j)" if "0 \<le> i" "i < k" "0 \<le> j" "j < k" for i j
    using that by (intro assms(1)) (auto simp: room_cells_def)
  have column: "free (?bx + ?h, y)" if "?by \<le> y" "y \<le> ?by + ?h" for y
    using cell [of ?h "y - ?by"] h that by simp
  have row: "free (x, ?by)" if "?bx \<le> x" "x \<le> ?bx + ?h" for x
    using cell [of "x - ?bx" 0] h that by simp
  show "walks free (room_centre k (rx, ry)) (room_corner k (rx, ry))"
    "walks free (room_corner k (rx, ry)) (room_centre k (rx, ry))"
    unfolding room_centre_def room_corner_def fst_conv snd_conv
    using walks_column [of ?by "?by + ?h" free "?bx + ?h"] walks_row [of ?bx "?bx + ?h" free ?by] column row h
    by (auto intro: walks_trans)
qed

section \<open>The final grid\<close>

text \<open>A cell of a room is decoded by division: rooms do not overlap.\<close>

lemma stride_decode:
  fixes r d k :: int
  assumes "0 \<le> d" and "d < k + 1"
  shows "(r * (k + 1) + d) div (k + 1) = r" and "(r * (k + 1) + d) mod (k + 1) = d"
  using assms by (simp_all add: div_add1_eq mod_add_eq)

lemma stride_unique:
  fixes r r' d d' k :: int
  assumes "r * (k + 1) + d = r' * (k + 1) + d'" and "0 \<le> d" "d < k + 1" "0 \<le> d'" "d' < k + 1"
  shows "r = r'" and "d = d'"
  using stride_decode [OF assms(2,3), of r] stride_decode [OF assms(4,5), of r'] assms(1) by simp_all

text \<open>A grid that blocks no open cell, except obstacles in rooms of side three or more.\<close>

definition carved :: "wall_edge_set \<Rightarrow> int \<Rightarrow> int \<Rightarrow> cell \<Rightarrow> cell \<Rightarrow> bool grid \<Rightarrow> bool" where
  "carved es n k s e b \<longleftrightarrow> wf_grid (n * (k + 1) + 1) (n * (k + 1) + 1) b \<and>
     (\<forall>x y. in_grid (n * (k + 1) + 1) (n * (k + 1) + 1) x y \<and> (x, y) \<in> open_cells es n k \<and> cell_at b x y \<longrightarrow>
        3 \<le> k \<and> (x, y) \<in> obstacle_zone n k (fst s) (snd s) (fst e) (snd e) 1)"

lemma room_cells_open: "(rx, ry) \<in> rooms n \<Longrightarrow> room_cells k rx ry \<subseteq> open_cells es n k"
  by (auto simp: open_cells_def)

lemma room_cells_in_grid:
  assumes "(rx, ry) \<in> rooms n" and "(x, y) \<in> room_cells k rx ry"
  shows "in_grid (n * (k + 1) + 1) (n * (k + 1) + 1) x y"
  using assms stride_range [of rx n _ k] stride_range [of ry n _ k]
  by (fastforce simp: room_cells_def in_grid_def)

lemma obstacle_zoneE:
  assumes "3 \<le> k" and "(x, y) \<in> obstacle_zone n k srx sry erx ery radius"
  obtains rx ry dx dy where "x = rx * (k + 1) + 1 + dx" "y = ry * (k + 1) + 1 + dy"
    "1 \<le> dx" "dx < k - 1" "1 \<le> dy" "dy < k - 1"
    "\<not> near_room radius rx ry srx sry" "\<not> near_room radius rx ry erx ery"
proof -
  have range: "inner_range k = {1..<k - 1}" using assms(1) by (simp add: inner_range_def)
  from assms(2) [unfolded obstacle_zone_def range] show ?thesis using that by force
qed

lemma obstacle_off_lane:
  assumes "3 \<le> k" and "(x, y) \<in> obstacle_zone n k srx sry erx ery radius"
  shows "(x - 1) mod (k + 1) \<noteq> 0" and "(y - 1) mod (k + 1) \<noteq> 0"
proof -
  obtain rx ry dx dy where xy: "x = rx * (k + 1) + 1 + dx" "y = ry * (k + 1) + 1 + dy"
    and d: "1 \<le> dx" "dx < k - 1" "1 \<le> dy" "dy < k - 1"
    using obstacle_zoneE [OF assms] .
  have "x - 1 = rx * (k + 1) + dx" "y - 1 = ry * (k + 1) + dy" using xy by simp_all
  with d stride_decode(2) [of dx k rx] stride_decode(2) [of dy k ry]
  show "(x - 1) mod (k + 1) \<noteq> 0" "(y - 1) mod (k + 1) \<noteq> 0" by simp_all
qed

lemma carved_lane_free:
  assumes "carved es n k s e b" and "in_grid (n * (k + 1) + 1) (n * (k + 1) + 1) x y"
    and "(x, y) \<in> open_cells es n k" and "(x - 1) mod (k + 1) = 0 \<or> (y - 1) mod (k + 1) = 0"
  shows "free_cell b (n * (k + 1) + 1) (n * (k + 1) + 1) (x, y)"
proof (rule ccontr)
  assume "\<not> ?thesis"
  with assms(1-3) have z: "3 \<le> k" "(x, y) \<in> obstacle_zone n k (fst s) (snd s) (fst e) (snd e) 1"
    unfolding carved_def free_cell_def by auto
  from obstacle_off_lane [OF z] assms(4) show False by blast
qed

lemma carved_lanes:
  assumes c: "carved es n k s e b" and "grid_dim es = n" and "1 \<le> k"
  shows "lanes_free es n k (free_cell b (n * (k + 1) + 1) (n * (k + 1) + 1))"
  unfolding lanes_free_def
proof (intro conjI allI impI)
  fix rx ry i
  assume r: "(rx, ry) \<in> rooms n \<and> 0 \<le> i \<and> i < k"
  have cells: "(rx * (k + 1) + 1 + i, ry * (k + 1) + 1 + 0) \<in> room_cells k rx ry"
    "(rx * (k + 1) + 1 + 0, ry * (k + 1) + 1 + i) \<in> room_cells k rx ry"
    unfolding room_cells_def using r by fastforce+
  show "free_cell b (n * (k + 1) + 1) (n * (k + 1) + 1) (rx * (k + 1) + 1 + i, ry * (k + 1) + 1)"
    using carved_lane_free [OF c] room_cells_in_grid [of rx ry n] room_cells_open [of rx ry n k es] r cells(1) by fastforce
  show "free_cell b (n * (k + 1) + 1) (n * (k + 1) + 1) (rx * (k + 1) + 1, ry * (k + 1) + 1 + i)"
    using carved_lane_free [OF c] room_cells_in_grid [of rx ry n] room_cells_open [of rx ry n k es] r cells(2) by fastforce
next
  fix rx ry
  assume p: "((rx, ry), (rx + 1, ry)) \<in> passages es"
  then have r: "0 \<le> rx" "rx + 1 < n" "0 \<le> ry" "ry < n" "\<not> has_wall es rx ry (rx + 1) ry"
    using assms(2) by (auto simp: passages_def has_wall_def)
  have "((rx + 1) * (k + 1), ry * (k + 1) + 1 + 0) \<in> right_corridor k rx ry"
    unfolding right_corridor_def using assms(3) by fastforce
  with r have "((rx + 1) * (k + 1), ry * (k + 1) + 1) \<in> open_cells es n k"
    unfolding open_cells_def by fastforce
  moreover have "in_grid (n * (k + 1) + 1) (n * (k + 1) + 1) ((rx + 1) * (k + 1)) (ry * (k + 1) + 1)"
    using r assms(3) stride_range [of "rx + 1" n 0 k] stride_range [of ry n 1 k] by (auto simp: in_grid_def)
  ultimately show "free_cell b (n * (k + 1) + 1) (n * (k + 1) + 1) ((rx + 1) * (k + 1), ry * (k + 1) + 1)"
    by (intro carved_lane_free [OF c]) auto
next
  fix rx ry
  assume p: "((rx, ry), (rx, ry + 1)) \<in> passages es"
  then have r: "0 \<le> rx" "rx < n" "0 \<le> ry" "ry + 1 < n" "\<not> has_wall es rx ry rx (ry + 1)"
    using assms(2) by (auto simp: passages_def has_wall_def)
  have "(rx * (k + 1) + 1 + 0, (ry + 1) * (k + 1)) \<in> up_corridor k rx ry"
    unfolding up_corridor_def using assms(3) by fastforce
  with r have "(rx * (k + 1) + 1, (ry + 1) * (k + 1)) \<in> open_cells es n k"
    unfolding open_cells_def by fastforce
  moreover have "in_grid (n * (k + 1) + 1) (n * (k + 1) + 1) (rx * (k + 1) + 1) ((ry + 1) * (k + 1))"
    using r assms(3) stride_range [of "ry + 1" n 0 k] stride_range [of rx n 1 k] by (auto simp: in_grid_def)
  ultimately show "free_cell b (n * (k + 1) + 1) (n * (k + 1) + 1) (rx * (k + 1) + 1, (ry + 1) * (k + 1))"
    by (intro carved_lane_free [OF c]) auto
qed

text \<open>The start room and the goal room hold no obstacle.\<close>

lemma carved_safe_room:
  assumes "carved es n k s e b" and "(rx, ry) \<in> rooms n"
    and "near_room 1 rx ry (fst s) (snd s) \<or> near_room 1 rx ry (fst e) (snd e)"
    and "(x, y) \<in> room_cells k rx ry"
  shows "free_cell b (n * (k + 1) + 1) (n * (k + 1) + 1) (x, y)"
proof -
  have "(x, y) \<notin> obstacle_zone n k (fst s) (snd s) (fst e) (snd e) 1" if k: "3 \<le> k"
  proof
    assume z: "(x, y) \<in> obstacle_zone n k (fst s) (snd s) (fst e) (snd e) 1"
    obtain rx' ry' dx dy where o: "x = rx' * (k + 1) + 1 + dx" "y = ry' * (k + 1) + 1 + dy"
      "1 \<le> dx" "dx < k - 1" "1 \<le> dy" "dy < k - 1"
      "\<not> near_room 1 rx' ry' (fst s) (snd s)" "\<not> near_room 1 rx' ry' (fst e) (snd e)"
      by (rule obstacle_zoneE [OF k z])
    obtain i j where c: "x = rx * (k + 1) + 1 + i" "y = ry * (k + 1) + 1 + j" "0 \<le> i" "i < k" "0 \<le> j" "j < k"
      using assms(4) by (auto simp: room_cells_def)
    have "rx = rx'" using stride_unique(1) [of rx k i rx' dx] o c by simp
    moreover have "ry = ry'" using stride_unique(1) [of ry k j ry' dy] o c by simp
    ultimately show False using o assms(3) by simp
  qed
  with assms room_cells_open [OF assms(2), of k es] room_cells_in_grid [OF assms(2,4)]
  show ?thesis by (auto simp: carved_def free_cell_def)
qed

lemma carved_walks:
  assumes c: "carved es n k s e b" and "grid_dim es = n" and "1 \<le> k"
    and r: "s \<in> rooms n" "e \<in> rooms n" and "(s, e) \<in> (passages es)\<^sup>*"
  defines "free \<equiv> free_cell b (n * (k + 1) + 1) (n * (k + 1) + 1)"
  shows "walks free (room_centre k s) (room_centre k e)" and "free (room_centre k s)" and "free (room_centre k e)"
proof -
  obtain sx sy ex ey where se: "s = (sx, sy)" "e = (ex, ey)" by (cases s; cases e)
  have room: "free (x, y)" if "(x, y) \<in> room_cells k sx sy \<union> room_cells k ex ey" for x y
    using that carved_safe_room [OF c] r unfolding free_def se by (auto simp: near_room_def)
  have "walks free (room_centre k s) (room_corner k s)"
    unfolding se by (intro centre_corner room assms(3)) simp
  also have "walks free (room_corner k s) (room_corner k e)"
    unfolding free_def by (rule corner_walks [OF carved_lanes [OF c assms(2,3)] assms(2,3,6)])
  also have "walks free (room_corner k e) (room_centre k e)"
    unfolding se by (intro centre_corner room assms(3)) simp
  finally show "walks free (room_centre k s) (room_centre k e)" .
  have "0 \<le> k div 2" "k div 2 < k" using assms(3) by simp_all
  then have "room_centre k r \<in> room_cells k (fst r) (snd r)" for r
    by (auto simp: room_centre_def room_cells_def)
  with room show "free (room_centre k s)" "free (room_centre k e)"
    unfolding se by (metis UnCI fst_conv snd_conv surj_pair)+
qed

end
