(* ===== verification/WallSegments.thy ===== *)
theory WallSegments
  imports Grid
begin

text \<open>
  \<open>blocked_to_wall_segments\<close>: the blocked grid as a list of wall segments for the replay page.
  A first pass walks every column and merges vertical runs of blocked cells, a second walks every
  row and merges what is left. \<open>used\<close> holds the cells already covered. Coordinates are exact
  rationals rounded to two decimals, half to even.
\<close>

record wall_segment =
  seg_x1 :: rat
  seg_y1 :: rat
  seg_x2 :: rat
  seg_y2 :: rat
  thickness :: int

text \<open>\<open>round(q, 2)\<close>\<close>

definition round_half_even :: "rat \<Rightarrow> int" where
  "round_half_even q =
     (let f = \<lfloor>q\<rfloor>; d = q - of_int f in
      if d < 1 / 2 then f else if d > 1 / 2 then f + 1 else if even f then f else f + 1)"

definition round2 :: "rat \<Rightarrow> rat" where
  "round2 q = of_int (round_half_even (q * 100)) / 100"

text \<open>The centre of a cell in one coordinate.\<close>

definition centre :: "rat \<Rightarrow> int \<Rightarrow> rat" where
  "centre grid_size i = round2 ((of_int i + 1 / 2) * grid_size)"

definition make_segment :: "rat \<Rightarrow> int \<Rightarrow> int \<times> int \<times> int \<times> int \<Rightarrow> wall_segment" where
  "make_segment grid_size th = (\<lambda>(x1, y1, x2, y2).
     \<lparr>seg_x1 = centre grid_size x1, seg_y1 = centre grid_size y1,
      seg_x2 = centre grid_size x2, seg_y2 = centre grid_size y2, thickness = th\<rparr>)"

text \<open>The inner \<open>while\<close> of the column pass: the first row at or above \<open>gy\<close> that is not blocked.\<close>

function column_run :: "bool grid \<Rightarrow> int \<Rightarrow> int \<Rightarrow> int \<Rightarrow> int option" where
  "column_run blocked d gx gy =
     (if gy < d
      then do { b \<leftarrow> gget blocked gy gx; if b then column_run blocked d gx (gy + 1) else Some gy }
      else Some gy)"
  by pat_completeness auto
termination
  by (relation "measure (\<lambda>(blocked, d, gx, gy). nat (d - gy))") auto

declare column_run.simps [simp del]

lemma column_run_ge: "column_run blocked d gx gy = Some e \<Longrightarrow> gy \<le> e"
proof (induction blocked d gx gy rule: column_run.induct)
  case (1 blocked d gx gy)
  then show ?case
    by (fastforce simp: column_run.simps [of blocked d gx gy] bind_eq_Some_conv split: if_splits)
qed

lemma column_run_gt: "column_run blocked d gx gy = Some e \<Longrightarrow> gy < d \<Longrightarrow> gget blocked gy gx = Some True \<Longrightarrow> gy < e"
  using column_run_ge [of blocked d gx "gy + 1" e] by (simp add: column_run.simps [of blocked d gx gy])

function column_scan ::
    "bool grid \<Rightarrow> int \<Rightarrow> rat \<Rightarrow> int \<Rightarrow> int \<Rightarrow> int \<Rightarrow> wall_segment list \<times> cell set \<Rightarrow> (wall_segment list \<times> cell set) option" where
  "column_scan blocked d grid_size th gx gy state =
     (if gy < d
      then do {
        b \<leftarrow> gget blocked gy gx;
        if b \<and> (gx, gy) \<notin> snd state
        then do {
          end_gy \<leftarrow> column_run blocked d gx gy;
          column_scan blocked d grid_size th gx end_gy
            (fst state @ [make_segment grid_size th (gx, gy, gx, end_gy - 1)],
             fold (\<lambda>mark_gy. insert (gx, mark_gy)) (py_range gy end_gy) (snd state))
        }
        else column_scan blocked d grid_size th gx (gy + 1) state
      }
      else Some state)"
  by pat_completeness auto
termination
  by (relation "measure (\<lambda>(blocked, d, grid_size, th, gx, gy, state). nat (d - gy))")
    (auto dest!: column_run_gt)

declare column_scan.simps [simp del]

text \<open>The same for rows; here a run also stops at a cell already covered.\<close>

function row_run :: "bool grid \<Rightarrow> int \<Rightarrow> cell set \<Rightarrow> int \<Rightarrow> int \<Rightarrow> int option" where
  "row_run blocked d used gy gx =
     (if gx < d
      then do {
        b \<leftarrow> gget blocked gy gx;
        if b \<and> (gx, gy) \<notin> used then row_run blocked d used gy (gx + 1) else Some gx
      }
      else Some gx)"
  by pat_completeness auto
termination
  by (relation "measure (\<lambda>(blocked, d, used, gy, gx). nat (d - gx))") auto

declare row_run.simps [simp del]

lemma row_run_ge: "row_run blocked d used gy gx = Some e \<Longrightarrow> gx \<le> e"
proof (induction blocked d used gy gx rule: row_run.induct)
  case (1 blocked d used gy gx)
  then show ?case
    by (fastforce simp: row_run.simps [of blocked d used gy gx] bind_eq_Some_conv split: if_splits)
qed

lemma row_run_gt:
  "row_run blocked d used gy gx = Some e \<Longrightarrow> gx < d \<Longrightarrow> gget blocked gy gx = Some True \<Longrightarrow> (gx, gy) \<notin> used \<Longrightarrow> gx < e"
  using row_run_ge [of blocked d used gy "gx + 1" e] by (simp add: row_run.simps [of blocked d used gy gx])

function row_scan ::
    "bool grid \<Rightarrow> int \<Rightarrow> rat \<Rightarrow> int \<Rightarrow> int \<Rightarrow> int \<Rightarrow> wall_segment list \<times> cell set \<Rightarrow> (wall_segment list \<times> cell set) option" where
  "row_scan blocked d grid_size th gy gx state =
     (if gx < d
      then do {
        b \<leftarrow> gget blocked gy gx;
        if b \<and> (gx, gy) \<notin> snd state
        then do {
          end_gx \<leftarrow> row_run blocked d (snd state) gy gx;
          row_scan blocked d grid_size th gy end_gx
            (fst state @ [make_segment grid_size th (gx, gy, end_gx - 1, gy)],
             fold (\<lambda>mark_gx. insert (mark_gx, gy)) (py_range gx end_gx) (snd state))
        }
        else row_scan blocked d grid_size th gy (gx + 1) state
      }
      else Some state)"
  by pat_completeness auto
termination
  by (relation "measure (\<lambda>(blocked, d, grid_size, th, gy, gx, state). nat (d - gx))")
    (auto dest!: row_run_gt)

declare row_scan.simps [simp del]

definition blocked_to_wall_segments :: "bool grid \<Rightarrow> int \<Rightarrow> rat \<Rightarrow> int \<Rightarrow> wall_segment list option" where
  "blocked_to_wall_segments blocked d grid_size th = do {
     state \<leftarrow> for_each (py_range 0 d) (\<lambda>gx. column_scan blocked d grid_size th gx 0) ([], {});
     state \<leftarrow> for_each (py_range 0 d) (\<lambda>gy. row_scan blocked d grid_size th gy 0) state;
     Some (fst state)
   }"

section \<open>Vertical runs\<close>

text \<open>The maximal vertical runs of column \<open>x\<close>, given by their first and last row.\<close>

definition is_run :: "bool grid \<Rightarrow> int \<Rightarrow> int \<Rightarrow> int \<Rightarrow> int \<Rightarrow> bool" where
  "is_run blocked d x y1 y2 \<longleftrightarrow>
     0 \<le> y1 \<and> y1 \<le> y2 \<and> y2 < d \<and> (\<forall>y. y1 \<le> y \<and> y \<le> y2 \<longrightarrow> cell_at blocked x y) \<and>
     (y1 = 0 \<or> \<not> cell_at blocked x (y1 - 1)) \<and> (y2 = d - 1 \<or> \<not> cell_at blocked x (y2 + 1))"

definition vertical_runs :: "bool grid \<Rightarrow> int \<Rightarrow> (int \<times> int \<times> int \<times> int) set" where
  "vertical_runs blocked d = {(x, y1, x, y2) | x y1 y2. 0 \<le> x \<and> x < d \<and> is_run blocked d x y1 y2}"

lemma column_run_spec:
  assumes "wf_grid d d blocked" and "0 \<le> gx" "gx < d" and "0 \<le> gy" "gy \<le> d"
  obtains e where "column_run blocked d gx gy = Some e" "gy \<le> e" "e \<le> d"
    "\<And>y. gy \<le> y \<Longrightarrow> y < e \<Longrightarrow> cell_at blocked gx y" "e < d \<Longrightarrow> \<not> cell_at blocked gx e"
proof -
  have "\<exists>e. column_run blocked d gx gy = Some e \<and> gy \<le> e \<and> e \<le> d \<and>
      (\<forall>y. gy \<le> y \<and> y < e \<longrightarrow> cell_at blocked gx y) \<and> (e < d \<longrightarrow> \<not> cell_at blocked gx e)"
    using assms(4,5)
  proof (induction "nat (d - gy)" arbitrary: gy rule: less_induct)
    case less
    show ?case
    proof (cases "gy < d \<and> cell_at blocked gx gy")
      case True
      with less.hyps [of "gy + 1"] less.prems obtain e where
        e: "column_run blocked d gx (gy + 1) = Some e" "gy + 1 \<le> e" "e \<le> d"
          "\<forall>y. gy + 1 \<le> y \<and> y < e \<longrightarrow> cell_at blocked gx y" "e < d \<longrightarrow> \<not> cell_at blocked gx e"
        by auto
      have "cell_at blocked gx y" if "gy \<le> y" "y < e" for y
        using e(4) that True by (cases "y = gy") auto
      moreover have "column_run blocked d gx gy = Some e"
        using True e(1) less.prems assms by (subst column_run.simps) (simp add: in_grid_def)
      ultimately show ?thesis using e by auto
    next
      case False
      then have "column_run blocked d gx gy = Some gy"
        using less.prems assms by (subst column_run.simps) (auto simp: in_grid_def)
      with False less.prems show ?thesis by auto
    qed
  qed
  with that show ?thesis by blast
qed

lemma fold_insert_column: "fold (\<lambda>y. insert (x, y)) ys U = U \<union> Pair x ` set ys"
  by (induction ys arbitrary: U) auto

text \<open>A run that starts inside another one, or right behind it, cannot be: runs do not overlap.\<close>

lemma is_run_next:
  assumes "is_run blocked d x a b" and "is_run blocked d x y1 y2" and "a \<le> y1"
  shows "(y1, y2) = (a, b) \<or> b + 1 \<le> y1"
proof -
  have "y1 = a \<or> b < y1"
    using assms unfolding is_run_def by (smt (verit))
  moreover have "y2 = b" if "y1 = a"
    using assms that unfolding is_run_def by (smt (verit))
  ultimately show ?thesis by auto
qed

text \<open>One column: exactly its maximal runs from \<open>gy\<close> on are emitted, exactly its blocked cells marked.\<close>

lemma column_scan_spec:
  assumes wf: "wf_grid d d blocked" and gx: "0 \<le> gx" "gx < d"
    and "0 \<le> gy" and "gy = 0 \<or> \<not> cell_at blocked gx (gy - 1) \<or> gy \<ge> d \<or> \<not> cell_at blocked gx gy"
    and "\<And>y. gy \<le> y \<Longrightarrow> (gx, y) \<notin> used"
  shows "\<exists>ys. column_scan blocked d grid_size th gx gy (segs, used) =
      Some (segs @ map (\<lambda>(y1, y2). make_segment grid_size th (gx, y1, gx, y2)) ys,
            used \<union> {(gx, y) | y. gy \<le> y \<and> y < d \<and> cell_at blocked gx y}) \<and>
    distinct ys \<and> set ys = {(y1, y2). gy \<le> y1 \<and> is_run blocked d gx y1 y2}"
  using assms(4-6)
proof (induction "nat (d - gy)" arbitrary: gy segs used rule: less_induct)
  case less
  consider "d \<le> gy" | "gy < d" "\<not> cell_at blocked gx gy" | "gy < d" "cell_at blocked gx gy" by linarith
  then show ?case
  proof cases
    case 1
    then have "column_scan blocked d grid_size th gx gy (segs, used) = Some (segs, used)"
      by (subst column_scan.simps) simp
    with 1 show ?thesis by (intro exI [of _ "[]"]) (auto simp: is_run_def)
  next
    case 2
    then have "column_scan blocked d grid_size th gx gy (segs, used) = column_scan blocked d grid_size th gx (gy + 1) (segs, used)"
      using wf gx less.prems by (subst column_scan.simps) (simp add: in_grid_def)
    moreover obtain ys where "column_scan blocked d grid_size th gx (gy + 1) (segs, used) =
        Some (segs @ map (\<lambda>(y1, y2). make_segment grid_size th (gx, y1, gx, y2)) ys,
            used \<union> {(gx, y) | y. gy + 1 \<le> y \<and> y < d \<and> cell_at blocked gx y})"
      "distinct ys" "set ys = {(y1, y2). gy + 1 \<le> y1 \<and> is_run blocked d gx y1 y2}"
      using less.hyps [of "gy + 1" used segs] 2 less.prems by auto
    moreover have "gy \<le> y \<and> y < d \<and> cell_at blocked gx y \<longleftrightarrow> gy + 1 \<le> y \<and> y < d \<and> cell_at blocked gx y" for y
      using 2 by (cases "y = gy") auto
    moreover have "gy \<le> y1 \<and> is_run blocked d gx y1 y2 \<longleftrightarrow> gy + 1 \<le> y1 \<and> is_run blocked d gx y1 y2" for y1 y2
      using 2 by (cases "y1 = gy") (auto simp: is_run_def)
    ultimately show ?thesis by auto
  next
    case 3
    obtain e where e: "column_run blocked d gx gy = Some e" "gy \<le> e" "e \<le> d"
      "\<And>y. gy \<le> y \<Longrightarrow> y < e \<Longrightarrow> cell_at blocked gx y" "e < d \<Longrightarrow> \<not> cell_at blocked gx e"
      using column_run_spec [OF wf gx, of gy] less.prems 3 by (metis less_imp_le)
    have "gy < e"
      using e 3 by (cases "e = gy") auto
    have run: "is_run blocked d gx gy (e - 1)"
      using e \<open>gy < e\<close> 3 less.prems by (auto simp: is_run_def)
    have runs: "gy \<le> y1 \<and> is_run blocked d gx y1 y2 \<longleftrightarrow> (y1, y2) = (gy, e - 1) \<or> (e \<le> y1 \<and> is_run blocked d gx y1 y2)" for y1 y2
      using is_run_next [OF run, of y1 y2] run \<open>gy < e\<close> by auto
    let ?used = "used \<union> Pair gx ` {gy..<e}"
    let ?segs = "segs @ [make_segment grid_size th (gx, gy, gx, e - 1)]"
    have step: "column_scan blocked d grid_size th gx gy (segs, used) =
        column_scan blocked d grid_size th gx e (?segs, ?used)"
      using wf gx less.prems 3 e(1)
      by (subst column_scan.simps) (simp add: in_grid_def fold_insert_column)
    obtain ys where ys: "column_scan blocked d grid_size th gx e (?segs, ?used) =
        Some (?segs @ map (\<lambda>(y1, y2). make_segment grid_size th (gx, y1, gx, y2)) ys,
            ?used \<union> {(gx, y) | y. e \<le> y \<and> y < d \<and> cell_at blocked gx y})"
      "distinct ys" "set ys = {(y1, y2). e \<le> y1 \<and> is_run blocked d gx y1 y2}"
      using less.hyps [of e ?used ?segs] \<open>gy < e\<close> e less.prems 3 by fastforce
    have "?used \<union> {(gx, y) | y. e \<le> y \<and> y < d \<and> cell_at blocked gx y} =
        used \<union> {(gx, y) | y. gy \<le> y \<and> y < d \<and> cell_at blocked gx y}"
      using e \<open>gy < e\<close> by (auto simp: image_iff)
    then show ?thesis
      using step ys \<open>gy < e\<close> runs by (intro exI [of _ "(gy, e - 1) # ys"]) (auto simp: is_run_def)
  qed
qed

section \<open>The whole pass\<close>

lemma column_pass_spec:
  assumes wf: "wf_grid d d blocked" and "distinct xs" and "set xs \<subseteq> {0..<d}"
    and "\<And>x y. x \<in> set xs \<Longrightarrow> (x, y) \<notin> used"
  shows "\<exists>qs. for_each xs (\<lambda>gx. column_scan blocked d grid_size th gx 0) (segs, used) =
      Some (segs @ map (make_segment grid_size th) qs,
            used \<union> {(x, y). x \<in> set xs \<and> 0 \<le> y \<and> y < d \<and> cell_at blocked x y}) \<and>
    distinct qs \<and> set qs = {(x, y1, x, y2) | x y1 y2. x \<in> set xs \<and> is_run blocked d x y1 y2}"
  using assms(2-4)
proof (induction xs arbitrary: segs used)
  case Nil
  then show ?case by (intro exI [of _ "[]"]) simp
next
  case (Cons x xs)
  obtain ys where ys: "column_scan blocked d grid_size th x 0 (segs, used) =
      Some (segs @ map (\<lambda>(y1, y2). make_segment grid_size th (x, y1, x, y2)) ys,
            used \<union> {(x, y) | y. 0 \<le> y \<and> y < d \<and> cell_at blocked x y})"
    "distinct ys" "set ys = {(y1, y2). 0 \<le> y1 \<and> is_run blocked d x y1 y2}"
    using column_scan_spec [OF wf, of x 0 used grid_size th segs] Cons.prems by auto
  let ?segs = "segs @ map (\<lambda>(y1, y2). make_segment grid_size th (x, y1, x, y2)) ys"
  let ?used = "used \<union> {(x, y) | y. 0 \<le> y \<and> y < d \<and> cell_at blocked x y}"
  obtain qs where qs: "for_each xs (\<lambda>gx. column_scan blocked d grid_size th gx 0) (?segs, ?used) =
      Some (?segs @ map (make_segment grid_size th) qs,
            ?used \<union> {(x, y). x \<in> set xs \<and> 0 \<le> y \<and> y < d \<and> cell_at blocked x y})"
    "distinct qs" "set qs = {(x, y1, x, y2) | x y1 y2. x \<in> set xs \<and> is_run blocked d x y1 y2}"
  proof -
    have "distinct xs" "set xs \<subseteq> {0..<d}" "\<And>x' y. x' \<in> set xs \<Longrightarrow> (x', y) \<notin> ?used"
      using Cons.prems by auto
    from Cons.IH [OF this, of ?segs] that show thesis by blast
  qed
  let ?new = "map (\<lambda>(y1, y2). (x, y1, x, y2)) ys"
  have "distinct ?new"
    using ys(2) by (auto simp: distinct_map inj_on_def)
  moreover have "map (make_segment grid_size th) ?new = map (\<lambda>(y1, y2). make_segment grid_size th (x, y1, x, y2)) ys"
    by auto
  moreover have "set ?new = {(x, y1, x, y2) | y1 y2. is_run blocked d x y1 y2}"
    using ys(3) by (auto simp: is_run_def image_iff)
  ultimately show ?case
    using ys(1) qs Cons.prems(1) by (intro exI [of _ "?new @ qs"]) auto
qed

text \<open>A row whose blocked cells are all covered is left alone.\<close>

lemma row_scan_covered:
  assumes "wf_grid d d blocked" and "0 \<le> gy" "gy < d" and "0 \<le> gx"
    and "\<And>x y. in_grid d d x y \<Longrightarrow> cell_at blocked x y \<Longrightarrow> (x, y) \<in> snd state"
  shows "row_scan blocked d grid_size th gy gx state = Some state"
  using assms(4)
proof (induction "nat (d - gx)" arbitrary: gx rule: less_induct)
  case less
  show ?case
    using less.hyps [of "gx + 1"] less.prems assms
    by (subst row_scan.simps) (auto simp: in_grid_def)
qed

lemma blocked_to_wall_segments_runs:
  assumes "wf_grid d d blocked"
  shows "\<exists>qs. blocked_to_wall_segments blocked d grid_size th = Some (map (make_segment grid_size th) qs) \<and>
    distinct qs \<and> set qs = vertical_runs blocked d"
proof -
  obtain qs where qs: "for_each (py_range 0 d) (\<lambda>gx. column_scan blocked d grid_size th gx 0) ([], {}) =
      Some (map (make_segment grid_size th) qs, {(x, y). x \<in> {0..<d} \<and> 0 \<le> y \<and> y < d \<and> cell_at blocked x y})"
    "distinct qs" "set qs = {(x, y1, x, y2) | x y1 y2. x \<in> {0..<d} \<and> is_run blocked d x y1 y2}"
    using column_pass_spec [OF assms, of "py_range 0 d" "{}" grid_size th "[]"] by auto
  let ?state = "(map (make_segment grid_size th) qs, {(x, y). x \<in> {0..<d} \<and> 0 \<le> y \<and> y < d \<and> cell_at blocked x y})"
  have "for_each (py_range 0 d) (\<lambda>gy. row_scan blocked d grid_size th gy 0) ?state = Some ?state"
    using for_each_inv [of "\<lambda>s. s = ?state" ?state "py_range 0 d" "\<lambda>gy. row_scan blocked d grid_size th gy 0"]
      row_scan_covered [OF assms, of _ 0 ?state] by (auto simp: in_grid_def)
  with qs show ?thesis
    by (auto simp: blocked_to_wall_segments_def vertical_runs_def)
qed

text \<open>Every blocked cell lies on one vertical run, and only blocked cells do.\<close>

lemma run_through_cell:
  assumes "in_grid d d x y"
  shows "cell_at blocked x y \<longleftrightarrow> (\<exists>y1 y2. is_run blocked d x y1 y2 \<and> y1 \<le> y \<and> y \<le> y2)"
proof
  assume "cell_at blocked x y"
  define up where "up = (\<lambda>m. y + int m < d \<and> (\<forall>y'. y \<le> y' \<and> y' \<le> y + int m \<longrightarrow> cell_at blocked x y'))"
  define dn where "dn = (\<lambda>m. 0 \<le> y - int m \<and> (\<forall>y'. y - int m \<le> y' \<and> y' \<le> y \<longrightarrow> cell_at blocked x y'))"
  have "up 0" "dn 0"
    using \<open>cell_at blocked x y\<close> assms by (auto simp: up_def dn_def in_grid_def dest!: order_antisym)
  moreover have "\<And>m. up m \<Longrightarrow> m \<le> nat d" "\<And>m. dn m \<Longrightarrow> m \<le> nat y"
    using assms by (auto simp: up_def dn_def in_grid_def)
  ultimately obtain m k where m: "up m" "\<not> up (Suc m)" and k: "dn k" "\<not> dn (Suc k)"
    by (metis Suc_n_not_le_n nat_induct)
  have "y + int m = d - 1 \<or> \<not> cell_at blocked x (y + int m + 1)"
    using m unfolding up_def by (auto simp: not_less) (smt (verit))
  moreover have "y - int k = 0 \<or> \<not> cell_at blocked x (y - int k - 1)"
    using k unfolding dn_def by (auto simp: not_le) (smt (verit))
  moreover have cells: "cell_at blocked x y'" if "y - int k \<le> y'" "y' \<le> y + int m" for y'
    using m(1) k(1) that unfolding up_def dn_def by (cases "y' \<le> y") auto
  ultimately have "is_run blocked d x (y - int k) (y + int m)"
    using m(1) k(1) assms cells unfolding is_run_def up_def dn_def by (auto simp: in_grid_def)
  then show "\<exists>y1 y2. is_run blocked d x y1 y2 \<and> y1 \<le> y \<and> y \<le> y2"
    by (intro exI [of _ "y - int k"] exI [of _ "y + int m"]) simp
qed (auto simp: is_run_def)

section \<open>Property\<close>

text \<open>C30: The wall segments are exactly the maximal vertical runs of blocked cells, each once, with their end points
  at the rounded cell centres; no horizontal segment is ever emitted.\<close>

theorem wall_segments_are_vertical_runs:
  assumes "wf_grid d d blocked"
  shows "\<exists>qs. blocked_to_wall_segments blocked d grid_size th = Some (map (make_segment grid_size th) qs) \<and>
    distinct qs \<and> set qs = vertical_runs blocked d \<and>
    {(x, y). in_grid d d x y \<and> cell_at blocked x y} =
    {(x, y) | x y y1 y2. (x, y1, x, y2) \<in> set qs \<and> y1 \<le> y \<and> y \<le> y2} \<and>
    (\<forall>q \<in> set qs. seg_x1 (make_segment grid_size th q) = seg_x2 (make_segment grid_size th q))"
proof -
  obtain qs where qs: "blocked_to_wall_segments blocked d grid_size th = Some (map (make_segment grid_size th) qs)"
    "distinct qs" "set qs = vertical_runs blocked d"
    using blocked_to_wall_segments_runs [OF assms] by blast
  have "{(x, y). in_grid d d x y \<and> cell_at blocked x y} =
      {(x, y) | x y y1 y2. (x, y1, x, y2) \<in> set qs \<and> y1 \<le> y \<and> y \<le> y2}"
    using run_through_cell [of d _ _ blocked] unfolding qs(3) vertical_runs_def
    by (fastforce simp: in_grid_def is_run_def)
  moreover have "seg_x1 (make_segment grid_size th q) = seg_x2 (make_segment grid_size th q)" if "q \<in> set qs" for q
    using that unfolding qs(3) vertical_runs_def by (auto simp: make_segment_def)
  ultimately show ?thesis using qs by blast
qed

theorem wall_segments_are_vertical_runs_witness:
  "(let blocked = [[True, True, True], [True, False, False], [True, False, True]] in
    map_option (map (\<lambda>s. (seg_x1 s, seg_y1 s, seg_x2 s, seg_y2 s))) (blocked_to_wall_segments blocked 3 10 1) =
      Some [(5, 5, 5, 25), (15, 5, 15, 5), (25, 5, 25, 5), (25, 25, 25, 25)] \<and>
    card (vertical_runs blocked 3) = 4)"
proof -
  let ?b = "[[True, True, True], [True, False, False], [True, False, True]]"
  have run: "map_option (map (\<lambda>s. (seg_x1 s, seg_y1 s, seg_x2 s, seg_y2 s))) (blocked_to_wall_segments ?b 3 10 1) =
      Some [(5, 5, 5, 25), (15, 5, 15, 5), (25, 5, 25, 5), (25, 25, 25, 25)]" by code_simp
  have "wf_grid 3 3 ?b" by code_simp
  from wall_segments_are_vertical_runs [OF this, of 10 1] obtain qs where
    qs: "blocked_to_wall_segments ?b 3 10 1 = Some (map (make_segment 10 1) qs)" "distinct qs"
      "set qs = vertical_runs ?b 3" by blast
  with run have "length qs = 4" by (auto dest: arg_cong [of _ _ length])
  with qs distinct_card [OF qs(2)] run show ?thesis by simp
qed

end
