(* ===== verification/PyText.thy ===== *)
theory PyText
  imports Prelude "HOL-Library.Word"
begin

text \<open>
  The text operations the model shares: decimal and hexadecimal notation, stripping, splitting,
  searching and \<open>int(s)\<close>. A Python \<open>str\<close> is a list of characters; characters beyond Latin-1 do not
  occur in the model.
\<close>

section \<open>Decimal notation\<close>

definition digit_char :: "nat \<Rightarrow> char" where
  "digit_char k = char_of (48 + k)"

definition is_digit :: "char \<Rightarrow> bool" where
  "is_digit c \<longleftrightarrow> 48 \<le> (of_char c :: nat) \<and> (of_char c :: nat) \<le> 57"

definition digit_val :: "char \<Rightarrow> nat" where
  "digit_val c = of_char c - 48"

fun str_nat :: "nat \<Rightarrow> string" where
  "str_nat n = (if n < 10 then [digit_char n] else str_nat (n div 10) @ [digit_char (n mod 10)])"

declare str_nat.simps [simp del]

definition str_int :: "int \<Rightarrow> string" where
  "str_int i = (if i < 0 then CHR ''-'' # str_nat (nat (- i)) else str_nat (nat i))"

text \<open>Reading digits back.\<close>

definition val_digits :: "string \<Rightarrow> nat" where
  "val_digits = foldl (\<lambda>n c. 10 * n + digit_val c) 0"

lemma digit_char_val [simp]: "k < 10 \<Longrightarrow> digit_val (digit_char k) = k"
  by (simp add: digit_val_def digit_char_def)

lemma is_digit_char [simp]: "k < 10 \<Longrightarrow> is_digit (digit_char k)"
  by (simp add: is_digit_def digit_char_def)

lemma val_str_nat [simp]: "val_digits (str_nat n) = n"
proof (induction n rule: str_nat.induct)
  case (1 n)
  then show ?case
    by (simp add: str_nat.simps [of n] val_digits_def)
qed

lemma str_nat_digits: "c \<in> set (str_nat n) \<Longrightarrow> is_digit c"
proof (induction n rule: str_nat.induct)
  case (1 n)
  then show ?case by (auto simp: str_nat.simps [of n] split: if_splits)
qed

lemma str_nat_not_Nil [simp]: "str_nat n \<noteq> []"
  by (simp add: str_nat.simps [of n])

lemma str_nat_inj: "str_nat m = str_nat n \<longleftrightarrow> m = n"
  by (metis val_str_nat)

lemma minus_not_digit: "\<not> is_digit (CHR ''-'')"
  by (simp add: is_digit_def)

lemma str_int_inj: "str_int i = str_int j \<longleftrightarrow> i = j"
proof
  have sign: "hd (str_nat n) \<noteq> CHR ''-''" for n
    using str_nat_digits [of "hd (str_nat n)" n] minus_not_digit by auto
  assume eq: "str_int i = str_int j"
  then have "i < 0 \<longleftrightarrow> j < 0"
    using sign [of "nat i"] sign [of "nat j"] by (auto simp: str_int_def split: if_splits) (metis list.sel(1))+
  with eq show "i = j"
    by (auto simp: str_int_def str_nat_inj split: if_splits)
qed simp

section \<open>Hexadecimal notation of bytes\<close>

definition hex_digit :: "nat \<Rightarrow> char" where
  "hex_digit k = (if k < 10 then char_of (48 + k) else char_of (87 + k))"

text \<open>\<open>bytes.hex()\<close>\<close>

definition hex_bytes :: "8 word list \<Rightarrow> string" where
  "hex_bytes bs = concat (map (\<lambda>b. [hex_digit (unat b div 16), hex_digit (unat b mod 16)]) bs)"

lemma length_hex_bytes [simp]: "length (hex_bytes bs) = 2 * length bs"
  by (induction bs) (simp_all add: hex_bytes_def)

lemma hex_bytes_Nil [simp]: "hex_bytes [] = []"
  by (simp add: hex_bytes_def)

lemma hex_bytes_Cons: "hex_bytes (b # bs) = hex_digit (unat b div 16) # hex_digit (unat b mod 16) # hex_bytes bs"
  by (simp add: hex_bytes_def)

section \<open>Stripping and searching\<close>

text \<open>The whitespace of \<open>str.strip()\<close> among the ASCII characters, and that of \<open>bytes.strip()\<close>.\<close>

definition py_space :: "char \<Rightarrow> bool" where
  "py_space c \<longleftrightarrow> (of_char c :: nat) \<in> {9, 10, 11, 12, 13, 28, 29, 30, 31, 32}"

definition byte_space :: "char \<Rightarrow> bool" where
  "byte_space c \<longleftrightarrow> (of_char c :: nat) \<in> {9, 10, 11, 12, 13, 32}"

definition strip_by :: "(char \<Rightarrow> bool) \<Rightarrow> string \<Rightarrow> string" where
  "strip_by P s = rev (dropWhile P (rev (dropWhile P s)))"

definition strip :: "string \<Rightarrow> string" where
  "strip = strip_by py_space"

text \<open>\<open>s.strip('x')\<close>\<close>

definition strip_char :: "char \<Rightarrow> string \<Rightarrow> string" where
  "strip_char c = strip_by (\<lambda>d. d = c)"

lemma strip_by_Nil_iff: "strip_by P s = [] \<longleftrightarrow> (\<forall>c \<in> set s. P c)"
  by (induction s) (auto simp: strip_by_def dropWhile_eq_Nil_conv)

lemma strip_by_idem_iff: "strip_by P s = s \<longleftrightarrow> s = [] \<or> \<not> P (hd s) \<and> \<not> P (last s)"
proof
  assume eq: "strip_by P s = s"
  show "s = [] \<or> \<not> P (hd s) \<and> \<not> P (last s)"
  proof (cases s)
    case (Cons c cs)
    have "length (strip_by P s) \<le> length (dropWhile P s)"
      using length_dropWhile_le [of P "rev (dropWhile P s)"] by (simp add: strip_by_def)
    moreover have "length (dropWhile P s) \<le> length s" by (rule length_dropWhile_le)
    ultimately have len: "length (dropWhile P s) = length s" using eq by simp
    then have "dropWhile P s = s" by (metis append_eq_append_conv append_Nil takeWhile_dropWhile_id)
    moreover from this have "\<not> P (hd s)" using Cons hd_dropWhile [of P s] by auto
    moreover have "rev (dropWhile P (rev s)) = s" using eq \<open>dropWhile P s = s\<close> by (simp add: strip_by_def)
    then have "dropWhile P (rev s) = rev s" by (metis rev_rev_ident)
    then have "\<not> P (hd (rev s))" using Cons hd_dropWhile [of P "rev s"] by (metis list.discI rev_is_Nil_conv)
    ultimately show ?thesis by (metis hd_rev)
  qed simp
next
  assume "s = [] \<or> \<not> P (hd s) \<and> \<not> P (last s)"
  then show "strip_by P s = s"
  proof
    assume e: "\<not> P (hd s) \<and> \<not> P (last s)"
    show ?thesis
    proof (cases s)
      case (Cons c cs)
      with e have "dropWhile P s = s" by simp
      moreover have "dropWhile P (rev s) = rev s"
        using e Cons by (cases "rev s") (auto simp: hd_rev [symmetric])
      ultimately show ?thesis by (simp add: strip_by_def)
    qed (simp add: strip_by_def)
  qed (simp add: strip_by_def)
qed

text \<open>\<open>s.find(c)\<close> for one character: the position, or \<open>None\<close> for -1.\<close>

definition find_char :: "char \<Rightarrow> string \<Rightarrow> nat option" where
  "find_char c s = (if c \<in> set s then Some (length (takeWhile (\<lambda>d. d \<noteq> c) s)) else None)"

text \<open>\<open>sub in s\<close> and \<open>s.startswith(p)\<close>\<close>

fun has_prefix :: "string \<Rightarrow> string \<Rightarrow> bool" where
  "has_prefix [] s = True"
| "has_prefix (c # p) [] = False"
| "has_prefix (c # p) (d # s) = (c = d \<and> has_prefix p s)"

fun has_substring :: "string \<Rightarrow> string \<Rightarrow> bool" where
  "has_substring p [] = (p = [])"
| "has_substring p (c # s) = (has_prefix p (c # s) \<or> has_substring p s)"

lemma has_prefix_iff: "has_prefix p s \<longleftrightarrow> (\<exists>t. s = p @ t)"
  by (induction p s rule: has_prefix.induct) auto

lemma has_substring_iff: "has_substring p s \<longleftrightarrow> (\<exists>l r. s = l @ p @ r)"
proof (induction s)
  case Nil
  show ?case by simp
next
  case (Cons c s)
  show ?case (is "?l \<longleftrightarrow> ?r")
  proof
    assume ?l
    then show ?r
    proof (simp only: has_substring.simps, elim disjE)
      assume "has_prefix p (c # s)"
      then show ?r by (metis append_Nil has_prefix_iff)
    next
      assume "has_substring p s"
      with Cons.IH show ?r by (metis append_Cons)
    qed
  next
    assume ?r
    then obtain l r where lr: "c # s = l @ p @ r" by blast
    show ?l
    proof (cases l)
      case Nil
      with lr have "has_prefix p (c # s)" unfolding has_prefix_iff by auto
      then show ?thesis by simp
    next
      case (Cons x l')
      with lr Cons.IH show ?thesis by auto
    qed
  qed
qed

text \<open>\<open>value.partition(sep)\<close>; the flag tells whether the separator was there.\<close>

definition partition_at :: "char \<Rightarrow> string \<Rightarrow> string \<times> bool \<times> string" where
  "partition_at sep v = (takeWhile (\<lambda>c. c \<noteq> sep) v, sep \<in> set v, tl (dropWhile (\<lambda>c. c \<noteq> sep) v))"

lemma partition_join: "sep \<notin> set k \<Longrightarrow> partition_at sep (k @ sep # v) = (k, True, v)"
  by (induction k) (auto simp: partition_at_def)

lemma partition_parts:
  assumes "partition_at sep v = (k, True, w)"
  shows "v = k @ sep # w \<and> sep \<notin> set k"
proof -
  have "sep \<in> set v" "k = takeWhile (\<lambda>c. c \<noteq> sep) v" "w = tl (dropWhile (\<lambda>c. c \<noteq> sep) v)"
    using assms by (auto simp: partition_at_def)
  moreover have "dropWhile (\<lambda>c. c \<noteq> sep) v \<noteq> []" "hd (dropWhile (\<lambda>c. c \<noteq> sep) v) = sep"
    using calculation(1) hd_dropWhile [of "\<lambda>c. c \<noteq> sep" v] by (auto simp: dropWhile_eq_Nil_conv)
  ultimately show ?thesis
    by (metis list.collapse set_takeWhileD takeWhile_dropWhile_id)
qed

section \<open>Lines\<close>

text \<open>Lines with their line feed, as iterating over a binary file gives them.\<close>

fun lines_keep :: "string \<Rightarrow> string list" where
  "lines_keep [] = []"
| "lines_keep (c # s) =
     (if c = CHR 0x0A then [c] # lines_keep s
      else case lines_keep s of [] \<Rightarrow> [[c]] | l # ls \<Rightarrow> (c # l) # ls)"

lemma concat_lines_keep [simp]: "concat (lines_keep s) = s"
  by (induction s) (auto split: list.splits)

lemma lines_keep_Nil_iff [simp]: "lines_keep s = [] \<longleftrightarrow> s = []"
  by (cases s) (auto split: list.splits)

text \<open>A text that ends in a line feed splits independently of what follows.\<close>

lemma lines_keep_append:
  "s = [] \<or> last s = CHR 0x0A \<Longrightarrow> lines_keep (s @ t) = lines_keep s @ lines_keep t"
proof (induction s)
  case Nil
  then show ?case by simp
next
  case (Cons c s)
  show ?case
  proof (cases s)
    case Nil
    with Cons.prems show ?thesis by simp
  next
    case (Cons d s')
    with Cons.prems Cons.IH have "lines_keep (s @ t) = lines_keep s @ lines_keep t" by simp
    moreover obtain l ls where "lines_keep s = l # ls" using Cons lines_keep_Nil_iff by (metis list.exhaust list.discI)
    ultimately show ?thesis using Cons by simp
  qed
qed

lemma lines_keep_line: "l \<in> set (lines_keep s) \<Longrightarrow> l \<noteq> [] \<and> CHR 0x0A \<notin> set (butlast l)"
  by (induction s arbitrary: l) (auto split: if_splits list.splits)

lemma lines_keep_ends: "l \<in> set (butlast (lines_keep s)) \<Longrightarrow> last l = CHR 0x0A"
proof (induction s arbitrary: l)
  case (Cons c s)
  show ?case
  proof (cases "c = CHR 0x0A \<or> lines_keep s = []")
    case True
    with Cons show ?thesis by (auto split: if_splits)
  next
    case False
    then obtain k ks where k: "lines_keep s = k # ks" by (cases "lines_keep s") auto
    then have "k \<noteq> []" using lines_keep_line [of k s] by simp
    with Cons False k show ?thesis by (cases "ks = []") auto
  qed
qed simp

lemma lines_keep_before:
  assumes "lines_keep s = pre @ line # post" and "pre \<noteq> []"
  shows "last (concat pre) = CHR 0x0A"
proof -
  have "last pre \<in> set (butlast (lines_keep s))" "last pre \<in> set (lines_keep s)"
    using assms by (auto simp: butlast_append)
  then have "last (last pre) = CHR 0x0A" "last pre \<noteq> []" using lines_keep_ends lines_keep_line by blast+
  then show ?thesis using assms(2) by (metis concat_append concat.simps append_butlast_last_id append_Nil2 last_appendR)
qed

section \<open>Reading integers\<close>

text \<open>
  \<open>int(s)\<close>: surrounding whitespace, an optional sign, and digits with single underscores between
  them; anything else raises \<open>ValueError\<close>.
\<close>

fun group_digits :: "string \<Rightarrow> string option" where
  "group_digits [] = None"
| "group_digits [c] = (if is_digit c then Some [c] else None)"
| "group_digits (c # d # s) =
     (if \<not> is_digit c then None
      else if d = CHR ''_'' then map_option (Cons c) (group_digits s)
      else map_option (Cons c) (group_digits (d # s)))"

definition parse_int :: "string \<Rightarrow> int option" where
  "parse_int s =
     (case strip s of [] \<Rightarrow> None
      | c # t \<Rightarrow>
          if c = CHR ''-'' then map_option (\<lambda>ds. - int (val_digits ds)) (group_digits t)
          else if c = CHR ''+'' then map_option (\<lambda>ds. int (val_digits ds)) (group_digits t)
          else map_option (\<lambda>ds. int (val_digits ds)) (group_digits (c # t)))"

lemma group_digits_digits: "s \<noteq> [] \<Longrightarrow> (\<And>c. c \<in> set s \<Longrightarrow> is_digit c) \<Longrightarrow> group_digits s = Some s"
proof (induction s rule: group_digits.induct)
  case (3 c d s)
  moreover have "d \<noteq> CHR ''_''" using "3.prems"(2) [of d] by (auto simp: is_digit_def)
  ultimately show ?case by simp
qed auto

lemma digit_not_space: "is_digit c \<Longrightarrow> \<not> py_space c"
  by (auto simp: is_digit_def py_space_def)

text \<open>Reading back what \<open>str\<close> prints.\<close>

lemma parse_str_int [simp]: "parse_int (str_int i) = Some i"
proof -
  have strip_nat: "strip (pre @ str_nat n) = pre @ str_nat n" if "pre = [] \<or> pre = ''-''" for pre n
  proof -
    have ne: "str_nat n \<noteq> []" and dig: "\<And>c. c \<in> set (str_nat n) \<Longrightarrow> \<not> py_space c"
      using digit_not_space str_nat_digits by auto
    have "\<not> py_space (hd (pre @ str_nat n))"
      using that ne dig [of "hd (str_nat n)"] by (auto simp: py_space_def)
    moreover have "\<not> py_space (last (pre @ str_nat n))" using ne dig by simp
    ultimately show ?thesis by (simp add: strip_def strip_by_idem_iff)
  qed
  have grp: "group_digits (str_nat n) = Some (str_nat n)" for n
    using group_digits_digits [of "str_nat n"] str_nat_digits by auto
  show ?thesis
  proof (cases "i < 0")
    case True
    with strip_nat [of "''-''" "nat (- i)"] grp show ?thesis by (simp add: parse_int_def str_int_def)
  next
    case False
    obtain c t where ct: "str_nat (nat i) = c # t" by (cases "str_nat (nat i)") auto
    then have "is_digit c" using str_nat_digits [of c "nat i"] by simp
    then have "c \<noteq> CHR ''-''" "c \<noteq> CHR ''+''" by (auto simp: is_digit_def)
    with False strip_nat [of "[]" "nat i"] grp [of "nat i"] ct show ?thesis
      by (simp add: parse_int_def str_int_def) (metis val_str_nat int_nat_eq not_less)
  qed
qed

end
