(* ===== verification/GenerateMap.thy ===== *)
theory GenerateMap
  imports OpenWalls Connectivity WallSegments PyText
begin

text \<open>
  \<open>generate_map\<close> and \<open>generate_reachable_map\<close>: one map from one seed, and the retry loop around
  it. The state of Python's generator for a seed and the iteration order of Python sets are
  parameters of the model (\<open>rng_of_seed\<close>, \<open>order\<close>); lengths in centimetres are exact rationals.
\<close>

section \<open>Parameters and results\<close>

record map_params =
  param_grid_dim :: int
  param_grid_size :: int
  param_wall_thickness :: int
  param_extra_open_ratio :: rat
  param_start_end_mode :: string
  param_fixed_start :: "rat \<times> rat"
  param_fixed_end :: "rat \<times> rat"
  param_min_distance :: int
  param_room_size :: int
  param_room_obstacle_density :: rat

record map_data =
  map_id :: string
  map_seed :: int
  difficulty :: int
  grid_cols :: int
  grid_rows :: int
  grid_size :: rat
  room_size :: int
  room_dim :: int
  bounds :: "int \<times> int \<times> int \<times> int"
  start_pos :: "rat \<times> rat"
  end_pos :: "rat \<times> rat"
  start_grid :: cell
  goal_grid :: cell
  blocked_bitmap_encoding :: string
  blocked_bitmap_hex :: string
  map_wall_count :: nat
  map_walls :: "wall_segment list"

text \<open>\<open>generate_map\<close> returns a tuple of four without a map, or of seven with one.\<close>

datatype map_result =
    No_Map wall_edge_set
  | Map map_data wall_edge_set bool int "bool grid" int rat

section \<open>Dimensions and end points\<close>

definition floordiv :: "int \<Rightarrow> int \<Rightarrow> int option" where
  "floordiv a b = (if b = 0 then None else Some (a div b))"

definition truediv :: "rat \<Rightarrow> rat \<Rightarrow> rat option" where
  "truediv a b = (if b = 0 then None else Some (a / b))"

text \<open>\<open>room_dim\<close>, \<open>out_dim\<close>, \<open>map_size\<close> and \<open>out_grid_size\<close>\<close>

definition map_dims :: "int \<Rightarrow> int \<Rightarrow> int \<Rightarrow> (int \<times> int \<times> int \<times> rat) option" where
  "map_dims g_dim g_size r_size = do {
     let stride = r_size + 1;
     q \<leftarrow> floordiv g_dim stride;
     let r_dim = (if q < 2 then 2 else q);
     let out_dim = r_dim * stride + 1;
     let map_size = g_dim * g_size;
     out_grid_size \<leftarrow> truediv (of_int map_size) (of_int out_dim);
     Some (r_dim, out_dim, map_size, out_grid_size)
   }"

definition clamp_room :: "int \<Rightarrow> int \<Rightarrow> int \<Rightarrow> int" where
  "clamp_room r_dim stride g = max 0 (min (r_dim - 1) ((g - 1) div stride))"

text \<open>The three modes; \<open>None\<close> inside is the early return of the random mode.\<close>

definition choose_end_points ::
    "map_params \<Rightarrow> int \<Rightarrow> rat \<Rightarrow> rng \<Rightarrow> ((int \<times> int \<times> int \<times> int) option \<times> rng) option" where
  "choose_end_points p r_dim out_grid_size r = (
     let stride = param_room_size p + 1 in
     if param_start_end_mode p = ''fixed''
     then do {
       sx \<leftarrow> truediv (fst (param_fixed_start p)) out_grid_size;
       sy \<leftarrow> truediv (snd (param_fixed_start p)) out_grid_size;
       ex \<leftarrow> truediv (fst (param_fixed_end p)) out_grid_size;
       ey \<leftarrow> truediv (snd (param_fixed_end p)) out_grid_size;
       Some (Some (clamp_room r_dim stride (py_int sx), clamp_room r_dim stride (py_int sy),
                   clamp_room r_dim stride (py_int ex), clamp_room r_dim stride (py_int ey)), r)
     }
     else if param_start_end_mode p = ''random''
     then generate_random_start_end r_dim (param_min_distance p) r
     else Some (Some (0, 0, r_dim - 1, r_dim - 1), r))"

section \<open>One map\<close>

text \<open>Walls to the final blocked grid: safe zones, expansion, obstacles, cleared end points.\<close>

definition build_blocked ::
    "map_params \<Rightarrow> wall_edge_set \<Rightarrow> int \<Rightarrow> int \<Rightarrow> int \<times> int \<times> int \<times> int \<Rightarrow> rng \<Rightarrow>
      (wall_edge_set \<times> bool grid \<times> cell \<times> cell) option" where
  "build_blocked p edge_set r_dim out_dim = (\<lambda>(start_rx, start_ry, end_rx, end_ry) r.
     let k = param_room_size p;
         stride = k + 1;
         edge_set = clear_safe_zone edge_set r_dim start_rx start_ry 1;
         edge_set = clear_safe_zone edge_set r_dim end_rx end_ry 1 in do {
       (blocked, _) \<leftarrow> edges_to_blocked_grid edge_set r_dim k;
       let start_gx = start_rx * stride + 1 + k div 2;
       let start_gy = start_ry * stride + 1 + k div 2;
       let end_gx = end_rx * stride + 1 + k div 2;
       let end_gy = end_ry * stride + 1 + k div 2;
       (blocked, _) \<leftarrow>
         (if param_room_obstacle_density p > 0 \<and> k \<ge> 2
          then add_room_obstacles blocked r_dim k (param_room_obstacle_density p) r
                 start_rx start_ry end_rx end_ry 1
          else Some (blocked, r));
       blocked \<leftarrow> clear_blocked_safe_zone blocked out_dim start_gx start_gy 1;
       blocked \<leftarrow> clear_blocked_safe_zone blocked out_dim end_gx end_gy 1;
       Some (edge_set, blocked, (start_gx, start_gy), (end_gx, end_gy))
     })"

definition generate_map ::
    "(edge set \<Rightarrow> edge list) \<Rightarrow> (int \<Rightarrow> rng) \<Rightarrow> map_params \<Rightarrow> int \<Rightarrow> map_result option" where
  "generate_map order rng_of_seed p seed = do {
     (r_dim, out_dim, map_size, out_grid_size) \<leftarrow>
       map_dims (param_grid_dim p) (param_grid_size p) (param_room_size p);
     (edge_set, r) \<leftarrow> generate_maze_edges r_dim (rng_of_seed seed);
     (edge_set, r) \<leftarrow> extra_open_walls order edge_set (param_extra_open_ratio p) r;
     (ends, r) \<leftarrow> choose_end_points p r_dim out_grid_size r;
     case ends of
       None \<Rightarrow> Some (No_Map edge_set)
     | Some ends' \<Rightarrow> do {
         (edge_set, blocked, (start_gx, start_gy), (end_gx, end_gy)) \<leftarrow>
           build_blocked p edge_set r_dim out_dim ends' r;
         path_length \<leftarrow> shortest_action_steps blocked out_dim out_dim start_gx start_gy end_gx end_gy;
         bitmap \<leftarrow> blocked_bitmap_bytes blocked out_dim out_dim;
         wall_segments \<leftarrow> blocked_to_wall_segments blocked out_dim out_grid_size (param_wall_thickness p);
         Some (Map
           \<lparr>map_id = ''maze_'' @ str_int seed, map_seed = seed, difficulty = 0,
            grid_cols = out_dim, grid_rows = out_dim, grid_size = round2 out_grid_size,
            room_size = param_room_size p, room_dim = r_dim, bounds = (0, map_size, 0, map_size),
            start_pos = (centre out_grid_size start_gx, centre out_grid_size start_gy),
            end_pos = (centre out_grid_size end_gx, centre out_grid_size end_gy),
            start_grid = (start_gx, start_gy), goal_grid = (end_gx, end_gy),
            blocked_bitmap_encoding = ''row-major-u8-0-open-1-blocked'',
            blocked_bitmap_hex = hex_bytes bitmap,
            map_wall_count = length wall_segments, map_walls = wall_segments\<rparr>
           edge_set (path_length > 0) path_length blocked out_dim out_grid_size)
       }
   }"

section \<open>The retry loop\<close>

definition MAX_RETRY :: nat where
  "MAX_RETRY = 100"

datatype reachable_result =
    Reachable map_data wall_edge_set int int nat "bool grid" int
  | Exhausted int nat

text \<open>\<open>for attempt in range(MAX_RETRY)\<close>, from \<open>attempt\<close> on with \<open>fuel\<close> rounds left.\<close>

primrec reachable_loop ::
    "(int \<Rightarrow> map_result option) \<Rightarrow> int \<Rightarrow> nat \<Rightarrow> nat \<Rightarrow> reachable_result option" where
  "reachable_loop generate seed 0 attempt = Some (Exhausted seed MAX_RETRY)"
| "reachable_loop generate seed (Suc fuel) attempt = do {
     result \<leftarrow> generate (seed + int attempt);
     case result of
       No_Map edge_set \<Rightarrow> reachable_loop generate seed fuel (Suc attempt)
     | Map m edge_set reachable path_length blocked out_dim out_grid_size \<Rightarrow>
         if reachable
         then Some (Reachable m edge_set path_length (seed + int attempt) attempt blocked out_dim)
         else reachable_loop generate seed fuel (Suc attempt)
   }"

text \<open>Without a seed the clock, in milliseconds, gives one.\<close>

definition generate_reachable_map ::
    "(edge set \<Rightarrow> edge list) \<Rightarrow> (int \<Rightarrow> rng) \<Rightarrow> int \<Rightarrow> int option \<Rightarrow> map_params \<Rightarrow> reachable_result option" where
  "generate_reachable_map order rng_of_seed clock_ms seed p =
     (let seed' = (case seed of None \<Rightarrow> clock_ms mod 10 ^ 9 | Some s \<Rightarrow> s) in
      reachable_loop (generate_map order rng_of_seed p) seed' MAX_RETRY 0)"

section \<open>Every stage returns\<close>

lemma map_dims_total:
  assumes "1 \<le> k"
  obtains n where "map_dims g_dim g_size k = Some (n, n * (k + 1) + 1, g_dim * g_size, of_int (g_dim * g_size) / of_int (n * (k + 1) + 1))"
    "2 \<le> n" "n = max 2 (g_dim div (k + 1))"
proof -
  let ?n = "if g_dim div (k + 1) < 2 then 2 else g_dim div (k + 1)"
  have "0 \<le> ?n * (k + 1)" using assms by (intro mult_nonneg_nonneg) auto
  then have "(of_int (?n * (k + 1) + 1) :: rat) \<noteq> 0" by (simp only: of_int_eq_0_iff)
  then have "map_dims g_dim g_size k = Some (?n, ?n * (k + 1) + 1, g_dim * g_size, of_int (g_dim * g_size) / of_int (?n * (k + 1) + 1))"
    using assms unfolding map_dims_def Let_def floordiv_def truediv_def by simp
  with that [of ?n] show ?thesis by (auto simp: max_def)
qed

lemma clamp_room_range: "2 \<le> n \<Longrightarrow> 0 \<le> clamp_room n stride g \<and> clamp_room n stride g < n"
  by (auto simp: clamp_room_def)

lemma choose_end_points_total:
  assumes "2 \<le> n" and "param_start_end_mode p = ''fixed'' \<Longrightarrow> out_grid_size \<noteq> 0"
  obtains ends r' where "choose_end_points p n out_grid_size r = Some (ends, r')"
    "ends = None \<Longrightarrow> param_start_end_mode p = ''random''"
    "\<And>sx sy ex ey. ends = Some (sx, sy, ex, ey) \<Longrightarrow> (sx, sy) \<in> rooms n \<and> (ex, ey) \<in> rooms n"
    "param_start_end_mode p \<notin> {''fixed'', ''random''} \<Longrightarrow> ends = Some (0, 0, n - 1, n - 1)"
    "\<And>sx sy ex ey. param_start_end_mode p = ''random'' \<Longrightarrow> ends = Some (sx, sy, ex, ey) \<Longrightarrow>
       far_enough (param_min_distance p) sx sy ex ey"
    "param_start_end_mode p = ''fixed'' \<Longrightarrow>
       ends = Some (let c = (\<lambda>q. clamp_room n (param_room_size p + 1) (py_int (q / out_grid_size))) in
         (c (fst (param_fixed_start p)), c (snd (param_fixed_start p)), c (fst (param_fixed_end p)), c (snd (param_fixed_end p))))"
proof (cases "param_start_end_mode p = ''random''")
  case True
  have n: "1 \<le> n" using assms(1) by simp
  obtain result r' where
    res: "random_start_end_loop 500 n (param_min_distance p) r = Some (result, r')"
    "\<forall>sx sy ex ey. result = Some (sx, sy, ex, ey) \<longrightarrow>
       (sx, sy) \<in> rooms n \<and> (ex, ey) \<in> rooms n \<and> far_enough (param_min_distance p) sx sy ex ey"
    using random_start_end_loop_total [OF n, of 500 "param_min_distance p" r] .
  have "choose_end_points p n out_grid_size r = Some (result, r')"
    using res(1) True by (simp add: choose_end_points_def generate_random_start_end_def)
  show ?thesis
    by (rule that [OF \<open>choose_end_points p n out_grid_size r = Some (result, r')\<close>]) (use True res(2) in simp_all)
next
  case False
  show ?thesis
  proof (cases "param_start_end_mode p = ''fixed''")
    case True
    let ?c = "\<lambda>q. clamp_room n (param_room_size p + 1) (py_int (q / out_grid_size))"
    from True assms(2) have run: "choose_end_points p n out_grid_size r =
        Some (Some (?c (fst (param_fixed_start p)), ?c (snd (param_fixed_start p)),
                    ?c (fst (param_fixed_end p)), ?c (snd (param_fixed_end p))), r)"
      by (simp add: choose_end_points_def Let_def truediv_def)
    show ?thesis
      by (rule that [OF run]) (use True clamp_room_range [OF assms(1)] in \<open>simp_all add: Let_def\<close>)
  next
    case no_fixed: False
    then have run: "choose_end_points p n out_grid_size r = Some (Some (0, 0, n - 1, n - 1), r)"
      using False by (simp add: choose_end_points_def)
    show ?thesis
      by (rule that [OF run]) (use assms(1) False no_fixed in simp_all)
  qed
qed

section \<open>The blocked grid of a map\<close>

lemma adds_withinD:
  assumes "adds_within d Z b0 b"
  shows "wf_grid d d b" and "in_grid d d x y \<Longrightarrow> cell_at b0 x y \<Longrightarrow> cell_at b x y"
    and "in_grid d d x y \<Longrightarrow> cell_at b x y \<Longrightarrow> cell_at b0 x y \<or> (x, y) \<in> Z"
  using assms by (auto simp: adds_within_def)

text \<open>
  The room obstacles of a map, as a set of cells: none when the density is not positive or the
  rooms have side one.
\<close>

definition map_obstacles :: "map_params \<Rightarrow> int \<Rightarrow> cell \<Rightarrow> cell \<Rightarrow> cell set" where
  "map_obstacles p n s e =
     (if param_room_obstacle_density p > 0 \<and> param_room_size p \<ge> 2
      then obstacle_zone n (param_room_size p) (fst s) (snd s) (fst e) (snd e) 1 else {})"

definition around :: "cell \<Rightarrow> int \<Rightarrow> int \<Rightarrow> bool" where
  "around c x y \<longleftrightarrow> \<bar>x - fst c\<bar> \<le> 1 \<and> \<bar>y - snd c\<bar> \<le> 1"

lemma build_blocked_spec:
  fixes n srx sry erx ery :: int and p :: map_params
  defines "k \<equiv> param_room_size p"
  defines "d \<equiv> n * (k + 1) + 1"
  defines "s \<equiv> (srx, sry)" and "e \<equiv> (erx, ery)"
  obtains es' b where
    "es' = clear_safe_zone (clear_safe_zone es n srx sry 1) n erx ery 1"
    "build_blocked p es n d (srx, sry, erx, ery) r = Some (es', b, room_centre k s, room_centre k e)"
    "wf_grid d d b"
    "\<And>x y. in_grid d d x y \<Longrightarrow> around (room_centre k s) x y \<or> around (room_centre k e) x y \<Longrightarrow> \<not> cell_at b x y"
    "\<And>x y. in_grid d d x y \<Longrightarrow> cell_at b x y \<Longrightarrow> (x, y) \<notin> open_cells es' n k \<or> (x, y) \<in> map_obstacles p n s e"
    "\<And>x y. in_grid d d x y \<Longrightarrow> (x, y) \<notin> open_cells es' n k \<Longrightarrow> \<not> around (room_centre k s) x y \<Longrightarrow>
       \<not> around (room_centre k e) x y \<Longrightarrow> cell_at b x y"
proof -
  let ?es = "clear_safe_zone (clear_safe_zone es n srx sry 1) n erx ery 1"
  obtain b0 where b0: "edges_to_blocked_grid ?es n k = Some (b0, d)" "wf_grid d d b0"
    "\<And>x y. in_grid d d x y \<Longrightarrow> cell_at b0 x y \<longleftrightarrow> (x, y) \<notin> open_cells ?es n k"
    using edges_to_blocked_grid_exact [of ?es n k] unfolding d_def by blast
  obtain b1 r1 where b1: "(if param_room_obstacle_density p > 0 \<and> k \<ge> 2
      then add_room_obstacles b0 n k (param_room_obstacle_density p) r srx sry erx ery 1
      else Some (b0, r)) = Some (b1, r1)" "adds_within d (map_obstacles p n s e) b0 b1"
  proof (cases "param_room_obstacle_density p > 0 \<and> k \<ge> 2")
    case True
    then have "map_obstacles p n s e = obstacle_zone n k srx sry erx ery 1"
      by (simp add: map_obstacles_def k_def s_def e_def)
    with True that add_room_obstacles_within [OF b0(2) [unfolded d_def], of "param_room_obstacle_density p" r srx sry erx ery 1]
    show ?thesis by (metis d_def)
  next
    case False
    with that adds_within_refl [OF b0(2)] show ?thesis by auto
  qed
  note D1 = adds_withinD [OF b1(2)]
  obtain b2 where b2: "clear_blocked_safe_zone b1 d (fst (room_centre k s)) (snd (room_centre k s)) 1 = Some b2" "wf_grid d d b2"
    "\<And>x y. in_grid d d x y \<Longrightarrow> cell_at b2 x y \<longleftrightarrow> cell_at b1 x y \<and> \<not> around (room_centre k s) x y"
    using clear_blocked_safe_zone_exact [OF D1(1)] unfolding around_def by metis
  obtain b3 where b3: "clear_blocked_safe_zone b2 d (fst (room_centre k e)) (snd (room_centre k e)) 1 = Some b3" "wf_grid d d b3"
    "\<And>x y. in_grid d d x y \<Longrightarrow> cell_at b3 x y \<longleftrightarrow> cell_at b2 x y \<and> \<not> around (room_centre k e) x y"
    using clear_blocked_safe_zone_exact [OF b2(2)] unfolding around_def by metis
  have "build_blocked p es n d (srx, sry, erx, ery) r = Some (?es, b3, room_centre k s, room_centre k e)"
    using b0(1) b1(1) b2(1) b3(1)
    by (simp add: build_blocked_def Let_def k_def [symmetric] room_centre_def s_def e_def del: if_split)
  moreover have "\<not> cell_at b3 x y" if "in_grid d d x y" "around (room_centre k s) x y \<or> around (room_centre k e) x y" for x y
    using that b2(3) b3(3) by blast
  moreover have "(x, y) \<notin> open_cells ?es n k \<or> (x, y) \<in> map_obstacles p n s e" if "in_grid d d x y" "cell_at b3 x y" for x y
    using that b3(3) b2(3) D1(3) b0(3) by blast
  moreover have "cell_at b3 x y" if "in_grid d d x y" "(x, y) \<notin> open_cells ?es n k"
      "\<not> around (room_centre k s) x y" "\<not> around (room_centre k e) x y" for x y
    using that b3(3) b2(3) D1(2) b0(3) by blast
  ultimately show ?thesis using that [OF refl _ b3(2)] by blast
qed

lemma carvedI:
  assumes "wf_grid (n * (k + 1) + 1) (n * (k + 1) + 1) b"
    and "\<And>x y. in_grid (n * (k + 1) + 1) (n * (k + 1) + 1) x y \<Longrightarrow> cell_at b x y \<Longrightarrow>
      (x, y) \<notin> open_cells es n k \<or> (x, y) \<in> map_obstacles p n s e"
    and "param_room_size p = k" and "k \<noteq> 2 \<or> param_room_obstacle_density p \<le> 0"
  shows "carved es n k s e b"
proof -
  have "3 \<le> k \<and> (x, y) \<in> obstacle_zone n k (fst s) (snd s) (fst e) (snd e) 1"
    if "(x, y) \<in> map_obstacles p n s e" for x y
    using that assms(3,4) by (simp add: map_obstacles_def split: if_splits)
  with assms(1,2) show ?thesis unfolding carved_def by blast
qed

section \<open>What a generated map is\<close>

text \<open>Any two rooms are linked: the search links them and later stages only remove walls.\<close>

lemma rooms_linked:
  assumes "\<forall>c \<in> rooms n. ((0, 0), c) \<in> (passages es)\<^sup>*"
    and "walls es' \<subseteq> walls es" and "grid_dim es' = grid_dim es" and "a \<in> rooms n" and "c \<in> rooms n"
  shows "(a, c) \<in> (passages es')\<^sup>*"
proof -
  have "sym ((passages es')\<^sup>*)" by (rule sym_rtrancl [OF sym_passages])
  moreover have "((0, 0), x) \<in> (passages es')\<^sup>*" if "x \<in> rooms n" for x
    using bspec [OF assms(1) that] passages_mono [OF assms(2,3)] rtrancl_mono by blast
  ultimately show ?thesis using assms(4,5) by (meson rtrancl_trans symD)
qed

definition valid_params :: "map_params \<Rightarrow> bool" where
  "valid_params p \<longleftrightarrow> 1 \<le> param_room_size p \<and>
     (param_start_end_mode p = ''fixed'' \<longrightarrow> param_grid_dim p * param_grid_size p \<noteq> 0)"

text \<open>The side of the room grid and of the cell grid.\<close>

definition dim_rooms :: "map_params \<Rightarrow> int" where
  "dim_rooms p = max 2 (param_grid_dim p div (param_room_size p + 1))"

definition dim_cells :: "map_params \<Rightarrow> int" where
  "dim_cells p = dim_rooms p * (param_room_size p + 1) + 1"

definition cell_size :: "map_params \<Rightarrow> rat" where
  "cell_size p = of_int (param_grid_dim p * param_grid_size p) / of_int (dim_cells p)"

text \<open>The room a fixed end point falls into.\<close>

definition fixed_room :: "map_params \<Rightarrow> rat \<times> rat \<Rightarrow> cell" where
  "fixed_room p q =
     (clamp_room (dim_rooms p) (param_room_size p + 1) (py_int (fst q / cell_size p)),
      clamp_room (dim_rooms p) (param_room_size p + 1) (py_int (snd q / cell_size p)))"

text \<open>
  The specification of one map: \<open>es\<close> are the final walls, \<open>b\<close> the grid, \<open>s\<close> and \<open>e\<close> the rooms of
  the end points.
\<close>

definition layout_ok :: "map_params \<Rightarrow> cell \<Rightarrow> cell \<Rightarrow> wall_edge_set \<Rightarrow> bool grid \<Rightarrow> bool" where
  "layout_ok p s e es b \<longleftrightarrow>
     s \<in> rooms (dim_rooms p) \<and> e \<in> rooms (dim_rooms p) \<and> grid_dim es = dim_rooms p \<and>
     (\<forall>a c. a \<in> rooms (dim_rooms p) \<longrightarrow> c \<in> rooms (dim_rooms p) \<longrightarrow> (a, c) \<in> (passages es)\<^sup>*) \<and>
     wf_grid (dim_cells p) (dim_cells p) b \<and>
     (\<forall>x y. in_grid (dim_cells p) (dim_cells p) x y \<longrightarrow>
        (around (room_centre (param_room_size p) s) x y \<or> around (room_centre (param_room_size p) e) x y \<longrightarrow> \<not> cell_at b x y) \<and>
        (cell_at b x y \<longrightarrow> (x, y) \<notin> open_cells es (dim_rooms p) (param_room_size p) \<or> (x, y) \<in> map_obstacles p (dim_rooms p) s e) \<and>
        ((x, y) \<notin> open_cells es (dim_rooms p) (param_room_size p) \<and> \<not> around (room_centre (param_room_size p) s) x y \<and>
           \<not> around (room_centre (param_room_size p) e) x y \<longrightarrow> cell_at b x y))"

definition published :: "map_params \<Rightarrow> int \<Rightarrow> cell \<Rightarrow> cell \<Rightarrow> bool grid \<Rightarrow> rat \<Rightarrow> map_data \<Rightarrow> bool" where
  "published p seed s e b g m \<longleftrightarrow>
     map_id m = ''maze_'' @ str_int seed \<and> map_seed m = seed \<and>
     grid_cols m = dim_cells p \<and> grid_rows m = dim_cells p \<and> grid_size m = round2 g \<and>
     room_size m = param_room_size p \<and> room_dim m = dim_rooms p \<and>
     start_grid m = room_centre (param_room_size p) s \<and> goal_grid m = room_centre (param_room_size p) e \<and>
     start_pos m = (centre g (fst (start_grid m)), centre g (snd (start_grid m))) \<and>
     end_pos m = (centre g (fst (goal_grid m)), centre g (snd (goal_grid m))) \<and>
     blocked_bitmap_hex m = hex_bytes (map (\<lambda>c. if c then 1 else 0) (concat b)) \<and>
     map_wall_count m = length (map_walls m) \<and>
     (\<exists>qs. distinct qs \<and> set qs = vertical_runs b (dim_cells p) \<and>
        map_walls m = map (make_segment g (param_wall_thickness p)) qs)"

lemma layout_okD:
  assumes "layout_ok p s e es b"
  shows "s \<in> rooms (dim_rooms p)" "e \<in> rooms (dim_rooms p)" "grid_dim es = dim_rooms p"
    "\<And>a c. a \<in> rooms (dim_rooms p) \<Longrightarrow> c \<in> rooms (dim_rooms p) \<Longrightarrow> (a, c) \<in> (passages es)\<^sup>*"
    "wf_grid (dim_cells p) (dim_cells p) b"
    "\<And>x y. in_grid (dim_cells p) (dim_cells p) x y \<Longrightarrow> around (room_centre (param_room_size p) s) x y \<Longrightarrow> \<not> cell_at b x y"
    "\<And>x y. in_grid (dim_cells p) (dim_cells p) x y \<Longrightarrow> around (room_centre (param_room_size p) e) x y \<Longrightarrow> \<not> cell_at b x y"
    "\<And>x y. in_grid (dim_cells p) (dim_cells p) x y \<Longrightarrow> cell_at b x y \<Longrightarrow>
       (x, y) \<notin> open_cells es (dim_rooms p) (param_room_size p) \<or> (x, y) \<in> map_obstacles p (dim_rooms p) s e"
proof -
  note parts = assms [unfolded layout_ok_def]
  show "s \<in> rooms (dim_rooms p)" "e \<in> rooms (dim_rooms p)" "grid_dim es = dim_rooms p"
    "wf_grid (dim_cells p) (dim_cells p) b"
    using parts by - (elim conjE, assumption)+
  show "\<And>a c. a \<in> rooms (dim_rooms p) \<Longrightarrow> c \<in> rooms (dim_rooms p) \<Longrightarrow> (a, c) \<in> (passages es)\<^sup>*"
    using parts by blast
  show "\<And>x y. in_grid (dim_cells p) (dim_cells p) x y \<Longrightarrow> around (room_centre (param_room_size p) s) x y \<Longrightarrow> \<not> cell_at b x y"
    "\<And>x y. in_grid (dim_cells p) (dim_cells p) x y \<Longrightarrow> around (room_centre (param_room_size p) e) x y \<Longrightarrow> \<not> cell_at b x y"
    "\<And>x y. in_grid (dim_cells p) (dim_cells p) x y \<Longrightarrow> cell_at b x y \<Longrightarrow>
       (x, y) \<notin> open_cells es (dim_rooms p) (param_room_size p) \<or> (x, y) \<in> map_obstacles p (dim_rooms p) s e"
    using parts by blast+
qed

lemma centre_inside:
  assumes "1 \<le> k" and "c \<in> rooms n"
  shows "in_grid (n * (k + 1) + 1) (n * (k + 1) + 1) (fst (room_centre k c)) (snd (room_centre k c))"
proof -
  have "0 \<le> k div 2" "k div 2 < k" using assms(1) by simp_all
  with assms(2) have "room_centre k c \<in> room_cells k (fst c) (snd c)"
    by (auto simp: room_centre_def room_cells_def)
  with room_cells_in_grid [of "fst c" "snd c" n] assms(2) show ?thesis by simp
qed

lemma room_centre_inj: "1 \<le> k \<Longrightarrow> room_centre k a = room_centre k c \<longleftrightarrow> a = c"
  by (cases a; cases c) (simp add: room_centre_def)

lemma generate_map_cases:
  assumes "iterates order" and "valid_params p"
  obtains (no_map) es where "generate_map order rng_of_seed p seed = Some (No_Map es)"
      "param_start_end_mode p = ''random''"
  | (a_map) s e es b path_length g m where
      "generate_map order rng_of_seed p seed = Some (Map m es (path_length > 0) path_length b (dim_cells p) g)"
      "layout_ok p s e es b" "published p seed s e b g m"
      "shortest_action_steps b (dim_cells p) (dim_cells p)
         (fst (start_grid m)) (snd (start_grid m)) (fst (goal_grid m)) (snd (goal_grid m)) = Some path_length"
      "param_start_end_mode p \<notin> {''fixed'', ''random''} \<Longrightarrow> s = (0, 0) \<and> e = (dim_rooms p - 1, dim_rooms p - 1)"
      "param_start_end_mode p = ''random'' \<Longrightarrow> far_enough (param_min_distance p) (fst s) (snd s) (fst e) (snd e)"
      "param_start_end_mode p = ''fixed'' \<Longrightarrow> s = fixed_room p (param_fixed_start p) \<and> e = fixed_room p (param_fixed_end p)"
      "g = cell_size p"
proof -
  let ?k = "param_room_size p" and ?size = "param_grid_dim p * param_grid_size p"
  define n where "n = dim_rooms p"
  define d where "d = dim_cells p"
  define g where "g = (of_int ?size / of_int d :: rat)"
  have k: "1 \<le> ?k" using assms(2) by (simp add: valid_params_def)
  have d: "d = n * (?k + 1) + 1" "2 \<le> n" by (simp_all add: d_def n_def dim_cells_def dim_rooms_def)
  have dims: "map_dims (param_grid_dim p) (param_grid_size p) ?k = Some (n, d, ?size, g)"
    using map_dims_total [OF k, of "param_grid_dim p" "param_grid_size p"]
    by (auto simp: n_def d_def g_def dim_cells_def dim_rooms_def)
  have "1 \<le> n" using d(2) by simp
  obtain es0 r0 where 0: "generate_maze_edges n (rng_of_seed seed) = Some (es0, r0)" "grid_dim es0 = n"
    "walls es0 \<subseteq> grid_edges n" "\<forall>c \<in> rooms n. ((0, 0), c) \<in> (passages es0)\<^sup>*"
    "int (card (walls es0)) = (n - 1) * (n - 1)"
    using generate_maze_edges_total [OF \<open>1 \<le> n\<close>, of "rng_of_seed seed"] by metis
  obtain es1 r1 where 1: "extra_open_walls order es0 (param_extra_open_ratio p) r0 = Some (es1, r1)"
    "walls es1 \<subseteq> walls es0" "grid_dim es1 = grid_dim es0"
    using extra_open_walls_total [OF assms(1) 0(3)] by blast
  have g0: "g \<noteq> 0" if "param_start_end_mode p = ''fixed''"
  proof -
    have "0 \<le> n * (?k + 1)" using k d(2) by (intro mult_nonneg_nonneg) auto
    then have "d \<noteq> 0" using d(1) by simp
    with that assms(2) show ?thesis by (simp add: g_def valid_params_def)
  qed
  obtain ends r2 where 2: "choose_end_points p n g r1 = Some (ends, r2)"
    "ends = None \<Longrightarrow> param_start_end_mode p = ''random''"
    "\<And>sx sy ex ey. ends = Some (sx, sy, ex, ey) \<Longrightarrow> (sx, sy) \<in> rooms n \<and> (ex, ey) \<in> rooms n"
    "param_start_end_mode p \<notin> {''fixed'', ''random''} \<Longrightarrow> ends = Some (0, 0, n - 1, n - 1)"
    "\<And>sx sy ex ey. param_start_end_mode p = ''random'' \<Longrightarrow> ends = Some (sx, sy, ex, ey) \<Longrightarrow>
       far_enough (param_min_distance p) sx sy ex ey"
    "param_start_end_mode p = ''fixed'' \<Longrightarrow>
       ends = Some (let c = (\<lambda>q. clamp_room n (?k + 1) (py_int (q / g))) in
         (c (fst (param_fixed_start p)), c (snd (param_fixed_start p)), c (fst (param_fixed_end p)), c (snd (param_fixed_end p))))"
    using choose_end_points_total [OF d(2) g0, of p r1] by blast
  note run = generate_map_def dims bind.simps prod.case 0(1) 1(1) 2(1)
  show ?thesis
  proof (cases ends)
    case None
    have "generate_map order rng_of_seed p seed = Some (No_Map es1)"
      unfolding run None option.case ..
    with 2(2) None no_map show ?thesis by blast
  next
    case (Some q)
    obtain sx sy ex ey where q: "q = (sx, sy, ex, ey)" by (cases q)
    let ?s = "(sx, sy)" and ?e = "(ex, ey)"
    have rooms: "?s \<in> rooms n" "?e \<in> rooms n" using 2(3) Some q by auto
    obtain es b where B: "es = clear_safe_zone (clear_safe_zone es1 n sx sy 1) n ex ey 1"
      "build_blocked p es1 n d (sx, sy, ex, ey) r2 = Some (es, b, room_centre ?k ?s, room_centre ?k ?e)"
      "wf_grid d d b"
      "\<And>x y. in_grid d d x y \<Longrightarrow> around (room_centre ?k ?s) x y \<or> around (room_centre ?k ?e) x y \<Longrightarrow> \<not> cell_at b x y"
      "\<And>x y. in_grid d d x y \<Longrightarrow> cell_at b x y \<Longrightarrow> (x, y) \<notin> open_cells es n ?k \<or> (x, y) \<in> map_obstacles p n ?s ?e"
      "\<And>x y. in_grid d d x y \<Longrightarrow> (x, y) \<notin> open_cells es n ?k \<Longrightarrow> \<not> around (room_centre ?k ?s) x y \<Longrightarrow>
         \<not> around (room_centre ?k ?e) x y \<Longrightarrow> cell_at b x y"
      using build_blocked_spec [where es = es1 and n = n and p = p and srx = sx and sry = sy and erx = ex and ery = ey and r = r2]
      unfolding d(1) by blast
    have frame: "walls es \<subseteq> walls es1" "grid_dim es = n"
      using clear_safe_zone_frame [of es1 n sx sy 1] clear_safe_zone_frame [of "clear_safe_zone es1 n sx sy 1" n ex ey 1]
        1(3) 0(2) unfolding B(1) by auto
    have "(a, c) \<in> (passages es)\<^sup>*" if "a \<in> rooms n" "c \<in> rooms n" for a c
      by (rule rooms_linked [OF 0(4) _ _ that]) (use frame 1(2) 0(2) in auto)
    then have layout: "layout_ok p ?s ?e es b"
      unfolding layout_ok_def n_def [symmetric] d_def [symmetric] using rooms frame B by blast
    obtain len where len: "shortest_action_steps b d d (fst (room_centre ?k ?s)) (snd (room_centre ?k ?s))
        (fst (room_centre ?k ?e)) (snd (room_centre ?k ?e)) = Some len"
      using shortest_action_steps_total [OF B(3)] by metis
    have "0 \<le> d" using B(3) d k by (simp add: mult_nonneg_nonneg)
    note bitmap = blocked_bitmap_bytes_eq [OF B(3) this this]
    obtain qs where qs: "blocked_to_wall_segments b d g (param_wall_thickness p) =
        Some (map (make_segment g (param_wall_thickness p)) qs)" "distinct qs" "set qs = vertical_runs b d"
      using blocked_to_wall_segments_runs [OF B(3)] by blast
    let ?m = "\<lparr>map_id = ''maze_'' @ str_int seed, map_seed = seed, difficulty = 0,
            grid_cols = d, grid_rows = d, grid_size = round2 g,
            room_size = ?k, room_dim = n, bounds = (0, ?size, 0, ?size),
            start_pos = (centre g (fst (room_centre ?k ?s)), centre g (snd (room_centre ?k ?s))),
            end_pos = (centre g (fst (room_centre ?k ?e)), centre g (snd (room_centre ?k ?e))),
            start_grid = room_centre ?k ?s, goal_grid = room_centre ?k ?e,
            blocked_bitmap_encoding = ''row-major-u8-0-open-1-blocked'',
            blocked_bitmap_hex = hex_bytes (map (\<lambda>b. if b then 1 else 0) (concat b)),
            map_wall_count = length (map (make_segment g (param_wall_thickness p)) qs),
            map_walls = map (make_segment g (param_wall_thickness p)) qs\<rparr>"
    have m: "generate_map order rng_of_seed p seed = Some (Map ?m es (len > 0) len b d g)"
      unfolding run Some q option.case B(2)
      unfolding bind.simps case_prod_beta fst_conv snd_conv len bitmap qs(1) prod.collapse ..
    have pub: "published p seed ?s ?e b g ?m"
      unfolding published_def n_def [symmetric] d_def [symmetric] map_data.simps
      using qs(2,3) by (intro conjI refl exI [of _ qs])
    show ?thesis
      by (rule a_map [OF m [unfolded d_def] layout pub [unfolded d_def]])
        (use len 2(4-6) Some q in \<open>auto simp: d_def n_def g_def cell_size_def fixed_room_def Let_def\<close>)
  qed
qed

section \<open>Reachability\<close>

lemma shortest_zero: "shortest succs s t 0 \<longleftrightarrow> s = t"
  by (simp add: shortest_def)

text \<open>Rooms of side two with obstacles are the one case in which the goal may be cut off.\<close>

lemma layout_reachable:
  assumes L: "layout_ok p s e es b" and "valid_params p"
    and "param_room_size p \<noteq> 2 \<or> param_room_obstacle_density p \<le> 0"
    and run: "shortest_action_steps b (dim_cells p) (dim_cells p) (fst (room_centre (param_room_size p) s))
      (snd (room_centre (param_room_size p) s)) (fst (room_centre (param_room_size p) e))
      (snd (room_centre (param_room_size p) e)) = Some len"
  shows "0 \<le> len" and "len > 0 \<longleftrightarrow> s \<noteq> e"
proof -
  let ?k = "param_room_size p" and ?n = "dim_rooms p" and ?d = "dim_cells p"
  note D = layout_okD [OF L]
  have k: "1 \<le> ?k" using assms(2) by (simp add: valid_params_def)
  have "carved es ?n ?k s e b"
    by (rule carvedI [where p = p]) (use D(5,8) assms(3) in \<open>auto simp: dim_cells_def\<close>)
  from carved_walks [OF this D(3) k D(1,2) D(4) [OF D(1,2)]]
  have w: "walks (free_cell b ?d ?d) (room_centre ?k s) (room_centre ?k e)"
    "free_cell b ?d ?d (room_centre ?k s)" "free_cell b ?d ?d (room_centre ?k e)"
    by (simp_all add: dim_cells_def)
  obtain l where l: "l = len" "- 1 \<le> l"
    "0 \<le> l \<Longrightarrow> shortest (action_moves (free_cell b ?d ?d)) (room_centre ?k s) (room_centre ?k e) (nat l)" "l \<noteq> - 1"
    using shortest_action_steps_total [OF D(5), of "fst (room_centre ?k s)" "snd (room_centre ?k s)"
        "fst (room_centre ?k e)" "snd (room_centre ?k e)"] run w unfolding walks_def
    by (metis option.inject prod.collapse)
  then show "0 \<le> len" by simp
  with l have sh: "shortest (action_moves (free_cell b ?d ?d)) (room_centre ?k s) (room_centre ?k e) (nat len)" by simp
  have "len > 0 \<longleftrightarrow> room_centre ?k s \<noteq> room_centre ?k e"
  proof
    assume "len > 0"
    then have "nat len \<noteq> 0" by simp
    with sh shortest_unique [of _ "room_centre ?k s" "room_centre ?k e" "nat len" 0]
    show "room_centre ?k s \<noteq> room_centre ?k e" by (auto simp: shortest_zero)
  next
    assume "room_centre ?k s \<noteq> room_centre ?k e"
    with sh have "nat len \<noteq> 0" using shortest_zero by metis
    then show "len > 0" by simp
  qed
  then show "len > 0 \<longleftrightarrow> s \<noteq> e" using room_centre_inj [OF k] by simp
qed

section \<open>Retries\<close>

definition failed :: "map_result \<Rightarrow> bool" where
  "failed result = (case result of No_Map _ \<Rightarrow> True | Map _ _ reachable _ _ _ _ \<Rightarrow> \<not> reachable)"

text \<open>The first attempt that does not fail is returned; all failing gives \<open>Exhausted\<close>.\<close>

lemma reachable_loop_fail:
  assumes "\<And>i. i < m \<Longrightarrow> \<exists>r. generate (seed + int (attempt + i)) = Some r \<and> failed r" and "m \<le> fuel"
  shows "reachable_loop generate seed fuel attempt = reachable_loop generate seed (fuel - m) (attempt + m)"
  using assms
proof (induction m arbitrary: attempt fuel)
  case 0
  then show ?case by simp
next
  case (Suc m)
  obtain f where f: "fuel = Suc f" "m \<le> f" using Suc.prems(2) by (cases fuel) auto
  obtain r where r: "generate (seed + int attempt) = Some r" "failed r" using Suc.prems(1) [of 0] by auto
  have "reachable_loop generate seed f (Suc attempt) = reachable_loop generate seed (f - m) (Suc attempt + m)"
    using Suc.IH [of "Suc attempt" f] Suc.prems(1) [of "Suc _"] f(2) by simp
  with r f(1) show ?case by (cases r) (auto simp: failed_def)
qed

lemma reachable_loop_found:
  assumes "\<And>i. i < a \<Longrightarrow> \<exists>r. generate (seed + int i) = Some r \<and> failed r" and "a < fuel"
    and "generate (seed + int a) = Some (Map m es True len b d g)"
  shows "reachable_loop generate seed fuel 0 = Some (Reachable m es len (seed + int a) a b d)"
proof -
  obtain f where f: "fuel - a = Suc f" using assms(2) by (metis Suc_diff_Suc)
  show ?thesis
    using reachable_loop_fail [of a generate seed 0 fuel] assms f by simp
qed

lemma reachable_loop_exhausted:
  assumes "\<And>i. i < fuel \<Longrightarrow> \<exists>r. generate (seed + int i) = Some r \<and> failed r"
  shows "reachable_loop generate seed fuel 0 = Some (Exhausted seed MAX_RETRY)"
  using reachable_loop_fail [of fuel generate seed 0 fuel] assms by simp

text \<open>When every seed gives a result, one of the two is the case.\<close>

lemma reachable_loop_cases:
  assumes "\<And>s. \<exists>r. generate s = Some r"
  obtains (found) a m es len b d g where "a < fuel" "generate (seed + int a) = Some (Map m es True len b d g)"
      "\<And>i. i < a \<Longrightarrow> \<exists>r. generate (seed + int i) = Some r \<and> failed r"
      "reachable_loop generate seed fuel 0 = Some (Reachable m es len (seed + int a) a b d)"
  | (exhausted) "\<And>i. i < fuel \<Longrightarrow> \<exists>r. generate (seed + int i) = Some r \<and> failed r"
      "reachable_loop generate seed fuel 0 = Some (Exhausted seed MAX_RETRY)"
proof (cases "\<forall>i < fuel. \<exists>r. generate (seed + int i) = Some r \<and> failed r")
  case True
  with exhausted reachable_loop_exhausted [of fuel generate seed] show thesis by blast
next
  case False
  define a where "a = (LEAST i. i < fuel \<and> (\<exists>r. generate (seed + int i) = Some r \<and> \<not> failed r))"
  have "\<exists>i. i < fuel \<and> (\<exists>r. generate (seed + int i) = Some r \<and> \<not> failed r)" using False assms by metis
  then have a: "a < fuel \<and> (\<exists>r. generate (seed + int a) = Some r \<and> \<not> failed r)"
    unfolding a_def by (rule LeastI_ex)
  then obtain r where r: "generate (seed + int a) = Some r" "\<not> failed r" by blast
  then obtain m es len b d g where g: "generate (seed + int a) = Some (Map m es True len b d g)"
    by (cases r) (auto simp: failed_def)
  have before: "\<exists>r. generate (seed + int i) = Some r \<and> failed r" if "i < a" for i
    using not_less_Least [OF that [unfolded a_def]] that a assms [of "seed + int i"] by auto
  from reachable_loop_found [where generate = generate and seed = seed, OF before _ g] a found g before show thesis by blast
qed

section \<open>Properties\<close>

text \<open>The parameters of a small map, for examples: four rooms of side one.\<close>

definition sample_params :: map_params where
  "sample_params =
     \<lparr>param_grid_dim = 4, param_grid_size = 500, param_wall_thickness = 10, param_extra_open_ratio = 1 / 5,
      param_start_end_mode = ''default'', param_fixed_start = (0, 0), param_fixed_end = (0, 0),
      param_min_distance = 1, param_room_size = 1, param_room_obstacle_density = 0\<rparr>"

lemma valid_sample_params: "valid_params sample_params"
  by (simp add: valid_params_def sample_params_def)

lemma sample_map:
  "case generate_map canonical_order (\<lambda>_. sample_rng) sample_params 7 of
     Some (Map m es reachable path_length b d g) \<Rightarrow> path_length = 2 \<and> start_grid m = (1, 1) \<and> goal_grid m = (3, 3)
   | _ \<Rightarrow> False"
  by code_simp

lemma default_mode_found:
  assumes "iterates order" and "valid_params p" and "param_start_end_mode p \<notin> {''fixed'', ''random''}"
    and "param_room_size p \<noteq> 2 \<or> param_room_obstacle_density p \<le> 0"
  shows "\<exists>m es len b d. generate_reachable_map order rng_of_seed clock_ms (Some seed) p =
    Some (Reachable m es len seed 0 b d) \<and> 0 < len \<and> map_seed m = seed"
proof (cases rule: generate_map_cases [OF assms(1,2), of rng_of_seed seed, case_names no_map a_map])
  case (no_map es)
  with assms(3) show ?thesis by simp
next
  case (a_map s e es b len g m)
  have "2 \<le> dim_rooms p" by (simp add: dim_rooms_def)
  then have "s \<noteq> e" using a_map(5) assms(3) by simp
  have ends: "start_grid m = room_centre (param_room_size p) s" "goal_grid m = room_centre (param_room_size p) e"
    "map_seed m = seed"
    using a_map(3) unfolding published_def by simp_all
  have "len > 0"
    using layout_reachable(2) [OF a_map(2) assms(2,4)] a_map(4) \<open>s \<noteq> e\<close> unfolding ends by blast
  then have "generate_map order rng_of_seed p (seed + int 0) = Some (Map m es True len b (dim_cells p) g)"
    using a_map(1) by simp
  then have "reachable_loop (generate_map order rng_of_seed p) seed MAX_RETRY 0 =
      Some (Reachable m es len (seed + int 0) 0 b (dim_cells p))"
    by (intro reachable_loop_found) (simp_all add: MAX_RETRY_def)
  with \<open>len > 0\<close> ends(3) show ?thesis by (simp add: generate_reachable_map_def)
qed

text \<open>C1: In the default mode the first seed already gives a walkable map, for every sequence of draws, unless rooms
  of side two carry obstacles: the retry loop returns at attempt 0 with the seed it was given.\<close>

theorem default_mode_first_attempt:
  assumes "iterates order" and "valid_params p" and "param_start_end_mode p \<notin> {''fixed'', ''random''}"
    and "param_room_size p \<noteq> 2 \<or> param_room_obstacle_density p \<le> 0"
  shows "\<exists>m es len b d. generate_reachable_map order rng_of_seed clock_ms (Some seed) p =
    Some (Reachable m es len seed 0 b d) \<and> 0 < len \<and> map_seed m = seed"
  by (rule default_mode_found [OF assms])

theorem default_mode_first_attempt_witness:
  "\<exists>m es len b d. generate_reachable_map canonical_order (\<lambda>_. sample_rng) 0 (Some 42) sample_params =
    Some (Reachable m es len 42 0 b d) \<and> 0 < len \<and> map_seed m = 42"
  by (rule default_mode_first_attempt [OF iterates_canonical valid_sample_params]) (simp_all add: sample_params_def)

text \<open>With valid parameters the generator of one map never raises and always ends, for every seed and every
  sequence of draws; only the random mode may return without a map.\<close>

theorem generate_map_returns:
  assumes "iterates order" and "valid_params p"
  shows "\<exists>result. generate_map order rng_of_seed p seed = Some result \<and>
    (case result of No_Map _ \<Rightarrow> param_start_end_mode p = ''random''
     | Map m _ reachable path_length b d _ \<Rightarrow>
         map_seed m = seed \<and> (reachable \<longleftrightarrow> 0 < path_length) \<and> - 1 \<le> path_length \<and> d = dim_cells p \<and> wf_grid d d b)"
proof (cases rule: generate_map_cases [OF assms, of rng_of_seed seed, case_names no_map a_map])
  case (no_map es)
  then show ?thesis by simp
next
  case (a_map s e es b len g m)
  note wf = layout_okD(5) [OF a_map(2)]
  obtain k where "shortest_action_steps b (dim_cells p) (dim_cells p)
      (fst (start_grid m)) (snd (start_grid m)) (fst (goal_grid m)) (snd (goal_grid m)) = Some k" "- 1 \<le> k"
    using shortest_action_steps_total [OF wf] by metis
  with a_map(1,3,4) wf show ?thesis by (simp add: published_def)
qed

theorem generate_map_returns_witness:
  "\<exists>result. generate_map canonical_order (\<lambda>_. sample_rng) sample_params 7 = Some result \<and>
    (case result of No_Map _ \<Rightarrow> False | Map m _ _ _ _ d _ \<Rightarrow> map_seed m = 7 \<and> d = 5)"
proof -
  have "param_start_end_mode sample_params \<noteq> ''random''" "dim_cells sample_params = 5"
    by (simp_all add: sample_params_def dim_cells_def dim_rooms_def)
  moreover obtain result where "generate_map canonical_order (\<lambda>_. sample_rng) sample_params 7 = Some result"
    "case result of No_Map _ \<Rightarrow> param_start_end_mode sample_params = ''random''
     | Map m _ reachable path_length b d _ \<Rightarrow>
         map_seed m = 7 \<and> (reachable \<longleftrightarrow> 0 < path_length) \<and> - 1 \<le> path_length \<and> d = dim_cells sample_params \<and> wf_grid d d b"
    using generate_map_returns [OF iterates_canonical valid_sample_params, of "\<lambda>_. sample_rng" 7] by blast
  ultimately show ?thesis by (cases result) auto
qed

text \<open>C8: Any map the generator returns can be walked from its start to its goal unless rooms of side two carry
  obstacles: it is reported reachable exactly when start and goal are different cells.\<close>

theorem generate_map_reachable_iff:
  assumes "iterates order" and "valid_params p"
    and "param_room_size p \<noteq> 2 \<or> param_room_obstacle_density p \<le> 0"
    and "generate_map order rng_of_seed p seed = Some (Map m es reachable path_length b d g)"
  shows "reachable \<longleftrightarrow> start_grid m \<noteq> goal_grid m"
proof (cases rule: generate_map_cases [OF assms(1,2), of rng_of_seed seed, case_names no_map a_map])
  case (no_map es)
  with assms(4) show ?thesis by simp
next
  case (a_map s e es' b' len g' m')
  then have eq: "m = m'" "reachable = (0 < len)" "b = b'" using assms(4) by auto
  have ends: "start_grid m' = room_centre (param_room_size p) s" "goal_grid m' = room_centre (param_room_size p) e"
    using a_map(3) unfolding published_def by simp_all
  have "1 \<le> param_room_size p" using assms(2) by (simp add: valid_params_def)
  with layout_reachable(2) [OF a_map(2) assms(2,3)] a_map(4) eq ends room_centre_inj show ?thesis by metis
qed

theorem generate_map_reachable_iff_witness:
  "case generate_map canonical_order (\<lambda>_. sample_rng) sample_params 7 of
     Some (Map m es reachable path_length b d g) \<Rightarrow> reachable \<and> start_grid m = (1, 1) \<and> goal_grid m = (3, 3)
   | _ \<Rightarrow> False"
proof -
  show ?thesis
    using sample_map generate_map_reachable_iff [OF iterates_canonical valid_sample_params, of "\<lambda>_. sample_rng" 7]
    by (auto simp: sample_params_def split: option.splits map_result.splits)
qed

text \<open>C4: The path length the generator reports is the least number of moves, under the nine-action rule, from the
  start cell to the goal cell of the final grid, both of which are free; -1 means there is no such path.\<close>

theorem generate_map_path_shortest:
  assumes "iterates order" and "valid_params p"
    and "generate_map order rng_of_seed p seed = Some (Map m es reachable path_length b d g)"
  shows "free_cell b d d (start_grid m) \<and> free_cell b d d (goal_grid m) \<and>
    (if 0 \<le> path_length
     then shortest (action_moves (free_cell b d d)) (start_grid m) (goal_grid m) (nat path_length)
     else (start_grid m, goal_grid m) \<notin> (step_rel (action_moves (free_cell b d d)))\<^sup>*)"
proof -
  obtain s e g' where *: "layout_ok p s e es b" "published p seed s e b g' m" "d = dim_cells p"
    "shortest_action_steps b d d (fst (start_grid m)) (snd (start_grid m)) (fst (goal_grid m)) (snd (goal_grid m)) = Some path_length"
    by (cases rule: generate_map_cases [OF assms(1,2), of rng_of_seed seed]) (use assms(3) in auto)
  note D = layout_okD [OF *(1), folded *(3)]
  have k: "1 \<le> param_room_size p" using assms(2) by (simp add: valid_params_def)
  have ends: "start_grid m = room_centre (param_room_size p) s" "goal_grid m = room_centre (param_room_size p) e"
    using *(2) unfolding published_def by simp_all
  have "in_grid d d (fst (start_grid m)) (snd (start_grid m))" "in_grid d d (fst (goal_grid m)) (snd (goal_grid m))"
    using centre_inside [OF k D(1)] centre_inside [OF k D(2)] unfolding ends *(3) dim_cells_def by simp_all
  with D(6,7) have free: "free_cell b d d (start_grid m)" "free_cell b d d (goal_grid m)"
    unfolding free_cell_def ends by (auto simp: around_def)
  obtain k where "k = path_length" "- 1 \<le> k"
    "0 \<le> k \<Longrightarrow> shortest (action_moves (free_cell b d d)) (start_grid m) (goal_grid m) (nat k)"
    "k = - 1 \<Longrightarrow> \<not> free_cell b d d (start_grid m) \<or> \<not> free_cell b d d (goal_grid m) \<or>
       (start_grid m, goal_grid m) \<notin> (step_rel (action_moves (free_cell b d d)))\<^sup>*"
    using shortest_action_steps_total [OF D(5), of "fst (start_grid m)" "snd (start_grid m)" "fst (goal_grid m)" "snd (goal_grid m)"]
      *(4) by (metis option.inject prod.collapse)
  moreover from this(1,2) have "0 \<le> path_length \<or> path_length = - 1" by arith
  ultimately show ?thesis using free by auto
qed

theorem generate_map_path_shortest_witness:
  "case generate_map canonical_order (\<lambda>_. sample_rng) sample_params 7 of
     Some (Map m es reachable path_length b d g) \<Rightarrow>
       path_length = 2 \<and> shortest (action_moves (free_cell b d d)) (1, 1) (3, 3) 2
   | _ \<Rightarrow> False"
proof -
  show ?thesis
    using sample_map generate_map_path_shortest [OF iterates_canonical valid_sample_params, of "\<lambda>_. sample_rng" 7]
    by (fastforce split: option.splits map_result.splits)
qed

lemma generate_map_some:
  assumes "iterates order" and "valid_params p"
  shows "\<exists>r. generate_map order rng_of_seed p seed = Some r"
  by (cases rule: generate_map_cases [OF assms, of rng_of_seed seed]) auto

text \<open>C33: The retry loop returns the first seed, from the given one on, whose map is reported reachable, with the number
  of seeds it has passed over; it gives up exactly when all of the hundred seeds fail.\<close>

theorem retry_finds_first_seed:
  assumes "iterates order" and "valid_params p"
  shows "(\<exists>a m es len b d g. a < MAX_RETRY \<and>
      generate_map order rng_of_seed p (seed + int a) = Some (Map m es True len b d g) \<and>
      (\<forall>i < a. \<exists>r. generate_map order rng_of_seed p (seed + int i) = Some r \<and> failed r) \<and>
      generate_reachable_map order rng_of_seed clock_ms (Some seed) p = Some (Reachable m es len (seed + int a) a b d)) \<or>
    (\<forall>i < MAX_RETRY. \<exists>r. generate_map order rng_of_seed p (seed + int i) = Some r \<and> failed r) \<and>
      generate_reachable_map order rng_of_seed clock_ms (Some seed) p = Some (Exhausted seed MAX_RETRY)"
proof (cases rule: reachable_loop_cases [where generate = "generate_map order rng_of_seed p", OF generate_map_some [OF assms, of rng_of_seed], where seed = seed and fuel = MAX_RETRY,
      case_names found exhausted])
  case (found a m es len b d g)
  then show ?thesis by (intro disjI1 exI conjI) (auto simp: generate_reachable_map_def)
next
  case exhausted
  then show ?thesis by (simp add: generate_reachable_map_def)
qed

theorem retry_finds_first_seed_witness:
  "\<exists>a m es len b d. a < 100 \<and> generate_reachable_map canonical_order (\<lambda>_. sample_rng) 0 (Some 7) sample_params =
    Some (Reachable m es len (7 + int a) a b d)"
proof -
  have "\<exists>m es len b d. generate_reachable_map canonical_order (\<lambda>_. sample_rng) 0 (Some 7) sample_params =
      Some (Reachable m es len 7 0 b d) \<and> 0 < len \<and> map_seed m = 7"
    by (rule default_mode_found [OF iterates_canonical valid_sample_params]) (simp_all add: sample_params_def)
  with retry_finds_first_seed [OF iterates_canonical valid_sample_params, of "\<lambda>_. sample_rng" 7 0] show ?thesis
    by (auto simp: MAX_RETRY_def)
qed

text \<open>In the fixed mode a start and a goal that fall into the same room are never accepted: their path has length
  zero, which counts as unreachable, so all hundred seeds are tried and none is returned.\<close>

theorem fixed_same_room_exhausts:
  assumes "iterates order" and "valid_params p" and "param_start_end_mode p = ''fixed''"
    and "param_room_size p \<noteq> 2 \<or> param_room_obstacle_density p \<le> 0"
    and "fixed_room p (param_fixed_start p) = fixed_room p (param_fixed_end p)"
  shows "generate_reachable_map order rng_of_seed clock_ms (Some seed) p = Some (Exhausted seed MAX_RETRY)"
proof -
  have "\<exists>r. generate_map order rng_of_seed p s = Some r \<and> failed r" for s
  proof (cases rule: generate_map_cases [OF assms(1,2), of rng_of_seed s, case_names no_map a_map])
    case (no_map es)
    then show ?thesis by (simp add: failed_def)
  next
    case (a_map c e es b len g m)
    have ends: "start_grid m = room_centre (param_room_size p) c" "goal_grid m = room_centre (param_room_size p) e"
      using a_map(3) unfolding published_def by simp_all
    have "c = e" using a_map(7) assms(3,5) by simp
    then have "\<not> 0 < len" using layout_reachable(2) [OF a_map(2) assms(2,4)] a_map(4) unfolding ends by blast
    with a_map(1) show ?thesis by (simp add: failed_def)
  qed
  then show ?thesis
    unfolding generate_reachable_map_def Let_def by (simp add: reachable_loop_exhausted)
qed

theorem fixed_same_room_exhausts_witness:
  "generate_reachable_map canonical_order (\<lambda>_. sample_rng) 0 (Some 7) (sample_params\<lparr>param_start_end_mode := ''fixed''\<rparr>) =
    Some (Exhausted 7 100)"
proof -
  let ?p = "sample_params\<lparr>param_start_end_mode := ''fixed''\<rparr>"
  have "valid_params ?p" by (simp add: valid_params_def sample_params_def)
  from fixed_same_room_exhausts [OF iterates_canonical this, of "\<lambda>_. sample_rng" 0 7] show ?thesis
    by (simp add: sample_params_def fixed_room_def cell_size_def dim_rooms_def dim_cells_def MAX_RETRY_def)
qed

end
