(* ===== verification/GenConfig.thy ===== *)
theory GenConfig
  imports PyText
begin

text \<open>
  The configuration of the map generator: \<open>load_config\<close>, its small YAML reader, and
  \<open>get_config_value\<close> with the conversions \<open>int\<close>, \<open>float\<close> and \<open>str\<close>. The content of a file is the
  text Python reads, with its line ends already translated.
\<close>

type_synonym config = "string \<rightharpoonup> (string \<rightharpoonup> string)"

definition dquote :: char where
  "dquote = CHR 0x22"

definition squote :: char where
  "squote = CHR 0x27"

section \<open>Reading\<close>

text \<open>\<open>line[:comment_pos]\<close>: both kinds of quotes toggle one flag.\<close>

primrec cut_comment :: "bool \<Rightarrow> string \<Rightarrow> string" where
  "cut_comment in_quotes [] = []"
| "cut_comment in_quotes (c # s) =
     (if c = dquote \<or> c = squote then c # cut_comment (\<not> in_quotes) s
      else if c = CHR ''#'' \<and> \<not> in_quotes then []
      else c # cut_comment in_quotes s)"

text \<open>The loop body; the state is the current section and what has been read.\<close>

definition config_line :: "string \<Rightarrow> string option \<times> config \<Rightarrow> string option \<times> config" where
  "config_line raw = (\<lambda>(current_section, config).
     let line = cut_comment False raw; stripped = strip line in
     if stripped = [] then (current_section, config)
     else case find_char (CHR '':'') stripped of
         None \<Rightarrow> (current_section, config)
       | Some colon_pos \<Rightarrow>
           let key = strip (take colon_pos stripped);
               val = strip_char squote (strip_char dquote (strip (drop (Suc colon_pos) stripped)));
               has_indent = (hd line = CHR '' '' \<or> hd line = CHR 0x09)
           in if \<not> has_indent \<and> val = [] then (Some key, config(key \<mapsto> Map.empty))
              else if has_indent \<and> current_section \<noteq> None \<and> current_section \<noteq> Some [] \<and> key \<noteq> []
              then (current_section,
                    config(the current_section \<mapsto> (the (config (the current_section)))(key \<mapsto> val)))
              else (current_section, config))"

text \<open>\<open>None\<close> for a file that does not exist.\<close>

definition load_config :: "string option \<Rightarrow> config" where
  "load_config content =
     (case content of None \<Rightarrow> Map.empty
      | Some text \<Rightarrow> snd (fold config_line (lines_keep text) (None, Map.empty)))"

section \<open>Values\<close>

text \<open>A conversion gives \<open>None\<close> where Python raises \<open>ValueError\<close>.\<close>

definition get_config_value :: "config \<Rightarrow> string \<Rightarrow> string \<Rightarrow> 'a \<Rightarrow> (string \<Rightarrow> 'a option) \<Rightarrow> 'a" where
  "get_config_value config section_name key dflt type_fn =
     (case (case config section_name of None \<Rightarrow> Map.empty | Some kvs \<Rightarrow> kvs) key of
        None \<Rightarrow> dflt
      | Some val \<Rightarrow> if val = [] then dflt else case type_fn val of None \<Rightarrow> dflt | Some v \<Rightarrow> v)"

text \<open>
  \<open>float(s)\<close> as an exact rational: a sign, digits with an optional point, an optional exponent. The
  spellings of infinity and of "not a number", which Python accepts as well, are not modelled.
\<close>

definition digits_or_none :: "string \<Rightarrow> string option" where
  "digits_or_none s = (if s = [] then Some [] else group_digits s)"

definition parse_mantissa :: "string \<Rightarrow> rat option" where
  "parse_mantissa s =
     (let whole = takeWhile (\<lambda>c. c \<noteq> CHR ''.'') s; fraction = tl (dropWhile (\<lambda>c. c \<noteq> CHR ''.'') s) in
      if whole = [] \<and> fraction = [] then None
      else case (digits_or_none whole, digits_or_none fraction) of
          (Some w, Some f) \<Rightarrow> Some (of_nat (val_digits (w @ f)) / 10 ^ length f)
        | _ \<Rightarrow> None)"

definition parse_exponent :: "string \<Rightarrow> int option" where
  "parse_exponent s =
     (case s of [] \<Rightarrow> None
      | c # t \<Rightarrow>
          if c = CHR ''-'' then map_option (\<lambda>ds. - int (val_digits ds)) (group_digits t)
          else if c = CHR ''+'' then map_option (\<lambda>ds. int (val_digits ds)) (group_digits t)
          else map_option (\<lambda>ds. int (val_digits ds)) (group_digits (c # t)))"

definition scale10 :: "rat \<Rightarrow> int \<Rightarrow> rat" where
  "scale10 q e = (if 0 \<le> e then q * 10 ^ nat e else q / 10 ^ nat (- e))"

definition parse_unsigned :: "string \<Rightarrow> rat option" where
  "parse_unsigned s =
     (let is_e = (\<lambda>c. c = CHR ''e'' \<or> c = CHR ''E''); m = takeWhile (\<lambda>c. \<not> is_e c) s; rest = dropWhile (\<lambda>c. \<not> is_e c) s in
      case (parse_mantissa m, if rest = [] then Some 0 else parse_exponent (tl rest)) of
        (Some q, Some e) \<Rightarrow> Some (scale10 q e)
      | _ \<Rightarrow> None)"

definition parse_float :: "string \<Rightarrow> rat option" where
  "parse_float s =
     (case strip s of [] \<Rightarrow> None
      | c # t \<Rightarrow>
          if c = CHR ''-'' then map_option uminus (parse_unsigned t)
          else if c = CHR ''+'' then parse_unsigned t
          else parse_unsigned (c # t))"

section \<open>Lemmas\<close>

lemma cut_comment_plain: "\<forall>c \<in> set s. c \<noteq> dquote \<and> c \<noteq> squote \<and> (c = CHR ''#'' \<longrightarrow> q) \<Longrightarrow> cut_comment q (s @ t) = s @ cut_comment q t"
  by (induction s) auto

lemma config_line_blank: "strip (cut_comment False raw) = [] \<Longrightarrow> config_line raw st = st"
  by (simp add: config_line_def split: prod.splits)

text \<open>What a configuration is printed as: sections of lines \<open>key: value\<close>.\<close>

definition plain_text :: "string \<Rightarrow> bool" where
  "plain_text s \<longleftrightarrow> s \<noteq> [] \<and> strip s = s \<and> (\<forall>c \<in> set s. c \<noteq> dquote \<and> c \<noteq> squote \<and> c \<noteq> CHR ''#'' \<and> c \<noteq> CHR 0x0A)"

definition plain_key :: "string \<Rightarrow> bool" where
  "plain_key s \<longleftrightarrow> plain_text s \<and> CHR '':'' \<notin> set s"

definition print_entry :: "string \<times> string \<Rightarrow> string" where
  "print_entry kv = ''  '' @ fst kv @ '': '' @ snd kv @ [CHR 0x0A]"

definition print_config :: "(string \<times> (string \<times> string) list) list \<Rightarrow> string" where
  "print_config sections = concat (map (\<lambda>(name, kvs). name @ '':'' @ [CHR 0x0A] @ concat (map print_entry kvs)) sections)"

lemma strip_around:
  assumes "strip s = s" and "s \<noteq> []" and "\<forall>c \<in> set l. py_space c" and "\<forall>c \<in> set r. py_space c"
  shows "strip (l @ s @ r) = s"
proof -
  have "\<not> py_space (hd s)" "\<not> py_space (last s)" using assms(1,2) unfolding strip_def strip_by_idem_iff by auto
  moreover have "dropWhile py_space (l @ s @ r) = s @ r"
    using assms(2,3) calculation(1) by (cases s) (simp_all add: dropWhile_append2)
  moreover have "dropWhile py_space (rev r @ rev s) = rev s"
  proof -
    have "dropWhile py_space (rev r @ rev s) = dropWhile py_space (rev s)"
      using assms(4) by (intro dropWhile_append2) simp
    with \<open>\<not> py_space (last s)\<close> assms(2) show ?thesis by (cases s rule: rev_cases) simp_all
  qed
  ultimately show ?thesis by (simp add: strip_def strip_by_def)
qed

lemma plain_text_ends: "plain_text s \<Longrightarrow> s \<noteq> [] \<and> \<not> py_space (hd s) \<and> \<not> py_space (last s)"
  unfolding plain_text_def strip_def strip_by_idem_iff by auto

lemma plain_text_join:
  assumes "plain_text s" and "plain_text t"
  shows "strip (s @ m @ t) = s @ m @ t"
  using plain_text_ends [OF assms(1)] plain_text_ends [OF assms(2)]
  unfolding strip_def strip_by_idem_iff by simp

lemma find_char_at: "c \<notin> set s \<Longrightarrow> find_char c (s @ c # t) = Some (length s)"
proof -
  assume "c \<notin> set s"
  then have "takeWhile (\<lambda>d. d \<noteq> c) (s @ c # t) = s" by (induction s) auto
  then show ?thesis by (simp add: find_char_def)
qed

lemma strip_char_none: "c \<notin> set s \<Longrightarrow> strip_char c s = s"
  by (cases s) (auto simp: strip_char_def strip_by_idem_iff)

lemma strip_Nil [simp]: "strip [] = []"
  by (simp add: strip_def strip_by_def)

lemma strip_char_Nil [simp]: "strip_char c [] = []"
  by (simp add: strip_char_def strip_by_def)

lemma cut_plain: "plain_text s \<Longrightarrow> cut_comment False (s @ t) = s @ cut_comment False t"
  by (rule cut_comment_plain) (auto simp: plain_text_def)

lemma config_header:
  assumes "plain_key name"
  shows "config_line (name @ '':'' @ [CHR 0x0A]) (sec, config) = (Some name, config(name \<mapsto> Map.empty))"
proof -
  let ?raw = "name @ '':'' @ [CHR 0x0A]"
  have plain: "plain_text name" "CHR '':'' \<notin> set name" using assms by (simp_all add: plain_key_def)
  note ends = plain_text_ends [OF plain(1)]
  have "cut_comment False ?raw = ?raw" unfolding cut_plain [OF plain(1)] by (simp add: dquote_def squote_def)
  moreover have "strip (name @ '':'') = name @ '':''"
    using ends unfolding strip_def strip_by_idem_iff by (simp add: py_space_def)
  then have "strip ?raw = name @ '':''"
    using strip_around [of "name @ '':''" "[]" "[CHR 0x0A]"] by (simp add: py_space_def)
  moreover have "strip name = name" using plain(1) by (simp add: plain_text_def)
  moreover have "hd ?raw \<noteq> CHR '' ''" "hd ?raw \<noteq> CHR 0x09" using ends by (auto simp: py_space_def)
  ultimately show ?thesis using find_char_at [OF plain(2), of "[]"] by (simp add: config_line_def Let_def)
qed

lemma config_entry:
  assumes "plain_key name" and "plain_key k" and "plain_text v"
  shows "config_line (print_entry (k, v)) (Some name, config) = (Some name, config(name \<mapsto> (the (config name))(k \<mapsto> v)))"
proof -
  let ?raw = "''  '' @ k @ '': '' @ v @ [CHR 0x0A]"
  have plain: "plain_text k" "CHR '':'' \<notin> set k" "name \<noteq> []" using assms by (auto simp: plain_key_def plain_text_def)
  have "cut_comment False ?raw = ?raw"
    using cut_plain [OF plain(1)] cut_plain [OF assms(3)] by (simp add: dquote_def squote_def)
  moreover have "strip ?raw = k @ '': '' @ v"
    using strip_around [OF plain_text_join [OF plain(1) assms(3), of "'': ''"], of "''  ''" "[CHR 0x0A]"] plain_text_ends [OF plain(1)]
    by (simp add: py_space_def)
  moreover have "strip k = k" "strip v = v" "dquote \<notin> set v" "squote \<notin> set v"
    using plain(1) assms(3) by (auto simp: plain_text_def)
  moreover have "strip ('' '' @ v) = v"
    using strip_around [of v "'' ''" "[]"] assms(3) by (simp add: plain_text_def py_space_def)
  ultimately show ?thesis
    using find_char_at [OF plain(2), of "'' '' @ v"] plain_text_ends [OF plain(1)] plain(3)
    by (simp add: config_line_def print_entry_def Let_def strip_char_none)
qed

lemma config_entries:
  assumes "plain_key name" and "\<forall>(k, v) \<in> set kvs. plain_key k \<and> plain_text v" and "config name = Some m"
  shows "fold config_line (map print_entry kvs) (Some name, config) = (Some name, config(name \<mapsto> m ++ map_of (rev kvs)))"
  using assms(2,3)
proof (induction kvs arbitrary: config m)
  case Nil
  then show ?case by (simp add: map_upd_triv)
next
  case (Cons kv kvs)
  obtain k v where kv: "kv = (k, v)" by (cases kv)
  with Cons.prems config_entry [OF assms(1), of k v config] Cons.IH [of "config(name \<mapsto> m(k \<mapsto> v))" "m(k \<mapsto> v)"]
  show ?case by (simp del: fun_upd_apply add: fun_upd_same)
qed

lemma lines_of_lines:
  assumes "\<forall>l \<in> set ls. \<exists>b. l = b @ [CHR 0x0A] \<and> CHR 0x0A \<notin> set b"
  shows "lines_keep (concat ls) = ls"
  using assms
proof (induction ls)
  case (Cons l ls)
  then obtain b where b: "l = b @ [CHR 0x0A]" "CHR 0x0A \<notin> set b" by auto
  have "lines_keep ((b @ [CHR 0x0A]) @ t) = (b @ [CHR 0x0A]) # lines_keep t" for t
    using b(2) by (induction b) auto
  with b Cons show ?case by simp
qed simp

section \<open>Properties\<close>

definition plain_sections :: "(string \<times> (string \<times> string) list) list \<Rightarrow> bool" where
  "plain_sections sections \<longleftrightarrow>
     list_all (\<lambda>(name, kvs). plain_key name \<and> list_all (\<lambda>(k, v). plain_key k \<and> plain_text v) kvs) sections"

lemma no_newline: "plain_text s \<Longrightarrow> CHR 0x0A \<notin> set s"
  by (auto simp: plain_text_def)

lemma print_lines:
  assumes "plain_sections sections"
  shows "lines_keep (print_config sections) = concat (map (\<lambda>(name, kvs). (name @ '':'' @ [CHR 0x0A]) # map print_entry kvs) sections)"
proof -
  let ?ls = "concat (map (\<lambda>(name, kvs). (name @ '':'' @ [CHR 0x0A]) # map print_entry kvs) sections)"
  have "\<exists>b. l = b @ [CHR 0x0A] \<and> CHR 0x0A \<notin> set b" if l: "l \<in> set ?ls" for l
  proof -
    from l obtain name kvs where s: "(name, kvs) \<in> set sections"
      "l = name @ '':'' @ [CHR 0x0A] \<or> (\<exists>kv \<in> set kvs. l = print_entry kv)" by auto
    have ok: "plain_text name" "\<forall>kv \<in> set kvs. plain_text (fst kv) \<and> plain_text (snd kv)"
      using assms s(1) by (fastforce simp: plain_sections_def list_all_iff plain_key_def)+
    from s(2) show ?thesis
    proof
      assume "l = name @ '':'' @ [CHR 0x0A]"
      with no_newline [OF ok(1)] show ?thesis by (intro exI [of _ "name @ '':''"]) simp
    next
      assume "\<exists>kv \<in> set kvs. l = print_entry kv"
      then obtain kv where kv: "kv \<in> set kvs" "l = print_entry kv" by blast
      with ok(2) no_newline have "CHR 0x0A \<notin> set (fst kv)" "CHR 0x0A \<notin> set (snd kv)" by blast+
      with kv(2) show ?thesis by (intro exI [of _ "''  '' @ fst kv @ '': '' @ snd kv"]) (simp add: print_entry_def)
    qed
  qed
  then have "lines_keep (concat ?ls) = ?ls" by (intro lines_of_lines) blast
  moreover have "concat ?ls = print_config sections"
    by (induction sections) (auto simp: print_config_def)
  ultimately show ?thesis by simp
qed

lemma fold_sections:
  assumes "plain_sections sections"
  shows "snd (fold config_line (concat (map (\<lambda>(name, kvs). (name @ '':'' @ [CHR 0x0A]) # map print_entry kvs) sections)) (sec, config)) =
    fold (\<lambda>(name, kvs) c. c(name \<mapsto> map_of (rev kvs))) sections config"
  using assms
proof (induction sections arbitrary: sec config)
  case (Cons s sections)
  obtain name kvs where s: "s = (name, kvs)" by (cases s)
  have ok: "plain_key name" "\<forall>(k, v) \<in> set kvs. plain_key k \<and> plain_text v" "plain_sections sections"
    using Cons.prems s by (auto simp: plain_sections_def list_all_iff)
  have "fold config_line (map print_entry kvs) (Some name, config(name \<mapsto> Map.empty)) = (Some name, config(name \<mapsto> map_of (rev kvs)))"
    using config_entries [OF ok(1,2), of "config(name \<mapsto> Map.empty)" Map.empty] by simp
  then show ?case
    using Cons.IH [OF ok(3)] config_header [OF ok(1)] s by (simp del: fun_upd_apply)
qed simp

text \<open>A configuration of sections and plain values is read back as it was printed, a repeated section replacing the
  earlier one and a repeated key the earlier value.\<close>

theorem config_round_trip:
  assumes "plain_sections sections"
  shows "load_config (Some (print_config sections)) =
    fold (\<lambda>(name, kvs) c. c(name \<mapsto> map_of (rev kvs))) sections Map.empty"
  using print_lines [OF assms] fold_sections [OF assms] by (simp add: load_config_def)

theorem config_round_trip_witness:
  "get_config_value (load_config (Some (print_config [(''map'', [(''room_size'', ''3'')])]))) ''map'' ''room_size'' 7 parse_int = 3"
proof -
  have "plain_sections [(''map'', [(''room_size'', ''3'')])]"
    by (simp add: plain_sections_def plain_key_def plain_text_def strip_def strip_by_def py_space_def dquote_def squote_def)
  moreover have "parse_int ''3'' = Some 3" by code_simp
  ultimately show ?thesis by (simp add: config_round_trip get_config_value_def)
qed

text \<open>A comment sign inside a quoted value cuts the value off when a quote of the other kind stands before it,
  since both kinds of quotes toggle the same flag.\<close>

theorem mixed_quotes_cut:
  assumes "list_all (\<lambda>c. c \<noteq> dquote \<and> c \<noteq> squote \<and> c \<noteq> CHR ''#'') (before @ inner @ more)"
  shows "cut_comment False (before @ [dquote] @ inner @ [squote] @ more @ ''#'' @ rest) =
    before @ [dquote] @ inner @ [squote] @ more"
proof -
  have "\<forall>c \<in> set (before @ inner @ more). c \<noteq> dquote \<and> c \<noteq> squote \<and> c \<noteq> CHR ''#''" using assms by (simp add: list_all_iff)
  moreover have "CHR ''#'' \<noteq> dquote" "CHR ''#'' \<noteq> squote" by (simp_all add: dquote_def squote_def)
  ultimately show ?thesis
    by (simp add: cut_comment_plain dquote_def squote_def)
qed

theorem mixed_quotes_cut_witness:
  "cut_comment False (''a: '' @ [dquote] @ ''it'' @ [squote] @ ''s '' @ ''#'' @ ''1'' @ [dquote]) =
    ''a: '' @ [dquote] @ ''it'' @ [squote] @ ''s ''"
  using mixed_quotes_cut [of "''a: ''" "''it''" "''s ''" "''1'' @ [dquote]"] by (simp add: dquote_def squote_def)

end
