(* ===== verification/Preview.thy ===== *)
theory Preview
  imports WallEdges
begin

text \<open>
  The two terminal previews of the generator. A preview is a list of rows, the top row first, of
  symbols that stand for the printed characters.
\<close>

section \<open>The preview of the walls\<close>

text \<open>\<open>' '\<close>, \<open>'#'\<close>, \<open>'-'\<close>, \<open>'|'\<close>, \<open>'S'\<close>, \<open>'E'\<close> and the middle dot\<close>

datatype glyph = Blank | Post | Horizontal | Vertical | Start | Goal | Floor

definition preview_cell :: "int \<Rightarrow> int \<Rightarrow> cell \<Rightarrow> cell \<Rightarrow> glyph" where
  "preview_cell x y start goal = (if (x, y) = start then Start else if (x, y) = goal then Goal else Floor)"

definition draw_wall :: "cell \<times> cell \<Rightarrow> glyph grid \<Rightarrow> glyph grid option" where
  "draw_wall = (\<lambda>((ax, ay), (bx, by)) g.
     if ay = by then gset g (ay * 2 + 1) (bx * 2) Vertical
     else gset g (by * 2) (ax * 2 + 1) Horizontal)"

text \<open>The rows from the highest to the lowest.\<close>

definition rows_down :: "int \<Rightarrow> 'a grid \<Rightarrow> 'a grid option" where
  "rows_down n g = for_each (rev (py_range 0 n)) (\<lambda>cy rows. do { row \<leftarrow> lget g cy; Some (rows @ [row]) }) []"

definition ascii_preview :: "(edge set \<Rightarrow> edge list) \<Rightarrow> wall_edge_set \<Rightarrow> int \<Rightarrow> cell \<Rightarrow> cell \<Rightarrow> glyph grid option" where
  "ascii_preview order edge_set n start goal = do {
     let char_dim = 2 * n + 1;
     let g = new_grid char_dim char_dim Blank;
     g \<leftarrow> for_each (py_range 0 (n + 1)) (\<lambda>cy. for_each (py_range 0 (n + 1)) (\<lambda>cx g. gset g (cy * 2) (cx * 2) Post)) g;
     g \<leftarrow> for_each (py_range 0 n) (\<lambda>x g. gset g 0 (x * 2 + 1) Horizontal) g;
     g \<leftarrow> for_each (py_range 0 n) (\<lambda>x g. gset g (n * 2) (x * 2 + 1) Horizontal) g;
     g \<leftarrow> for_each (py_range 0 n) (\<lambda>y g. gset g (y * 2 + 1) 0 Vertical) g;
     g \<leftarrow> for_each (py_range 0 n) (\<lambda>y g. gset g (y * 2 + 1) (n * 2) Vertical) g;
     ws \<leftarrow> get_all_walls order edge_set;
     g \<leftarrow> for_each ws draw_wall g;
     g \<leftarrow> for_each (py_range 0 n) (\<lambda>y. for_each (py_range 0 n) (\<lambda>x g.
            gset g (y * 2 + 1) (x * 2 + 1) (preview_cell x y start goal))) g;
     rows_down char_dim g
   }"

section \<open>The preview of the blocked grid\<close>

text \<open>\<open>" S"\<close>, \<open>" E"\<close>, two full blocks, and the middle dot after a space\<close>

datatype block_glyph = Start_Cell | Goal_Cell | Wall_Cell | Free_Cell

definition ascii_preview_blocked :: "bool grid \<Rightarrow> int \<Rightarrow> int \<Rightarrow> int \<Rightarrow> int \<Rightarrow> int \<Rightarrow> block_glyph grid option" where
  "ascii_preview_blocked blocked n start_gx start_gy end_gx end_gy =
     for_each (rev (py_range 0 n)) (\<lambda>gy rows. do {
       row \<leftarrow> for_each (py_range 0 n) (\<lambda>gx row.
         if gx = start_gx \<and> gy = start_gy then Some (row @ [Start_Cell])
         else if gx = end_gx \<and> gy = end_gy then Some (row @ [Goal_Cell])
         else do { b \<leftarrow> gget blocked gy gx; Some (row @ [if b then Wall_Cell else Free_Cell]) }) [];
       Some (rows @ [row]) }) []"

section \<open>Lemmas\<close>

lemma rows_down_rev:
  assumes "length g = nat n"
  shows "rows_down n g = Some (rev g)"
proof -
  have "rows_down n g = Some ([] @ concat (map (\<lambda>cy. [g ! nat cy]) (rev (py_range 0 n))))"
    unfolding rows_down_def using assms by (intro for_each_collect) simp
  moreover have "map (\<lambda>cy. g ! nat cy) (rev (py_range 0 n)) = rev g"
    using assms by (simp add: rev_map [symmetric] map_py_range) (metis map_nth)
  ultimately show ?thesis by simp
qed

text \<open>The symbol of a position that is drawn on.\<close>

definition symbol_at :: "cell \<Rightarrow> cell \<Rightarrow> cell \<Rightarrow> glyph" where
  "symbol_at start goal = (\<lambda>(cx, cy).
     if even cx \<and> even cy then Post else if even cy then Horizontal else if even cx then Vertical
     else preview_cell (cx div 2) (cy div 2) start goal)"

text \<open>Where a wall stands: the position between the two rooms, which are in order.\<close>

definition wall_pos :: "cell \<times> cell \<Rightarrow> cell" where
  "wall_pos = (\<lambda>((ax, ay), (bx, by)). if ay = by then (bx * 2, ay * 2 + 1) else (ax * 2 + 1, by * 2))"

lemma draw_wall_draws:
  assumes "a \<in> rooms n" and "b \<in> rooms n"
  shows "draws (2 * n + 1) (2 * n + 1) (draw_wall (a, b)) {wall_pos (a, b)} (symbol_at start goal)"
proof -
  obtain ax ay bx b_y where [simp]: "a = (ax, ay)" "b = (bx, b_y)" by (cases a, cases b)
  show ?thesis
  proof (cases "ay = b_y")
    case True
    have "draws (2 * n + 1) (2 * n + 1) (\<lambda>g. gset g (ay * 2 + 1) (bx * 2) Vertical) {(bx * 2, ay * 2 + 1)} (symbol_at start goal)"
      using assms by (intro draws_gset in_gridI) (auto simp: symbol_at_def)
    with True show ?thesis by (simp add: draw_wall_def wall_pos_def)
  next
    case False
    have "draws (2 * n + 1) (2 * n + 1) (\<lambda>g. gset g (b_y * 2) (ax * 2 + 1) Horizontal) {(ax * 2 + 1, b_y * 2)} (symbol_at start goal)"
      using assms by (intro draws_gset in_gridI) (auto simp: symbol_at_def)
    with False show ?thesis by (simp add: draw_wall_def wall_pos_def)
  qed
qed

definition stands :: "wall_edge_set \<Rightarrow> int \<Rightarrow> int \<Rightarrow> int \<Rightarrow> bool" where
  "stands es n cx cy \<longleftrightarrow>
     (if even cx then cx = 0 \<or> cx = 2 * n \<or> has_wall es (cx div 2 - 1) (cy div 2) (cx div 2) (cy div 2)
      else cy = 0 \<or> cy = 2 * n \<or> has_wall es (cx div 2) (cy div 2 - 1) (cx div 2) (cy div 2))"

lemma wall_pos_iff:
  assumes "walls es \<subseteq> grid_edges n" and "even cx \<noteq> even cy"
  shows "(cx, cy) \<in> wall_pos ` {(a, b). a < b \<and> {a, b} \<in> walls es} \<longleftrightarrow>
    (if even cx then has_wall es (cx div 2 - 1) (cy div 2) (cx div 2) (cy div 2)
     else has_wall es (cx div 2) (cy div 2 - 1) (cx div 2) (cy div 2))" (is "?l \<longleftrightarrow> ?r")
proof
  assume ?l
  then obtain ax ay bx b_y where w: "{(ax, ay), (bx, b_y)} \<in> walls es" "(ax, ay) < (bx, b_y)"
    "(cx, cy) = wall_pos ((ax, ay), (bx, b_y))" by auto
  have "adjacent (ax, ay) (bx, b_y)"
    using w(1,2) assms(1) by (force simp: grid_edges_def doubleton_eq_iff adjacent_def)
  then have "(ay = b_y \<and> bx = ax + 1) \<or> (ax = bx \<and> b_y = ay + 1)"
    using w(2) by (auto simp: adjacent_def)
  then show ?r using w(1,3) by (auto simp: wall_pos_def has_wall_def)
next
  assume r: ?r
  show ?l
  proof (cases "even cx")
    case True
    let ?a = "(cx div 2 - 1, cy div 2)" and ?b = "(cx div 2, cy div 2)"
    have "(cx, cy) = wall_pos (?a, ?b)" using True assms(2) by (auto simp: wall_pos_def elim!: oddE)
    moreover have "?a < ?b" "{?a, ?b} \<in> walls es" using r True by (simp_all add: has_wall_def)
    ultimately show ?thesis by blast
  next
    case False
    let ?a = "(cx div 2, cy div 2 - 1)" and ?b = "(cx div 2, cy div 2)"
    have "(cx, cy) = wall_pos (?a, ?b)" using False assms(2) by (auto simp: wall_pos_def elim!: oddE)
    moreover have "?a < ?b" "{?a, ?b} \<in> walls es" using r False by (simp_all add: has_wall_def)
    ultimately show ?thesis by blast
  qed
qed

text \<open>Every drawing loop, with the positions it draws on.\<close>

lemma draws_posts:
  "draws (2 * n + 1) (2 * n + 1) (for_each (py_range 0 (n + 1)) (\<lambda>cy. for_each (py_range 0 (n + 1)) (\<lambda>cx g. gset g (cy * 2) (cx * 2) Post)))
    {(cx, cy). even cx \<and> even cy} (symbol_at start goal)"
proof (rule draws_cong)
  show "draws (2 * n + 1) (2 * n + 1) (for_each (py_range 0 (n + 1)) (\<lambda>cy. for_each (py_range 0 (n + 1)) (\<lambda>cx g. gset g (cy * 2) (cx * 2) Post)))
      (\<Union>cy \<in> set (py_range 0 (n + 1)). \<Union>cx \<in> set (py_range 0 (n + 1)). {(cx * 2, cy * 2)}) (symbol_at start goal)"
    by (intro draws_for_each draws_gset in_gridI) (auto simp: symbol_at_def)
  show "(x, y) \<in> (\<Union>cy \<in> set (py_range 0 (n + 1)). \<Union>cx \<in> set (py_range 0 (n + 1)). {(cx * 2, cy * 2)}) \<longleftrightarrow>
      (x, y) \<in> {(cx, cy). even cx \<and> even cy}" if "in_grid (2 * n + 1) (2 * n + 1) x y" for x y
    using that by (auto simp: in_grid_def elim!: evenE)
qed

lemma draws_row:
  assumes "c = 0 \<or> c = n" and "0 \<le> n"
  shows "draws (2 * n + 1) (2 * n + 1) (for_each (py_range 0 n) (\<lambda>x g. gset g (c * 2) (x * 2 + 1) Horizontal))
    {(cx, cy). odd cx \<and> cy = c * 2} (symbol_at start goal)"
proof (rule draws_cong)
  show "draws (2 * n + 1) (2 * n + 1) (for_each (py_range 0 n) (\<lambda>x g. gset g (c * 2) (x * 2 + 1) Horizontal))
      (\<Union>x \<in> set (py_range 0 n). {(x * 2 + 1, c * 2)}) (symbol_at start goal)"
    using assms by (intro draws_for_each draws_gset in_gridI) (auto simp: symbol_at_def)
  show "(x, y) \<in> (\<Union>x \<in> set (py_range 0 n). {(x * 2 + 1, c * 2)}) \<longleftrightarrow> (x, y) \<in> {(cx, cy). odd cx \<and> cy = c * 2}"
    if "in_grid (2 * n + 1) (2 * n + 1) x y" for x y
    using that by (auto simp: in_grid_def elim!: oddE)
qed

lemma draws_column:
  assumes "c = 0 \<or> c = n" and "0 \<le> n"
  shows "draws (2 * n + 1) (2 * n + 1) (for_each (py_range 0 n) (\<lambda>y g. gset g (y * 2 + 1) (c * 2) Vertical))
    {(cx, cy). odd cy \<and> cx = c * 2} (symbol_at start goal)"
proof (rule draws_cong)
  show "draws (2 * n + 1) (2 * n + 1) (for_each (py_range 0 n) (\<lambda>y g. gset g (y * 2 + 1) (c * 2) Vertical))
      (\<Union>y \<in> set (py_range 0 n). {(c * 2, y * 2 + 1)}) (symbol_at start goal)"
    using assms by (intro draws_for_each draws_gset in_gridI) (auto simp: symbol_at_def)
  show "(x, y) \<in> (\<Union>y \<in> set (py_range 0 n). {(c * 2, y * 2 + 1)}) \<longleftrightarrow> (x, y) \<in> {(cx, cy). odd cy \<and> cx = c * 2}"
    if "in_grid (2 * n + 1) (2 * n + 1) x y" for x y
    using that by (auto simp: in_grid_def elim!: oddE)
qed

lemma draws_cells:
  "draws (2 * n + 1) (2 * n + 1) (for_each (py_range 0 n) (\<lambda>y. for_each (py_range 0 n) (\<lambda>x g.
      gset g (y * 2 + 1) (x * 2 + 1) (preview_cell x y start goal))))
    {(cx, cy). odd cx \<and> odd cy} (symbol_at start goal)"
proof (rule draws_cong)
  show "draws (2 * n + 1) (2 * n + 1) (for_each (py_range 0 n) (\<lambda>y. for_each (py_range 0 n) (\<lambda>x g.
        gset g (y * 2 + 1) (x * 2 + 1) (preview_cell x y start goal))))
      (\<Union>y \<in> set (py_range 0 n). \<Union>x \<in> set (py_range 0 n). {(x * 2 + 1, y * 2 + 1)}) (symbol_at start goal)"
    by (intro draws_for_each draws_gset in_gridI) (auto simp: symbol_at_def)
  show "(x, y) \<in> (\<Union>y \<in> set (py_range 0 n). \<Union>x \<in> set (py_range 0 n). {(x * 2 + 1, y * 2 + 1)}) \<longleftrightarrow>
      (x, y) \<in> {(cx, cy). odd cx \<and> odd cy}" if "in_grid (2 * n + 1) (2 * n + 1) x y" for x y
    using that by (auto simp: in_grid_def elim!: oddE)
qed

lemma draws_walls:
  assumes "iterates order" and "walls es \<subseteq> grid_edges n"
  obtains ws where "get_all_walls order es = Some ws"
    "draws (2 * n + 1) (2 * n + 1) (for_each ws draw_wall) (wall_pos ` {(a, b). a < b \<and> {a, b} \<in> walls es}) (symbol_at start goal)"
proof -
  obtain ws where ws: "get_all_walls order es = Some ws" "set ws = {(a, b). a < b \<and> {a, b} \<in> walls es}"
    by (rule get_all_walls_correct [OF assms])
  have "draws (2 * n + 1) (2 * n + 1) (draw_wall w) {wall_pos w} (symbol_at start goal)" if "w \<in> set ws" for w
  proof -
    obtain a b where w: "w = (a, b)" "{a, b} \<in> walls es" using \<open>w \<in> set ws\<close> ws(2) by auto
    then have "{a, b} \<in> grid_edges n" using assms(2) by blast
    then have "a \<in> rooms n" "b \<in> rooms n" by (auto elim!: grid_edges_pair simp: doubleton_eq_iff)
    with w(1) show ?thesis by (simp add: draw_wall_draws)
  qed
  then have "draws (2 * n + 1) (2 * n + 1) (for_each ws draw_wall) (\<Union>w \<in> set ws. {wall_pos w}) (symbol_at start goal)"
    by (rule draws_for_each)
  with ws that show ?thesis by (simp add: UNION_singleton_eq_range)
qed

lemma preview_rows:
  assumes "wf_grid n n blocked"
  shows "ascii_preview_blocked blocked n sx sy ex ey =
    Some (map (\<lambda>gy. map (\<lambda>gx. if (gx, gy) = (sx, sy) then Start_Cell else if (gx, gy) = (ex, ey) then Goal_Cell
        else if cell_at blocked gx gy then Wall_Cell else Free_Cell) (py_range 0 n)) (rev (py_range 0 n)))"
proof -
  let ?g = "\<lambda>gx gy. if (gx, gy) = (sx, sy) then Start_Cell else if (gx, gy) = (ex, ey) then Goal_Cell
        else if cell_at blocked gx gy then Wall_Cell else Free_Cell"
  let ?row = "\<lambda>gy. for_each (py_range 0 n) (\<lambda>gx row.
         if gx = sx \<and> gy = sy then Some (row @ [Start_Cell])
         else if gx = ex \<and> gy = ey then Some (row @ [Goal_Cell])
         else do { b \<leftarrow> gget blocked gy gx; Some (row @ [if b then Wall_Cell else Free_Cell]) }) []"
  have row: "?row gy = Some (map (\<lambda>gx. ?g gx gy) (py_range 0 n))" if y: "gy \<in> set (py_range 0 n)" for gy
  proof -
    have "?row gy = Some ([] @ concat (map (\<lambda>gx. [?g gx gy]) (py_range 0 n)))"
    proof (rule for_each_collect)
      fix gx :: int and row
      assume "gx \<in> set (py_range 0 n)"
      then have "gget blocked gy gx = Some (cell_at blocked gx gy)"
        using y assms by (intro gget_in [of n n]) (auto simp: in_grid_def)
      then show "(if gx = sx \<and> gy = sy then Some (row @ [Start_Cell])
         else if gx = ex \<and> gy = ey then Some (row @ [Goal_Cell])
         else do { b \<leftarrow> gget blocked gy gx; Some (row @ [if b then Wall_Cell else Free_Cell]) }) = Some (row @ [?g gx gy])"
        by simp
    qed
    then show ?thesis by simp
  qed
  have "ascii_preview_blocked blocked n sx sy ex ey =
      Some ([] @ concat (map (\<lambda>gy. [map (\<lambda>gx. ?g gx gy) (py_range 0 n)]) (rev (py_range 0 n))))"
    unfolding ascii_preview_blocked_def by (rule for_each_collect) (use row in simp)
  then show ?thesis by simp
qed

section \<open>Properties\<close>

text \<open>The wall preview shows a post at every crossing, the cells with start and goal marked, and a wall exactly where
  the boundary runs or the wall set has a wall; every other position is blank. The highest row is printed first.\<close>

theorem ascii_preview_exact:
  assumes "iterates order" and "walls es \<subseteq> grid_edges n" and "0 \<le> n"
  shows "\<exists>rows. ascii_preview order es n start goal = Some rows \<and> length rows = nat (2 * n + 1) \<and>
    (\<forall>cx cy. in_grid (2 * n + 1) (2 * n + 1) cx cy \<longrightarrow>
      rows ! nat (2 * n - cy) ! nat cx =
        (if even cx \<and> even cy then Post
         else if odd cx \<and> odd cy then preview_cell (cx div 2) (cy div 2) start goal
         else if \<not> stands es n cx cy then Blank
         else if even cy then Horizontal else Vertical))"
proof -
  let ?d = "2 * n + 1" and ?V = "symbol_at start goal"
  obtain ws where ws: "get_all_walls order es = Some ws"
    "draws ?d ?d (for_each ws draw_wall) (wall_pos ` {(a, b). a < b \<and> {a, b} \<in> walls es}) ?V" (is "draws _ _ _ ?W _")
    by (rule draws_walls [OF assms(1,2)])
  let ?S = "{(cx, cy). even cx \<and> even cy} \<union> ({(cx, cy). odd cx \<and> cy = 0 * 2} \<union> ({(cx, cy). odd cx \<and> cy = n * 2} \<union>
      ({(cx, cy). odd cy \<and> cx = 0 * 2} \<union> ({(cx, cy). odd cy \<and> cx = n * 2} \<union> (?W \<union> {(cx, cy). odd cx \<and> odd cy})))))"
  note drawn = draws_seq [OF draws_posts draws_seq [OF draws_row [OF disjI1 [OF refl] assms(3)] draws_seq [OF draws_row [OF disjI2 [OF refl] assms(3)]
    draws_seq [OF draws_column [OF disjI1 [OF refl] assms(3)] draws_seq [OF draws_column [OF disjI2 [OF refl] assms(3)] draws_seq [OF ws(2) draws_cells]]]]]]
  obtain g where g: "\<And>x y. in_grid ?d ?d x y \<Longrightarrow> cell_at g x y = (if (x, y) \<in> ?S then ?V (x, y) else Blank)"
    and run: "ascii_preview order es n start goal = rows_down ?d g" and wf: "wf_grid ?d ?d g"
    by (rule drawsD [OF drawn wf_new_grid [where v = Blank]], rule that [rotated 2], assumption)
      (auto simp: ascii_preview_def Let_def bind_eq_Some_conv ws(1))
  have len: "length g = nat ?d" using wf by (simp add: wf_grid_def)
  have "rev g ! nat (2 * n - cy) ! nat cx =
      (if even cx \<and> even cy then Post else if odd cx \<and> odd cy then preview_cell (cx div 2) (cy div 2) start goal
       else if \<not> stands es n cx cy then Blank else if even cy then Horizontal else Vertical)"
    if c: "in_grid ?d ?d cx cy" for cx cy
  proof -
    have "rev g ! nat (2 * n - cy) = g ! nat cy"
      using c len by (subst rev_nth) (auto simp: in_grid_def intro!: arg_cong [where f = "(!) g"])
    then have "rev g ! nat (2 * n - cy) ! nat cx = cell_at g cx cy" by (simp add: cell_at_def)
    also have "\<dots> = (if (cx, cy) \<in> ?S then ?V (cx, cy) else Blank)" by (rule g [OF c])
    finally show ?thesis
      using wall_pos_iff [OF assms(2), of cx cy] by (auto simp: symbol_at_def stands_def)
  qed
  with run len rows_down_rev [OF len] show ?thesis by simp
qed

theorem ascii_preview_exact_witness:
  "map_option (\<lambda>rows. rows ! 3 ! 1) (ascii_preview canonical_order (wall_edge_set_init 2) 2 (0, 0) (1, 1)) = Some Start \<and>
   map_option (\<lambda>rows. rows ! 3 ! 2) (ascii_preview canonical_order (wall_edge_set_init 2) 2 (0, 0) (1, 1)) = Some Vertical"
proof -
  have "walls (wall_edge_set_init 2) \<subseteq> grid_edges 2" by (simp add: walls_init)
  from ascii_preview_exact [OF iterates_canonical this, of "(0, 0)" "(1, 1)"] obtain rows where rows:
    "ascii_preview canonical_order (wall_edge_set_init 2) 2 (0, 0) (1, 1) = Some rows"
    "\<forall>cx cy. in_grid 5 5 cx cy \<longrightarrow> rows ! nat (4 - cy) ! nat cx =
        (if even cx \<and> even cy then Post
         else if odd cx \<and> odd cy then preview_cell (cx div 2) (cy div 2) (0, 0) (1, 1)
         else if \<not> stands (wall_edge_set_init 2) 2 cx cy then Blank
         else if even cy then Horizontal else Vertical)" by auto
  have "stands (wall_edge_set_init 2) 2 2 1" by code_simp
  then have "rows ! nat (4 - 1) ! nat 1 = Start" "rows ! nat (4 - 1) ! nat 2 = Vertical"
    using rows(2) [rule_format, of 1 1] rows(2) [rule_format, of 2 1] by (simp_all add: in_grid_def preview_cell_def)
  with rows(1) show ?thesis by simp
qed

text \<open>The preview of a blocked grid shows one symbol for every cell: the start, then the goal, otherwise whether the
  cell is blocked; the highest row is printed first.\<close>

theorem ascii_preview_blocked_exact:
  assumes "wf_grid n n blocked"
  shows "ascii_preview_blocked blocked n sx sy ex ey =
    Some (map (\<lambda>gy. map (\<lambda>gx. if (gx, gy) = (sx, sy) then Start_Cell else if (gx, gy) = (ex, ey) then Goal_Cell
        else if cell_at blocked gx gy then Wall_Cell else Free_Cell) (py_range 0 n)) (rev (py_range 0 n)))"
  using assms by (rule preview_rows)

theorem ascii_preview_blocked_exact_witness:
  "ascii_preview_blocked [[False, True], [False, False]] 2 0 0 1 1 =
    Some [[Free_Cell, Goal_Cell], [Start_Cell, Wall_Cell]]"
proof -
  have "wf_grid 2 2 [[False, True], [False, False]]" by (simp add: wf_grid_def)
  from ascii_preview_blocked_exact [OF this, of 0 0 1 1] show ?thesis
    by (simp add: py_range_Cons cell_at_def)
qed

end
