(* ===== verification/PyPath.thy ===== *)
theory PyPath
  imports PyText
begin

text \<open>
  POSIX paths as \<open>os.path\<close> and \<open>pathlib\<close> treat them: splitting at slashes, \<open>join\<close>,
  \<open>normpath\<close>, \<open>basename\<close> and \<open>splitext\<close>.
\<close>

definition slash :: char where
  "slash = CHR ''/''"

fun split_on :: "char \<Rightarrow> string \<Rightarrow> string list" where
  "split_on c [] = [[]]"
| "split_on c (d # s) =
     (if d = c then [] # split_on c s
      else case split_on c s of [] \<Rightarrow> [[d]] | p # ps \<Rightarrow> (d # p) # ps)"

fun join_with :: "char \<Rightarrow> string list \<Rightarrow> string" where
  "join_with c [] = []"
| "join_with c [p] = p"
| "join_with c (p # q # ps) = p @ c # join_with c (q # ps)"

definition path_join :: "string \<Rightarrow> string \<Rightarrow> string" where
  "path_join a b =
     (if b \<noteq> [] \<and> hd b = slash then b
      else if a = [] \<or> last a = slash then a @ b
      else a @ slash # b)"

definition is_absolute :: "string \<Rightarrow> bool" where
  "is_absolute p \<longleftrightarrow> p \<noteq> [] \<and> hd p = slash"

text \<open>The loop of \<open>normpath\<close> over the components.\<close>

fun norm_comps :: "bool \<Rightarrow> string list \<Rightarrow> string list \<Rightarrow> string list" where
  "norm_comps absolute acc [] = acc"
| "norm_comps absolute acc (c # cs) =
     (if c = [] \<or> c = ''.'' then norm_comps absolute acc cs
      else if c \<noteq> ''..'' \<or> (\<not> absolute \<and> acc = []) \<or> (acc \<noteq> [] \<and> last acc = ''..'')
      then norm_comps absolute (acc @ [c]) cs
      else norm_comps absolute (butlast acc) cs)"

definition normpath :: "string \<Rightarrow> string" where
  "normpath p =
     (if p = [] then ''.''
      else
        let lead = (if \<not> is_absolute p then []
                    else if has_prefix ''//'' p \<and> \<not> has_prefix ''///'' p then [slash, slash] else [slash]);
            body = join_with slash (norm_comps (is_absolute p) [] (split_on slash p));
            result = lead @ body
        in if result = [] then ''.'' else result)"

definition abspath :: "string \<Rightarrow> string \<Rightarrow> string" where
  "abspath cwd p = normpath (if is_absolute p then p else path_join cwd p)"

definition basename :: "string \<Rightarrow> string" where
  "basename p = last (split_on slash p)"

text \<open>\<open>splitext(p)[0]\<close> for a name without slashes: leading dots start no extension.\<close>

definition splitext_root :: "string \<Rightarrow> string" where
  "splitext_root p =
     (let ext = takeWhile (\<lambda>c. c \<noteq> CHR ''.'') (rev p); root = rev (drop (Suc (length ext)) (rev p)) in
      if CHR ''.'' \<in> set p \<and> (\<exists>c \<in> set root. c \<noteq> CHR ''.'') then root else p)"

section \<open>Components\<close>

lemma split_on_not_Nil [simp]: "split_on c s \<noteq> []"
  by (induction s) (auto split: list.splits)

lemma split_on_single: "c \<notin> set s \<Longrightarrow> split_on c s = [s]"
  by (induction s) auto

lemma split_on_append: "c \<notin> set t \<Longrightarrow> split_on c (s @ c # t) = split_on c s @ [t]"
  by (induction s) (auto simp: split_on_single split: list.splits)

lemma split_on_no_sep: "p \<in> set (split_on c s) \<Longrightarrow> c \<notin> set p"
  by (induction s arbitrary: p) (auto split: if_splits list.splits)

lemma join_split [simp]: "join_with c (split_on c s) = s"
proof (induction s)
  case (Cons d s)
  obtain p ps where ps: "split_on c s = p # ps" by (cases "split_on c s") auto
  with Cons show ?case by (cases ps) auto
qed simp

text \<open>The last component decides: a name without separator below a directory.\<close>

lemma norm_comps_append: "norm_comps a acc (xs @ ys) = norm_comps a (norm_comps a acc xs) ys"
  by (induction xs arbitrary: acc) auto

text \<open>A plain name is one component that is neither empty nor a dot name.\<close>

definition plain_name :: "string \<Rightarrow> bool" where
  "plain_name n \<longleftrightarrow> slash \<notin> set n \<and> n \<noteq> [] \<and> n \<noteq> ''.'' \<and> n \<noteq> ''..''"

lemma norm_comps_plain:
  assumes "plain_name n"
  shows "norm_comps a acc [n] = acc @ [n]"
  using assms by (simp add: plain_name_def)

text \<open>Joining a plain name adds exactly that component to the normalised directory.\<close>

lemma join_plain_comps:
  assumes "plain_name n" and "dir \<noteq> []"
  shows "norm_comps a [] (split_on slash (path_join dir n)) = norm_comps a [] (split_on slash dir) @ [n]"
proof -
  have hd: "hd n \<noteq> slash" using assms(1) by (cases n) (auto simp: plain_name_def)
  show ?thesis
  proof (cases "last dir = slash")
    case True
    then obtain d where d: "dir = d @ [slash]" using assms(2) by (metis append_butlast_last_id)
    have "split_on slash (d @ [slash]) = split_on slash d @ [[]]"
      using split_on_append [of slash "[]" d] by simp
    then show ?thesis
      using assms d True hd by (simp add: path_join_def plain_name_def split_on_append norm_comps_append)
  next
    case False
    then show ?thesis
      using assms hd by (simp add: path_join_def plain_name_def split_on_append norm_comps_append)
  qed
qed

definition path_comps :: "string \<Rightarrow> string list" where
  "path_comps p = norm_comps (is_absolute p) [] (split_on slash p)"

lemma path_comps_join:
  assumes "dir \<noteq> []" and "slash \<notin> set n" and "n \<noteq> ''..''"
  shows "path_comps (path_join dir n) = path_comps dir @ (if n = [] \<or> n = ''.'' then [] else [n])"
proof -
  have hd: "n = [] \<or> hd n \<noteq> slash" using assms(2) by (cases n) auto
  then have abs: "is_absolute (path_join dir n) = is_absolute dir"
    using assms(1) by (auto simp: is_absolute_def path_join_def)
  show ?thesis
  proof (cases "n = [] \<or> n = ''.''")
    case False
    with assms(2,3) have "plain_name n" by (simp add: plain_name_def)
    from join_plain_comps [OF this assms(1)] abs False show ?thesis by (simp add: path_comps_def)
  next
    case True
    have "norm_comps a [] (split_on slash (path_join dir n)) = norm_comps a [] (split_on slash dir)" for a
    proof (cases "last dir = slash")
      case ends: True
      then obtain d where d: "dir = d @ [slash]" using assms(1) by (metis append_butlast_last_id)
      have "split_on slash (d @ [slash]) = split_on slash d @ [[]]"
        using split_on_append [of slash "[]" d] by simp
      with True ends d assms(2) split_on_append [of slash n d] show ?thesis
        by (auto simp: path_join_def norm_comps_append slash_def)
    next
      case False
      with True assms show ?thesis
        by (auto simp: path_join_def split_on_append norm_comps_append slash_def)
    qed
    with abs True show ?thesis by (simp add: path_comps_def)
  qed
qed

definition relative :: "string \<Rightarrow> bool" where
  "relative p \<longleftrightarrow> p \<noteq> [] \<and> hd p \<noteq> slash"

lemma path_join_inj: "relative m \<Longrightarrow> relative n \<Longrightarrow> path_join base m = path_join base n \<longleftrightarrow> m = n"
  by (auto simp: path_join_def relative_def)


text \<open>Joining a directory and a name: the name is the last component, and what stands before it does not depend on it.\<close>

definition dir_prefix :: "string \<Rightarrow> string" where
  "dir_prefix d = (if d = [] \<or> last d = slash then d else d @ [slash])"

lemma path_join_prefix: "relative n \<Longrightarrow> path_join d n = dir_prefix d @ n"
  by (auto simp: path_join_def relative_def dir_prefix_def)

lemma basename_path_join:
  assumes "relative n" and "slash \<notin> set n"
  shows "basename (path_join d n) = n"
proof (cases "d = []")
  case True
  then show ?thesis using assms by (simp add: path_join_prefix dir_prefix_def basename_def split_on_single)
next
  case False
  then obtain d' where "dir_prefix d = d' @ [slash]"
    unfolding dir_prefix_def by (metis append_butlast_last_id)
  then show ?thesis using assms split_on_append [OF assms(2), of d'] by (simp add: path_join_prefix basename_def)
qed

section \<open>Normal forms\<close>

lemma norm_comps_only_plain:
  assumes "\<forall>c \<in> set cs. slash \<notin> set c" and "\<forall>c \<in> set acc. plain_name c"
  shows "\<forall>c \<in> set (norm_comps True acc cs). plain_name c"
  using assms
proof (induction cs arbitrary: acc)
  case (Cons c cs)
  have "last acc \<noteq> ''..''" if "acc \<noteq> []" using that Cons.prems(2) last_in_set by (fastforce simp: plain_name_def)
  then have step: "norm_comps True acc (c # cs) = norm_comps True (if c = [] \<or> c = ''.'' then acc
      else if c \<noteq> ''..'' then acc @ [c] else butlast acc) cs" by auto
  show ?case unfolding step
  proof (rule Cons.IH)
    show "\<forall>c \<in> set cs. slash \<notin> set c" using Cons.prems(1) by simp
    show "\<forall>d \<in> set (if c = [] \<or> c = ''.'' then acc else if c \<noteq> ''..'' then acc @ [c] else butlast acc). plain_name d"
      using Cons.prems by (auto simp: plain_name_def dest: in_set_butlastD)
  qed
qed simp

lemma norm_comps_fixed: "\<forall>c \<in> set cs. plain_name c \<Longrightarrow> norm_comps a acc cs = acc @ cs"
  by (induction cs arbitrary: acc) (auto simp: plain_name_def)

lemma split_join: "ps \<noteq> [] \<Longrightarrow> \<forall>p \<in> set ps. c \<notin> set p \<Longrightarrow> split_on c (join_with c ps) = ps"
proof (induction c ps rule: join_with.induct)
  case (3 c p q ps)
  have "split_on c (p @ c # s) = p # split_on c s" if "c \<notin> set p" for s
    using that by (induction p) auto
  with 3 show ?case by simp
qed (simp_all add: split_on_single)

lemma norm_comps_joined:
  assumes "\<forall>c \<in> set ps. plain_name c"
  shows "norm_comps True [] (split_on slash (join_with slash ps)) = ps"
proof (cases "ps = []")
  case False
  with assms have "split_on slash (join_with slash ps) = ps" by (intro split_join) (auto simp: plain_name_def)
  with assms show ?thesis by (simp add: norm_comps_fixed)
qed simp

lemma join_plain_start: "\<forall>c \<in> set ps. plain_name c \<Longrightarrow> join_with slash ps = [] \<or> hd (join_with slash ps) \<noteq> slash"
proof (cases ps)
  case (Cons p qs)
  assume "\<forall>c \<in> set ps. plain_name c"
  then have p: "p \<noteq> []" "slash \<notin> set p" using Cons by (simp_all add: plain_name_def)
  then have "hd p \<noteq> slash" by (metis hd_in_set)
  then show ?thesis using Cons p(1) by (cases qs) simp_all
qed simp

lemma normpath_absolute:
  assumes "is_absolute p"
  obtains ps where "\<forall>c \<in> set ps. plain_name c" "normpath p = [slash] @ join_with slash ps \<or> normpath p = [slash, slash] @ join_with slash ps"
proof -
  let ?ps = "norm_comps True [] (split_on slash p)"
  have "\<forall>c \<in> set ?ps. plain_name c" by (rule norm_comps_only_plain) (auto dest: split_on_no_sep)
  moreover have "p \<noteq> []" using assms by (auto simp: is_absolute_def)
  with assms have "normpath p = (if has_prefix ''//'' p \<and> \<not> has_prefix ''///'' p then [slash, slash] else [slash]) @ join_with slash ?ps"
    unfolding normpath_def Let_def by simp
  then have "normpath p = [slash] @ join_with slash ?ps \<or> normpath p = [slash, slash] @ join_with slash ?ps"
    by (simp split: if_splits)
  ultimately show thesis by (rule that)
qed

text \<open>Normalising an absolute path gives an absolute path that is its own normal form.\<close>

lemma normpath_idem:
  assumes "is_absolute p"
  shows "is_absolute (normpath p) \<and> normpath (normpath p) = normpath p"
proof (rule normpath_absolute [OF assms])
  fix ps
  assume ps: "\<forall>c \<in> set ps. plain_name c" and
    form: "normpath p = [slash] @ join_with slash ps \<or> normpath p = [slash, slash] @ join_with slash ps"
  note start = join_plain_start [OF ps]
  note joined = norm_comps_joined [OF ps]
  have one: "normpath (slash # join_with slash ps) = slash # join_with slash ps"
    using start joined by (cases "join_with slash ps") (auto simp: normpath_def is_absolute_def Let_def slash_def)
  have two: "normpath (slash # slash # join_with slash ps) = slash # slash # join_with slash ps"
    using start joined by (cases "join_with slash ps") (auto simp: normpath_def is_absolute_def Let_def slash_def)
  from form one two show ?thesis by (auto simp: is_absolute_def)
qed

lemma abspath_normal: "is_absolute p \<Longrightarrow> abspath cwd (normpath p) = normpath p"
  by (simp add: abspath_def normpath_idem)

lemma abspath_absolute: "is_absolute here \<Longrightarrow> is_absolute (abspath here p) \<and> normpath (abspath here p) = abspath here p"
proof -
  assume "is_absolute here"
  then have "is_absolute (if is_absolute p then p else path_join here p)" by (auto simp: is_absolute_def path_join_def)
  then show ?thesis unfolding abspath_def by (rule normpath_idem)
qed

end
