(* ===== verification/ArgParse.thy ===== *)
theory ArgParse
  imports PyText
begin

text \<open>
  \<open>argparse\<close> as the scripts use it, in the version of Python the images of the repository carry (3.11): parsers
  whose arguments are options that take one value or none. An option may be written \<open>--name value\<close>, \<open>--name=value\<close>
  or shortened to a prefix that only one name has; one-letter names also take \<open>-nvalue\<close>. What a parser accepts as a
  value (its \<open>type\<close> and \<open>choices\<close>) is a predicate; the values stay texts and are read by the programs.
\<close>

section \<open>Parsers\<close>

datatype arg_action = Store | Store_True | Append | Show_Help

record arg_option =
  opt_names :: "string list"
  opt_dest :: string
  opt_action :: arg_action
  opt_valid :: "string \<Rightarrow> bool"
  opt_required :: bool

definition dash :: char where
  "dash = CHR ''-''"

text \<open>The help option that every parser has unless it is made without.\<close>

definition help_option :: arg_option where
  "help_option = \<lparr>opt_names = [''-h'', ''--help''], opt_dest = ''help'', opt_action = Show_Help, opt_valid = (\<lambda>_. True),
     opt_required = False\<rparr>"

text \<open>\<open>add_argument(*names)\<close> for an option with a value.\<close>

definition value_option :: "string \<Rightarrow> string list \<Rightarrow> (string \<Rightarrow> bool) \<Rightarrow> arg_option" where
  "value_option name names valid = \<lparr>opt_names = names, opt_dest = name, opt_action = Store, opt_valid = valid, opt_required = False\<rparr>"

definition any_text :: "string \<Rightarrow> bool" where
  "any_text s \<longleftrightarrow> True"

definition is_int_text :: "string \<Rightarrow> bool" where
  "is_int_text s \<longleftrightarrow> parse_int s \<noteq> None"

definition takes_value :: "arg_option \<Rightarrow> bool" where
  "takes_value opt \<longleftrightarrow> opt_action opt = Store \<or> opt_action opt = Append"

definition find_option :: "arg_option list \<Rightarrow> string \<Rightarrow> arg_option option" where
  "find_option p name = find (\<lambda>opt. name \<in> set (opt_names opt)) p"

lemma find_option_in: "find_option p n = Some opt \<Longrightarrow> opt \<in> set p \<and> n \<in> set (opt_names opt)"
  unfolding find_option_def by (induction p) (auto split: if_splits)

section \<open>Classifying the arguments\<close>

text \<open>The text that comes with a name: behind an equals sign (\<open>True\<close>), or directly behind one letter.\<close>

type_synonym attached = "(bool \<times> string) option"

datatype arg_class =
    Plain_Value
  | Named arg_option string attached
  | Unknown_Name
  | Ambiguous_Name

definition option_tuples :: "arg_option list \<Rightarrow> string \<Rightarrow> arg_class list" where
  "option_tuples p s =
     concat (map (\<lambda>opt. concat (map (\<lambda>name.
       if s ! 1 = dash then
         (let (start, sep, v) = partition_at (CHR ''='') s in
          if has_prefix start name then [Named opt name (if sep then Some (True, v) else None)] else [])
       else if name = take 2 s then [Named opt name (Some (False, drop 2 s))]
       else if has_prefix s name then [Named opt name None] else []) (opt_names opt))) p)"

text \<open>\<open>^-\d+$|^-\d*\.\d+$\<close>, where \<open>$\<close> also matches before a line feed at the end.\<close>

definition negative_number :: "string \<Rightarrow> bool" where
  "negative_number s =
     (let t = tl s; t = (if t \<noteq> [] \<and> last t = CHR 0x0A then butlast t else t);
          (a, dot, b) = partition_at (CHR ''.'') t in
      list_all is_digit a \<and> (if dot then b \<noteq> [] \<and> list_all is_digit b else a \<noteq> []))"

definition parse_optional :: "arg_option list \<Rightarrow> string \<Rightarrow> arg_class" where
  "parse_optional p s =
     (if s = [] \<or> hd s \<noteq> dash then Plain_Value
      else case find_option p s of
        Some opt \<Rightarrow> Named opt s None
      | None \<Rightarrow>
          if length s = 1 then Plain_Value
          else let (name, sep, v) = partition_at (CHR ''='') s in
            case (if sep then find_option p name else None) of
              Some opt \<Rightarrow> Named opt name (Some (True, v))
            | None \<Rightarrow>
                (case option_tuples p s of
                   [] \<Rightarrow> if negative_number s \<or> CHR '' '' \<in> set s then Plain_Value else Unknown_Name
                 | [c] \<Rightarrow> c
                 | _ \<Rightarrow> Ambiguous_Name))"

text \<open>Everything behind a double dash is a value; the double dash itself is none (\<open>None\<close>).\<close>

fun classify :: "arg_option list \<Rightarrow> string list \<Rightarrow> (string \<times> arg_class option) list" where
  "classify p [] = []"
| "classify p (s # ss) =
     (if s = ''--'' then (s, None) # map (\<lambda>v. (v, Some Plain_Value)) ss
      else (s, Some (parse_optional p s)) # classify p ss)"

section \<open>Consuming an option\<close>

datatype arg_error =
    Ambiguous_Option string
  | Expected_Argument string
  | Ignored_Argument string
  | Invalid_Argument string string
  | Missing_Required "string list"
  | Unrecognized "string list"
  | Parser_Error

datatype arg_end = Help_Shown | Usage_Error arg_error

text \<open>
  What one argument asks for: the actions with their values, texts the parser does not know, and the arguments that
  are left. Letters without a value may stand behind one dash together.
\<close>

function consume_optional ::
    "arg_option list \<Rightarrow> arg_option \<Rightarrow> string \<Rightarrow> attached \<Rightarrow> (string \<times> arg_class option) list \<Rightarrow>
      arg_error + (arg_option \<times> string) list \<times> string list \<times> (string \<times> arg_class option) list" where
  "consume_optional p opt name None rest =
     (if takes_value opt then
        (case rest of
           (v, Some Plain_Value) # rest' \<Rightarrow> Inr ([(opt, v)], [], rest')
         | _ \<Rightarrow> Inl (Expected_Argument (opt_dest opt)))
      else Inr ([(opt, [])], [], rest))"
| "consume_optional p opt name (Some (sep, v)) rest =
     (if takes_value opt then Inr ([(opt, v)], [], rest)
      else if name ! 1 \<noteq> dash \<and> v \<noteq> [] then
        (if sep \<or> hd v = dash then Inl (Ignored_Argument v)
         else case find_option p [dash, hd v] of
             None \<Rightarrow> Inr ([(opt, [])], [dash # v], rest)
           | Some opt' \<Rightarrow>
               let t = tl v in
               (case consume_optional p opt' [dash, hd v]
                   (if t = [] then None else if hd t = CHR ''='' then Some (True, tl t) else Some (False, t)) rest of
                  Inl err \<Rightarrow> Inl err
                | Inr (acts, extras, rest') \<Rightarrow> Inr ((opt, []) # acts, extras, rest')))
      else Inl (Ignored_Argument v))"
  by pat_completeness auto
termination
  by (relation "measure (\<lambda>(p, opt, name, e, rest). case e of None \<Rightarrow> 0 | Some (sep, v) \<Rightarrow> Suc (length v))") auto

declare consume_optional.simps(2) [simp del]

section \<open>Parsing\<close>

text \<open>The values given for each option, in order; an option without value has the empty list.\<close>

type_synonym namespace = "string \<rightharpoonup> string list"

definition store_value :: "arg_option \<Rightarrow> string \<Rightarrow> namespace \<Rightarrow> namespace" where
  "store_value opt v ns =
     (if opt_action opt = Append then ns(opt_dest opt \<mapsto> (case ns (opt_dest opt) of None \<Rightarrow> [] | Some vs \<Rightarrow> vs) @ [v])
      else ns(opt_dest opt \<mapsto> [v]))"

definition take_action :: "arg_option \<Rightarrow> string \<Rightarrow> namespace \<Rightarrow> arg_end + namespace" where
  "take_action opt v ns =
     (case opt_action opt of
        Show_Help \<Rightarrow> Inl Help_Shown
      | Store_True \<Rightarrow> Inr (ns(opt_dest opt \<mapsto> []))
      | _ \<Rightarrow>
          if opt_valid opt v then Inr (store_value opt v ns) else Inl (Usage_Error (Invalid_Argument (opt_dest opt) v)))"

fun take_actions :: "(arg_option \<times> string) list \<Rightarrow> namespace \<Rightarrow> arg_end + namespace" where
  "take_actions [] ns = Inr ns"
| "take_actions ((opt, v) # acts) ns = (case take_action opt v ns of Inl e \<Rightarrow> Inl e | Inr ns' \<Rightarrow> take_actions acts ns')"

lemma consume_shorter: "consume_optional p opt name e rest = Inr (acts, extras, rest') \<Longrightarrow> length rest' \<le> length rest"
proof (induction p opt name e rest arbitrary: acts extras rule: consume_optional.induct)
  case (1 p opt name rest)
  show ?case
  proof (cases "takes_value opt")
    case True
    with "1.prems" obtain v where "rest = (v, Some Plain_Value) # rest'"
      by (auto split: list.splits prod.splits option.splits arg_class.splits)
    then show ?thesis by simp
  qed (use "1.prems" in simp)
next
  case (2 p opt name sep v rest)
  show ?case
  proof (cases "takes_value opt \<or> find_option p [dash, hd v] = None")
    case True
    with "2.prems" show ?thesis by (auto simp: consume_optional.simps(2) split: if_splits)
  next
    case False
    then obtain opt' where opt: "\<not> takes_value opt" "find_option p [dash, hd v] = Some opt'" by auto
    then have ok: "name ! 1 \<noteq> dash \<and> v \<noteq> []" "\<not> (sep \<or> hd v = dash)"
      using "2.prems" by (auto simp: consume_optional.simps(2) split: if_splits)
    let ?e = "if tl v = [] then None else if hd (tl v) = CHR ''='' then Some (True, tl (tl v)) else Some (False, tl v)"
    have "consume_optional p opt name (Some (sep, v)) rest = (case consume_optional p opt' [dash, hd v] ?e rest of
        Inl err \<Rightarrow> Inl err | Inr (acts, extras, rest') \<Rightarrow> Inr ((opt, []) # acts, extras, rest'))"
      using opt ok by (subst consume_optional.simps(2)) (simp add: Let_def del: consume_optional.simps)
    then have "\<exists>acts'. consume_optional p opt' [dash, hd v] ?e rest = Inr (acts', extras, rest')"
      using "2.prems" by (cases "consume_optional p opt' [dash, hd v] ?e rest") auto
    with "2.IH" [OF opt(1) ok opt(2) refl] show ?thesis by blast
  qed
qed

function consume_args ::
    "arg_option list \<Rightarrow> (string \<times> arg_class option) list \<Rightarrow> namespace \<Rightarrow> string list \<Rightarrow> arg_end + namespace \<times> string list" where
  "consume_args p [] ns extras = Inr (ns, extras)"
| "consume_args p ((s, Some (Named opt name e)) # rest) ns extras =
     (case consume_optional p opt name e rest of
        Inl err \<Rightarrow> Inl (Usage_Error err)
      | Inr (acts, unknown, rest') \<Rightarrow>
          (case take_actions acts ns of
             Inl e \<Rightarrow> Inl e
           | Inr ns' \<Rightarrow> consume_args p rest' ns' (extras @ unknown)))"
| "consume_args p ((s, None) # rest) ns extras = consume_args p rest ns (extras @ [s])"
| "consume_args p ((s, Some Plain_Value) # rest) ns extras = consume_args p rest ns (extras @ [s])"
| "consume_args p ((s, Some Unknown_Name) # rest) ns extras = consume_args p rest ns (extras @ [s])"
| "consume_args p ((s, Some Ambiguous_Name) # rest) ns extras = consume_args p rest ns (extras @ [s])"
  by pat_completeness auto
termination
  by (relation "measure (\<lambda>(p, xs, ns, extras). length xs)") (auto dest: consume_shorter)

definition is_ambiguous :: "arg_class option \<Rightarrow> bool" where
  "is_ambiguous c = (case c of Some Ambiguous_Name \<Rightarrow> True | _ \<Rightarrow> False)"

text \<open>\<open>parse_known_args\<close>: an ambiguous name anywhere is reported first, a missing option last.\<close>

definition parse_known_args :: "arg_option list \<Rightarrow> string list \<Rightarrow> arg_end + namespace \<times> string list" where
  "parse_known_args p args =
     (case find (\<lambda>c. is_ambiguous (snd c)) (classify p args) of
        Some (s, _) \<Rightarrow> Inl (Usage_Error (Ambiguous_Option s))
      | None \<Rightarrow>
          case consume_args p (classify p args) Map.empty [] of
            Inl e \<Rightarrow> Inl e
          | Inr (ns, extras) \<Rightarrow>
              let missing_names = map opt_dest (filter (\<lambda>opt. opt_required opt \<and> ns (opt_dest opt) = None) p) in
              if missing_names \<noteq> [] then Inl (Usage_Error (Missing_Required missing_names)) else Inr (ns, extras))"

definition parse_args :: "arg_option list \<Rightarrow> string list \<Rightarrow> arg_end + namespace" where
  "parse_args p args =
     (case parse_known_args p args of
        Inl e \<Rightarrow> Inl e
      | Inr (ns, extras) \<Rightarrow> if extras \<noteq> [] then Inl (Usage_Error (Unrecognized extras)) else Inr ns)"

text \<open>\<open>args.name\<close>, with the default of the option.\<close>

definition given :: "namespace \<Rightarrow> string \<Rightarrow> string option" where
  "given ns name = (case ns name of Some (v # _) \<Rightarrow> Some v | _ \<Rightarrow> None)"

definition value_of :: "namespace \<Rightarrow> string \<Rightarrow> string \<Rightarrow> string" where
  "value_of ns name dflt = (case given ns name of None \<Rightarrow> dflt | Some v \<Rightarrow> v)"

definition int_of :: "namespace \<Rightarrow> string \<Rightarrow> int \<Rightarrow> int" where
  "int_of ns name dflt = (case given ns name of None \<Rightarrow> dflt | Some v \<Rightarrow> (case parse_int v of None \<Rightarrow> dflt | Some i \<Rightarrow> i))"

section \<open>Lists of names and values\<close>

text \<open>A value that does not begin with a dash is taken as a value.\<close>

definition undashed :: "string \<Rightarrow> bool" where
  "undashed v \<longleftrightarrow> v = [] \<or> hd v \<noteq> dash"

definition pair_args :: "(string \<times> string) list \<Rightarrow> string list" where
  "pair_args kvs = concat (map (\<lambda>(n, v). [n, v]) kvs)"

text \<open>The name of an option of the parser with a value that the option accepts.\<close>

definition accepts :: "arg_option list \<Rightarrow> string \<times> string \<Rightarrow> bool" where
  "accepts p = (\<lambda>(n, v). n \<noteq> [] \<and> hd n = dash \<and> n \<noteq> ''--'' \<and> undashed v \<and>
     (case find_option p n of None \<Rightarrow> False | Some opt \<Rightarrow> takes_value opt \<and> opt_valid opt v))"

definition store_pairs :: "arg_option list \<Rightarrow> (string \<times> string) list \<Rightarrow> namespace \<Rightarrow> namespace" where
  "store_pairs p kvs ns = fold (\<lambda>(n, v). store_value (the (find_option p n)) v) kvs ns"

lemma parse_optional_undashed: "undashed v \<Longrightarrow> parse_optional p v = Plain_Value"
  by (auto simp: parse_optional_def undashed_def)

lemma undashed_not_dashes: "undashed v \<Longrightarrow> v \<noteq> ''--''"
  by (auto simp: undashed_def dash_def)

lemma classify_pairs:
  assumes "list_all (accepts p) kvs"
  shows "classify p (pair_args kvs) =
    concat (map (\<lambda>(n, v). [(n, Some (Named (the (find_option p n)) n None)), (v, Some Plain_Value)]) kvs)"
  using assms
proof (induction kvs)
  case (Cons kv kvs)
  obtain n v where kv: "kv = (n, v)" by (cases kv)
  with Cons.prems have nv: "n \<noteq> []" "hd n = dash" "n \<noteq> ''--''" "undashed v" "find_option p n \<noteq> None"
    by (auto simp: accepts_def split: option.splits)
  then have "parse_optional p n = Named (the (find_option p n)) n None" by (auto simp: parse_optional_def)
  with Cons kv nv show ?case
    by (simp add: pair_args_def parse_optional_undashed undashed_not_dashes)
qed (simp add: pair_args_def)

lemma consume_pairs_append:
  assumes "list_all (accepts p) kvs"
  shows "consume_args p (concat (map (\<lambda>(n, v). [(n, Some (Named (the (find_option p n)) n None)), (v, Some Plain_Value)]) kvs) @ cs) ns extras =
    consume_args p cs (store_pairs p kvs ns) extras"
  using assms
proof (induction kvs arbitrary: ns)
  case (Cons kv kvs)
  obtain n v where kv: "kv = (n, v)" by (cases kv)
  then obtain opt where "find_option p n = Some opt" "takes_value opt" "opt_valid opt v"
    using Cons.prems by (auto simp: accepts_def split: option.splits)
  with Cons kv show ?case by (auto simp: takes_value_def take_action_def store_pairs_def)
qed (simp add: store_pairs_def)

lemma consume_pairs:
  assumes "list_all (accepts p) kvs"
  shows "consume_args p (concat (map (\<lambda>(n, v). [(n, Some (Named (the (find_option p n)) n None)), (v, Some Plain_Value)]) kvs)) ns extras =
    Inr (store_pairs p kvs ns, extras)"
  using consume_pairs_append [OF assms, of "[]"] by simp

text \<open>A list of names with values they accept is parsed to exactly these values, the last one of each name.\<close>

lemma parse_pairs:
  assumes "list_all (accepts p) kvs"
    and "\<forall>opt \<in> set p. opt_required opt \<longrightarrow> store_pairs p kvs Map.empty (opt_dest opt) \<noteq> None"
  shows "parse_args p (pair_args kvs) = Inr (store_pairs p kvs Map.empty)"
proof -
  let ?cs = "concat (map (\<lambda>(n, v). [(n, Some (Named (the (find_option p n)) n None)), (v, Some Plain_Value)]) kvs)"
  have "\<not> (\<exists>c \<in> set ?cs. is_ambiguous (snd c))" by (auto simp: is_ambiguous_def)
  then have "find (\<lambda>c. is_ambiguous (snd c)) ?cs = None" unfolding find_None_iff by blast
  moreover have "filter (\<lambda>opt. opt_required opt \<and> store_pairs p kvs Map.empty (opt_dest opt) = None) p = []"
    using assms(2) by (auto simp: filter_empty_conv)
  ultimately show ?thesis
    using classify_pairs [OF assms(1)] consume_pairs [OF assms(1), of Map.empty "[]"]
    by (simp add: parse_args_def parse_known_args_def)
qed

section \<open>Values that look like options\<close>

definition dashed :: "string \<Rightarrow> bool" where
  "dashed v \<longleftrightarrow> v \<noteq> [] \<and> hd v = dash \<and> v \<noteq> ''-'' \<and> \<not> negative_number v \<and> CHR '' '' \<notin> set v"

lemma option_tuples_named: "c \<in> set (option_tuples p s) \<Longrightarrow> c \<noteq> Plain_Value"
  by (auto simp: option_tuples_def Let_def split: if_splits prod.splits)

lemma parse_optional_dashed: "dashed v \<Longrightarrow> parse_optional p v \<noteq> Plain_Value"
proof -
  assume d: "dashed v"
  then have "length v \<noteq> 1" by (cases v; cases "tl v") (auto simp: dashed_def dash_def)
  with d show ?thesis
    using option_tuples_named [of _ p v]
    by (fastforce simp: parse_optional_def dashed_def split: option.splits list.splits prod.splits)
qed

lemma classify_append: "''--'' \<notin> set xs \<Longrightarrow> classify p (xs @ ys) = classify p xs @ classify p ys"
  by (induction xs) auto

text \<open>Such a value behind the name of an option makes the parser refuse the arguments.\<close>

lemma dashed_value_refused:
  assumes "list_all (accepts p) kvs" and "n \<noteq> []" and "hd n = dash" and "n \<noteq> ''--''"
    and "find_option p n = Some opt" and "takes_value opt" and "dashed v"
  shows "\<exists>e. parse_args p (pair_args kvs @ n # v # rest) = Inl (Usage_Error e)"
proof -
  let ?cs = "concat (map (\<lambda>(n, v). [(n, Some (Named (the (find_option p n)) n None)), (v, Some Plain_Value)]) kvs)"
  have "''--'' \<notin> set (pair_args kvs)"
    using assms(1) undashed_not_dashes by (fastforce simp: pair_args_def accepts_def list_all_iff)
  moreover have "parse_optional p n = Named opt n None" using assms(2,3,5) by (simp add: parse_optional_def)
  ultimately have classes: "classify p (pair_args kvs @ n # v # rest) = ?cs @ (n, Some (Named opt n None)) # classify p (v # rest)"
    using classify_append [of "pair_args kvs" p] classify_pairs [OF assms(1)] assms(4) by simp
  obtain c more_cs where c: "classify p (v # rest) = (v, c) # more_cs" "c \<noteq> Some Plain_Value"
    using parse_optional_dashed [OF assms(7), of p] by (cases "v = ''--''") auto
  have "consume_optional p opt n None ((v, c) # more_cs) = Inl (Expected_Argument (opt_dest opt))"
    using assms(6) c(2) by (cases c; cases "the c") auto
  then have "consume_args p (classify p (pair_args kvs @ n # v # rest)) Map.empty [] = Inl (Usage_Error (Expected_Argument (opt_dest opt)))"
    unfolding classes consume_pairs_append [OF assms(1)] c(1) by simp
  then show ?thesis by (auto simp: parse_args_def parse_known_args_def split: option.splits)
qed

lemma undashed_number: "0 \<le> i \<Longrightarrow> undashed (str_int i)"
proof -
  assume "0 \<le> i"
  then have "hd (str_int i) \<in> set (str_nat (nat i))" by (simp add: str_int_def)
  then have "is_digit (hd (str_int i))" by (rule str_nat_digits)
  then show ?thesis by (auto simp: undashed_def dash_def is_digit_def)
qed

end
