(* ===== verification/GenMain.thy ===== *)
theory GenMain
  imports GenerateMap GenConfig Preview PyPath ArgParse
begin

text \<open>
  \<open>main\<close> of the map generator: the parameters from the command line and the configuration, and the
  loop over the seeds, which writes one file per map and refuses to overwrite one. Numbers are exact
  rationals where the code has floats. What is printed is modelled for the previews only.
\<close>

section \<open>Parameters\<close>

record gen_args =
  arg_seed :: "int option"
  arg_count :: int
  arg_output_dir :: "string option"
  arg_preview :: bool
  arg_extra_open :: "rat option"
  arg_difficulty :: "int option"

definition DIFFICULTY_MAP :: "int \<rightharpoonup> rat" where
  "DIFFICULTY_MAP = [1 \<mapsto> 20 / 100, 2 \<mapsto> 12 / 100, 3 \<mapsto> 8 / 100, 4 \<mapsto> 4 / 100, 5 \<mapsto> 1 / 100]"

definition gen_difficulty :: "gen_args \<Rightarrow> config \<Rightarrow> int" where
  "gen_difficulty args config =
     (let d = (case arg_difficulty args of
                 Some d \<Rightarrow> if d \<noteq> 0 then d else get_config_value config ''maze'' ''difficulty'' 3 parse_int
               | None \<Rightarrow> get_config_value config ''maze'' ''difficulty'' 3 parse_int)
      in max 1 (min 5 d))"

definition gen_extra_open :: "gen_args \<Rightarrow> config \<Rightarrow> rat" where
  "gen_extra_open args config =
     (case arg_extra_open args of
        Some q \<Rightarrow> q
      | None \<Rightarrow>
          let ratio = get_config_value config ''maze'' ''extra_open_ratio'' (- 1) parse_float in
          if ratio \<ge> 0 then ratio
          else case DIFFICULTY_MAP (gen_difficulty args config) of None \<Rightarrow> 8 / 100 | Some q \<Rightarrow> q)"

definition gen_params :: "gen_args \<Rightarrow> config \<Rightarrow> map_params" where
  "gen_params args config =
     \<lparr>param_grid_dim = get_config_value config ''map'' ''grid_count'' 40 parse_int,
      param_grid_size = get_config_value config ''map'' ''grid_size'' 500 parse_int,
      param_wall_thickness = get_config_value config ''maze'' ''wall_thickness'' 10 parse_int,
      param_extra_open_ratio = gen_extra_open args config,
      param_start_end_mode = get_config_value config ''start_end'' ''mode'' ''default'' Some,
      param_fixed_start =
        (get_config_value config ''start_end'' ''fixed_start_x'' 750 parse_float,
         get_config_value config ''start_end'' ''fixed_start_y'' 750 parse_float),
      param_fixed_end =
        (get_config_value config ''start_end'' ''fixed_end_x'' 19750 parse_float,
         get_config_value config ''start_end'' ''fixed_end_y'' 19750 parse_float),
      param_min_distance = get_config_value config ''start_end'' ''min_distance'' 5 parse_int,
      param_room_size = max 1 (get_config_value config ''map'' ''room_size'' 3 parse_int),
      param_room_obstacle_density = max 0 (min 1 (get_config_value config ''maze'' ''room_obstacle_density'' 0 parse_float))\<rparr>"

definition base_seeds :: "gen_args \<Rightarrow> int option list" where
  "base_seeds args =
     (case arg_seed args of
        Some s \<Rightarrow> map (\<lambda>i. Some (s + i)) (py_range 0 (arg_count args))
      | None \<Rightarrow> replicate (nat (arg_count args)) None)"

section \<open>The batch\<close>

datatype map_file = Map_File map_data | Other_File

record batch =
  map_files :: "string \<rightharpoonup> map_file"
  success_count :: nat
  total_retries :: nat
  previews :: "block_glyph grid list"

text \<open>How the run ends: at its last line, with the \<open>SystemExit\<close> that names a file, or with an exception.\<close>

datatype batch_end = Finished | Refused string | Raised_Error

definition map_path :: "string \<Rightarrow> int \<Rightarrow> string" where
  "map_path save_dir seed = path_join save_dir (''maze_'' @ str_int seed @ ''.json'')"

text \<open>
  One turn of the loop for the result of \<open>generate_reachable_map\<close>; \<open>None\<close> goes on with the next seed.
\<close>

definition batch_turn :: "string \<Rightarrow> bool \<Rightarrow> int \<Rightarrow> reachable_result \<Rightarrow> batch \<Rightarrow> batch_end option \<times> batch" where
  "batch_turn save_dir preview diff result b =
     (case result of
        Exhausted seed retries \<Rightarrow> (None, b\<lparr>total_retries := total_retries b + retries\<rparr>)
      | Reachable m es path_length final_seed retries blocked out_dim \<Rightarrow>
          let b = b\<lparr>total_retries := total_retries b + retries, success_count := Suc (success_count b)\<rparr>;
              m = m\<lparr>difficulty := diff\<rparr>;
              shown = (if preview then map_option (\<lambda>v. [v]) (ascii_preview_blocked blocked out_dim
                  (fst (start_grid m)) (snd (start_grid m)) (fst (goal_grid m)) (snd (goal_grid m))) else Some []);
              path = map_path save_dir final_seed
          in case shown of
               None \<Rightarrow> (Some Raised_Error, b)
             | Some v \<Rightarrow>
                 let b = b\<lparr>previews := previews b @ v\<rparr> in
                 if map_files b path \<noteq> None then (Some (Refused path), b)
                 else (None, b\<lparr>map_files := (map_files b)(path \<mapsto> Map_File m)\<rparr>))"

text \<open>\<open>find\<close> is \<open>generate_reachable_map\<close> with its parameters; its first argument is the number of the turn, for
  the clock that stands in for a missing seed.\<close>

primrec batch_loop ::
    "(nat \<Rightarrow> int option \<Rightarrow> reachable_result option) \<Rightarrow> string \<Rightarrow> bool \<Rightarrow> int \<Rightarrow> int option list \<Rightarrow> nat \<Rightarrow> batch \<Rightarrow> batch_end \<times> batch" where
  "batch_loop find_map save_dir preview diff [] i b = (Finished, b)"
| "batch_loop find_map save_dir preview diff (seed # seeds) i b =
     (case find_map i seed of
        None \<Rightarrow> (Raised_Error, b)
      | Some result \<Rightarrow>
          (case batch_turn save_dir preview diff result b of
             (Some e, b') \<Rightarrow> (e, b')
           | (None, b') \<Rightarrow> batch_loop find_map save_dir preview diff seeds (Suc i) b'))"

definition start_batch :: "(string \<rightharpoonup> map_file) \<Rightarrow> batch" where
  "start_batch files = \<lparr>map_files = files, success_count = 0, total_retries = 0, previews = []\<rparr>"

definition generator_main ::
    "(edge set \<Rightarrow> edge list) \<Rightarrow> (int \<Rightarrow> rng) \<Rightarrow> (nat \<Rightarrow> int) \<Rightarrow> string \<Rightarrow> gen_args \<Rightarrow> string option \<Rightarrow>
      (string \<rightharpoonup> map_file) \<Rightarrow> batch_end \<times> batch" where
  "generator_main order rng_of_seed clock_ms default_save_dir args config_text files =
     (let config = load_config config_text;
          save_dir = (case arg_output_dir args of None \<Rightarrow> default_save_dir
                      | Some d \<Rightarrow> if d = [] then default_save_dir else d)
      in batch_loop (\<lambda>i seed. generate_reachable_map order rng_of_seed (clock_ms i) seed (gen_params args config))
           save_dir (arg_preview args) (gen_difficulty args config) (base_seeds args) 0 (start_batch files))"

section \<open>The command line\<close>

definition is_float_text :: "string \<Rightarrow> bool" where
  "is_float_text s \<longleftrightarrow> parse_float s \<noteq> None"

definition gen_parser :: "arg_option list" where
  "gen_parser =
     [help_option,
      value_option ''seed'' [''--seed''] is_int_text,
      value_option ''count'' [''--count''] is_int_text,
      value_option ''output_dir'' [''--output-dir''] any_text,
      (value_option ''preview'' [''--preview''] any_text)\<lparr>opt_action := Store_True\<rparr>,
      value_option ''config'' [''--config''] any_text,
      value_option ''extra_open'' [''--extra-open''] is_float_text,
      value_option ''difficulty'' [''--difficulty''] is_int_text]"

text \<open>The arguments and the path of the configuration.\<close>

definition gen_arguments :: "string \<Rightarrow> string list \<Rightarrow> arg_end + gen_args \<times> string" where
  "gen_arguments default_config_path argv =
     (case parse_args gen_parser argv of
        Inl e \<Rightarrow> Inl e
      | Inr ns \<Rightarrow> Inr
          (\<lparr>arg_seed = Option.bind (given ns ''seed'') parse_int, arg_count = int_of ns ''count'' 1,
            arg_output_dir = given ns ''output_dir'', arg_preview = (ns ''preview'' \<noteq> None),
            arg_extra_open = Option.bind (given ns ''extra_open'') parse_float,
            arg_difficulty = Option.bind (given ns ''difficulty'') parse_int\<rparr>,
           value_of ns ''config'' default_config_path))"

text \<open>\<open>read_text\<close> is what is found at the path of the configuration.\<close>

definition generator_run ::
    "(edge set \<Rightarrow> edge list) \<Rightarrow> (int \<Rightarrow> rng) \<Rightarrow> (nat \<Rightarrow> int) \<Rightarrow> string \<Rightarrow> (string \<Rightarrow> string option) \<Rightarrow> string list \<Rightarrow>
      (string \<rightharpoonup> map_file) \<Rightarrow> arg_end + batch_end \<times> batch" where
  "generator_run order rng_of_seed clock_ms script_dir read_text argv files =
     (case gen_arguments (path_join script_dir ''map_config.yaml'') argv of
        Inl e \<Rightarrow> Inl e
      | Inr (args, config_at) \<Rightarrow> Inr
          (generator_main order rng_of_seed clock_ms (normpath (path_join script_dir ''../../maps/save'')) args
             (read_text config_at) files))"

section \<open>Lemmas\<close>


lemma batch_turn_files:
  assumes "batch_turn save_dir preview diff result b = (e, b')"
  shows "map_files b' = map_files b \<or>
    (\<exists>m es len seed retries blocked d. result = Reachable m es len seed retries blocked d \<and>
      map_files b (map_path save_dir seed) = None \<and>
      map_files b' = (map_files b)(map_path save_dir seed \<mapsto> Map_File (m\<lparr>difficulty := diff\<rparr>)))"
  using assms by (auto simp: batch_turn_def Let_def split: reachable_result.splits option.splits if_splits)

text \<open>A file that one of the turns has written.\<close>

definition written_by ::
    "(nat \<Rightarrow> int option \<Rightarrow> reachable_result option) \<Rightarrow> string \<Rightarrow> int \<Rightarrow> int option list \<Rightarrow> string \<Rightarrow> map_file option \<Rightarrow> bool" where
  "written_by find_map save_dir diff seeds p c \<longleftrightarrow>
     (\<exists>j. \<exists>seed \<in> set seeds. \<exists>m es len final retries blocked d.
        find_map j seed = Some (Reachable m es len final retries blocked d) \<and>
        p = map_path save_dir final \<and> c = Some (Map_File (m\<lparr>difficulty := diff\<rparr>)))"

lemma written_by_Cons: "written_by find_map save_dir diff seeds p c \<Longrightarrow> written_by find_map save_dir diff (seed # seeds) p c"
  unfolding written_by_def by (meson list.set_intros(2))

lemma batch_turn_written:
  assumes "batch_turn save_dir preview diff result b = (e, b')" and "find_map i seed = Some result"
  shows "map_files b' p = map_files b p \<or> map_files b p = None \<and> written_by find_map save_dir diff (seed # seeds) p (map_files b' p)"
proof -
  from batch_turn_files [OF assms(1)] show ?thesis
  proof
    assume "\<exists>m es len seed retries blocked d. result = Reachable m es len seed retries blocked d \<and>
      map_files b (map_path save_dir seed) = None \<and>
      map_files b' = (map_files b)(map_path save_dir seed \<mapsto> Map_File (m\<lparr>difficulty := diff\<rparr>))"
    then obtain m es len final retries blocked d where r: "result = Reachable m es len final retries blocked d"
      "map_files b (map_path save_dir final) = None"
      "map_files b' = (map_files b)(map_path save_dir final \<mapsto> Map_File (m\<lparr>difficulty := diff\<rparr>))" by blast
    show ?thesis
    proof (cases "p = map_path save_dir final")
      case True
      with r assms(2) have "written_by find_map save_dir diff (seed # seeds) p (map_files b' p)"
        unfolding written_by_def by simp metis
      with True r(2) show ?thesis by simp
    next
      case False
      with r(3) show ?thesis by simp
    qed
  qed simp
qed

text \<open>Every file either stays as it was, or is new and written by a turn.\<close>

lemma batch_loop_files:
  assumes "batch_loop find_map save_dir preview diff seeds i b = (e, b')"
  shows "map_files b' p = map_files b p \<or> map_files b p = None \<and> written_by find_map save_dir diff seeds p (map_files b' p)"
  using assms
proof (induction seeds arbitrary: i b)
  case Nil
  then show ?case by simp
next
  case (Cons seed seeds)
  show ?case
  proof (cases "find_map i seed")
    case None
    then show ?thesis using Cons.prems by simp
  next
    case (Some result)
    obtain e1 b1 where turn: "batch_turn save_dir preview diff result b = (e1, b1)"
      by (cases "batch_turn save_dir preview diff result b")
    note here = batch_turn_written [where find_map = find_map and i = i and seed = seed, OF turn Some, of p seeds]
    show ?thesis
    proof (cases e1)
      case None
      then have rest: "batch_loop find_map save_dir preview diff seeds (Suc i) b1 = (e, b')"
        using Cons.prems Some turn by simp
      from Cons.IH [OF rest] here written_by_Cons show ?thesis by metis
    next
      case e: (Some e')
      then have "b' = b1" using Cons.prems Some turn by simp
      with here show ?thesis by simp
    qed
  qed
qed

text \<open>What the search for a map gives, when every map can be generated.\<close>

lemma generated_published:
  assumes "iterates order" and "valid_params p"
    and "generate_reachable_map order rng_of_seed clock seed p = Some (Reachable m es len final retries blocked d)"
  shows "map_seed m = final \<and> map_id m = ''maze_'' @ str_int final \<and> wf_grid d d blocked \<and> 0 < len \<and> retries < MAX_RETRY"
proof -
  let ?s = "case seed of None \<Rightarrow> clock mod 10 ^ 9 | Some s \<Rightarrow> s"
  show ?thesis
  proof (cases rule: reachable_loop_cases [where generate = "generate_map order rng_of_seed p", OF generate_map_some [OF assms(1,2), of rng_of_seed], where seed = ?s and fuel = MAX_RETRY, case_names found exhausted])
    case (found a m' es' len' b' d' g')
    then have eq: "m = m'" "final = ?s + int a" "retries = a" "blocked = b'" "d = d'" "len = len'"
      using assms(3) by (simp_all add: generate_reachable_map_def Let_def)
    show ?thesis
    proof (cases rule: generate_map_cases [OF assms(1,2), of rng_of_seed "?s + int a", case_names no_map a_map])
      case (no_map es)
      then show ?thesis using found(2) by simp
    next
      case (a_map s e es b path_length g m'')
      with found(1,2) layout_okD(5) [OF a_map(2)] eq show ?thesis by (auto simp: published_def)
    qed
  next
    case exhausted
    then show ?thesis using assms(3) by (simp add: generate_reachable_map_def Let_def)
  qed
qed

lemma reachable_generated:
  assumes "iterates order" and "valid_params p"
    and "generate_reachable_map order rng_of_seed clock seed p = Some (Reachable m es len final retries blocked d)"
  shows "\<exists>g. generate_map order rng_of_seed p final = Some (Map m es True len blocked d g)"
proof -
  let ?s = "case seed of None \<Rightarrow> clock mod 10 ^ 9 | Some s \<Rightarrow> s"
  show ?thesis
  proof (cases rule: reachable_loop_cases [where generate = "generate_map order rng_of_seed p", OF generate_map_some [OF assms(1,2), of rng_of_seed], where seed = ?s and fuel = MAX_RETRY, case_names found exhausted])
    case (found a m' es' len' b' d' g')
    then show ?thesis using assms(3) by (auto simp: generate_reachable_map_def Let_def)
  next
    case exhausted
    then show ?thesis using assms(3) by (simp add: generate_reachable_map_def Let_def)
  qed
qed


lemma reachable_loop_result:
  assumes "reachable_loop generate s fuel a = Some (Reachable m es len final retries blocked d)"
  shows "\<exists>g. generate final = Some (Map m es True len blocked d g)"
  using assms
proof (induction fuel arbitrary: a)
  case (Suc fuel)
  then obtain r where r: "generate (s + int a) = Some r" by (cases "generate (s + int a)") auto
  show ?case
  proof (cases r)
    case (No_Map es')
    then show ?thesis using Suc r by simp
  next
    case (Map m' es' reachable len' b' d' g')
    then show ?thesis using Suc r by (cases reachable) auto
  qed
qed simp



section \<open>Properties\<close>

definition out_dir :: "string \<Rightarrow> gen_args \<Rightarrow> string" where
  "out_dir default_save_dir args =
     (case arg_output_dir args of None \<Rightarrow> default_save_dir | Some d \<Rightarrow> if d = [] then default_save_dir else d)"

lemma batch_new_maps:
  assumes "iterates order" and "valid_params (gen_params args (load_config config_text))"
    and "generator_main order rng_of_seed clock_ms default_save_dir args config_text files = (e, b)"
  shows "map_files b p = files p \<or>
    files p = None \<and> (\<exists>m. map_files b p = Some (Map_File m) \<and> p = map_path (out_dir default_save_dir args) (map_seed m) \<and>
      map_id m = ''maze_'' @ str_int (map_seed m) \<and> difficulty m = gen_difficulty args (load_config config_text) \<and>
      (\<exists>m' es len bl d g. generate_map order rng_of_seed (gen_params args (load_config config_text)) (map_seed m) =
         Some (Map m' es True len bl d g) \<and> m = m'\<lparr>difficulty := difficulty m\<rparr>))"
proof -
  let ?find = "\<lambda>i seed. generate_reachable_map order rng_of_seed (clock_ms i) seed (gen_params args (load_config config_text))"
  let ?diff = "gen_difficulty args (load_config config_text)"
  have run: "batch_loop ?find (out_dir default_save_dir args) (arg_preview args) ?diff (base_seeds args) 0 (start_batch files) = (e, b)"
    using assms(3) by (simp add: generator_main_def out_dir_def Let_def)
  from batch_loop_files [OF run, of p] show ?thesis
  proof
    assume "map_files (start_batch files) p = None \<and>
      written_by ?find (out_dir default_save_dir args) ?diff (base_seeds args) p (map_files b p)"
    then obtain j seed m es len final retries blocked d where w: "files p = None"
      "?find j seed = Some (Reachable m es len final retries blocked d)"
      "p = map_path (out_dir default_save_dir args) final" "map_files b p = Some (Map_File (m\<lparr>difficulty := ?diff\<rparr>))"
      unfolding written_by_def start_batch_def by auto
    from generated_published [OF assms(1,2) w(2)] reachable_generated [OF assms(1,2) w(2)] w show ?thesis by auto
  qed (simp add: start_batch_def)
qed

text \<open>A run for one map.\<close>

definition one_map :: gen_args where
  "one_map = \<lparr>arg_seed = Some 7, arg_count = 1, arg_output_dir = None, arg_preview = False, arg_extra_open = None, arg_difficulty = None\<rparr>"

lemma one_map_valid: "valid_params (gen_params one_map (load_config None))"
  by (simp add: valid_params_def gen_params_def get_config_value_def load_config_def one_map_def)

lemma one_map_written:
  "\<exists>b. generator_main canonical_order (\<lambda>_. sample_rng) (\<lambda>_. 0) dir one_map None Map.empty = (Finished, b) \<and>
    map_files b (map_path dir 7) \<noteq> None"
proof -
  let ?p = "gen_params one_map (load_config None)"
  have config: "load_config None = Map.empty" by (simp add: load_config_def)
  have mode: "param_start_end_mode ?p = ''default''" "param_room_size ?p = 3"
    by (simp_all add: gen_params_def get_config_value_def config one_map_def)
  have diff: "gen_difficulty one_map Map.empty = 3" by (simp add: gen_difficulty_def get_config_value_def one_map_def)
  have "\<exists>m es len b d. generate_reachable_map canonical_order (\<lambda>_. sample_rng) 0 (Some 7) ?p =
      Some (Reachable m es len 7 0 b d) \<and> 0 < len \<and> map_seed m = 7"
    using mode by (intro default_mode_found [OF iterates_canonical one_map_valid]) simp_all
  then obtain m es len bl d where found: "generate_reachable_map canonical_order (\<lambda>_. sample_rng) 0 (Some 7) ?p =
      Some (Reachable m es len 7 0 bl d)" by blast
  have args: "arg_seed one_map = Some 7" "arg_count one_map = 1" "arg_output_dir one_map = None" "arg_preview one_map = False"
    by (simp_all add: one_map_def)
  show ?thesis
    using found
    by (simp add: generator_main_def base_seeds_def py_range_Cons Let_def config args diff batch_turn_def start_batch_def out_dir_def)
qed

text \<open>C28: The generator never changes a file that is there, and every file it adds is a map of the output directory,
  named after the seed it holds and with the requested difficulty.\<close>

theorem batch_writes_new_maps:
  assumes "iterates order" and "valid_params (gen_params args (load_config config_text))"
    and "generator_main order rng_of_seed clock_ms default_save_dir args config_text files = (e, b)"
  shows "map_files b p = files p \<or>
    files p = None \<and> (\<exists>m. map_files b p = Some (Map_File m) \<and> p = map_path (out_dir default_save_dir args) (map_seed m) \<and>
      map_id m = ''maze_'' @ str_int (map_seed m) \<and> difficulty m = gen_difficulty args (load_config config_text))"
  using batch_new_maps [OF assms, of p] by auto

theorem batch_writes_new_maps_witness:
  "\<exists>b m. generator_main canonical_order (\<lambda>_. sample_rng) (\<lambda>_. 0) ''/maps'' one_map None Map.empty = (Finished, b) \<and>
    map_files b ''/maps/maze_7.json'' = Some (Map_File m) \<and> map_seed m = 7 \<and> difficulty m = 3"
proof -
  have path: "map_path ''/maps'' 7 = ''/maps/maze_7.json''" by code_simp
  obtain b where run: "generator_main canonical_order (\<lambda>_. sample_rng) (\<lambda>_. 0) ''/maps'' one_map None Map.empty = (Finished, b)"
    "map_files b ''/maps/maze_7.json'' \<noteq> None"
    using one_map_written [of "''/maps''"] path by auto
  have diff: "gen_difficulty one_map (load_config None) = 3"
    by (simp add: gen_difficulty_def get_config_value_def load_config_def one_map_def)
  from batch_writes_new_maps [OF iterates_canonical one_map_valid run(1), of "''/maps/maze_7.json''"] run(2)
  obtain m where m: "map_files b ''/maps/maze_7.json'' = Some (Map_File m)"
    "''/maps/maze_7.json'' = map_path (out_dir ''/maps'' one_map) (map_seed m)" "difficulty m = 3"
    by (auto simp: diff)
  have "map_path ''/maps'' 7 = map_path ''/maps'' (map_seed m)" using m(2) path by (simp add: out_dir_def one_map_def)
  then have "map_seed m = 7" by (simp add: map_path_def path_join_def slash_def str_int_inj)
  with run(1) m show ?thesis by blast
qed



text \<open>A batch of consecutive seeds collides with itself: when the first seed fails and its retry takes the second
  one, the turn of the second seed finds its file already there, and the whole run is refused.\<close>

theorem retry_collides_with_batch:
  assumes "reachable_loop generate s MAX_RETRY 0 = Some (Reachable m es len (s + 1) 1 blocked d)"
    and "files (map_path save_dir (s + 1)) = None"
  shows "fst (batch_loop (\<lambda>i seed. reachable_loop generate (the seed) MAX_RETRY 0) save_dir False diff
      (Some s # Some (s + 1) # seeds) 0 (start_batch files)) = Refused (map_path save_dir (s + 1))"
proof -
  have "\<exists>g. generate (s + 1) = Some (Map m es True len blocked d g)"
    using reachable_loop_result [OF assms(1)] by simp
  then have "reachable_loop generate (s + 1) MAX_RETRY 0 = Some (Reachable m es len (s + 1) 0 blocked d)"
    using reachable_loop_found [of 0 generate "s + 1" MAX_RETRY m es len blocked d] by (auto simp: MAX_RETRY_def)
  with assms show ?thesis by (simp add: batch_turn_def start_batch_def Let_def)
qed

text \<open>A map for the witness; only its seed and its name matter there.\<close>

definition plain_map :: "int \<Rightarrow> map_data" where
  "plain_map seed =
     \<lparr>map_id = ''maze_'' @ str_int seed, map_seed = seed, difficulty = 0, grid_cols = 1, grid_rows = 1, grid_size = 1,
      room_size = 1, room_dim = 1, bounds = (0, 1, 0, 1), start_pos = (0, 0), end_pos = (0, 0), start_grid = (0, 0),
      goal_grid = (0, 0), blocked_bitmap_encoding = [], blocked_bitmap_hex = [], map_wall_count = 0, map_walls = []\<rparr>"

theorem retry_collides_with_batch_witness:
  "(let generate = (\<lambda>s. if s = 4 then Some (No_Map (wall_edge_set_init 1))
        else Some (Map (plain_map s) (wall_edge_set_init 1) True 1 [] 0 1)) in
    fst (batch_loop (\<lambda>i seed. reachable_loop generate (the seed) MAX_RETRY 0) ''/m'' False 3 [Some 4, Some 5, Some 6] 0
      (start_batch Map.empty)) = Refused ''/m/maze_5.json'')"
proof -
  let ?generate = "\<lambda>s :: int. if s = 4 then Some (No_Map (wall_edge_set_init 1))
        else Some (Map (plain_map s) (wall_edge_set_init 1) True 1 [] 0 1)"
  have "reachable_loop ?generate 4 MAX_RETRY 0 = Some (Reachable (plain_map (4 + int 1)) (wall_edge_set_init 1) 1 (4 + int 1) 1 [] 0)"
    by (rule reachable_loop_found) (simp_all add: MAX_RETRY_def failed_def)
  then have first: "reachable_loop ?generate 4 MAX_RETRY 0 = Some (Reachable (plain_map 5) (wall_edge_set_init 1) 1 (4 + 1) 1 [] 0)"
    by simp
  have "map_path ''/m'' 5 = ''/m/maze_5.json''" by code_simp
  with retry_collides_with_batch [OF first, of Map.empty "''/m''" 3 "[Some 6]"] show ?thesis
    by (simp add: Let_def)
qed

text \<open>Seed, number, directory and configuration of the command line reach the loop over the seeds as they were given.\<close>

theorem generator_command:
  assumes "0 \<le> s" and "0 \<le> n" and "undashed d" and "undashed c"
  shows "generator_run order rng_of_seed clock_ms script_dir read_text
      (pair_args [(''--seed'', str_int s), (''--count'', str_int n), (''--output-dir'', d), (''--config'', c)]) files =
    Inr (generator_main order rng_of_seed clock_ms (normpath (path_join script_dir ''../../maps/save''))
      \<lparr>arg_seed = Some s, arg_count = n, arg_output_dir = Some d, arg_preview = False, arg_extra_open = None, arg_difficulty = None\<rparr>
      (read_text c) files)"
proof -
  let ?kvs = "[(''--seed'', str_int s), (''--count'', str_int n), (''--output-dir'', d), (''--config'', c)]"
  have options: "find_option gen_parser ''--seed'' = Some (value_option ''seed'' [''--seed''] is_int_text)"
    "find_option gen_parser ''--count'' = Some (value_option ''count'' [''--count''] is_int_text)"
    "find_option gen_parser ''--output-dir'' = Some (value_option ''output_dir'' [''--output-dir''] any_text)"
    "find_option gen_parser ''--config'' = Some (value_option ''config'' [''--config''] any_text)"
    by (simp_all add: find_option_def gen_parser_def value_option_def help_option_def)
  then have "list_all (accepts gen_parser) ?kvs"
    using assms undashed_number
    by (simp add: accepts_def takes_value_def any_text_def is_int_text_def dash_def) (simp add: value_option_def any_text_def is_int_text_def)
  moreover have "\<forall>opt \<in> set gen_parser. opt_required opt \<longrightarrow> store_pairs gen_parser ?kvs Map.empty (opt_dest opt) \<noteq> None"
    by (simp add: gen_parser_def value_option_def help_option_def)
  ultimately have "parse_args gen_parser (pair_args ?kvs) = Inr (store_pairs gen_parser ?kvs Map.empty)" by (rule parse_pairs)
  moreover have "store_pairs gen_parser ?kvs Map.empty =
      [''seed'' \<mapsto> [str_int s], ''count'' \<mapsto> [str_int n], ''output_dir'' \<mapsto> [d], ''config'' \<mapsto> [c]]"
    using options by (simp add: store_pairs_def store_value_def value_option_def)
  ultimately show ?thesis
    by (simp add: generator_run_def gen_arguments_def given_def value_of_def int_of_def)
qed

theorem generator_command_witness:
  "generator_run canonical_order (\<lambda>_. sample_rng) (\<lambda>_. 0) ''/t'' (\<lambda>_. None)
      (pair_args [(''--seed'', str_int 5), (''--count'', str_int 0), (''--output-dir'', ''/o''), (''--config'', ''/c'')]) Map.empty =
    Inr (Finished, start_batch Map.empty)"
  by (subst generator_command)
    (simp_all add: undashed_def dash_def generator_main_def base_seeds_def py_range_def)

end
