(* ===== verification/VizIndex.thy ===== *)
theory VizIndex
  imports PyText
begin

text \<open>
  The line index of the replay server (\<open>_build_line_index\<close>) and the reads that use it
  (\<open>get_frame_count\<close>, \<open>load_frames_paged\<close>). A replay file is a list of bytes; the index holds the
  offset of every line that is not blank, and a cached index is extended when the file has grown.
  What \<open>json.loads\<close> makes of a line is a parameter.
\<close>

section \<open>The index\<close>

record index_entry =
  entry_mtime :: nat
  entry_size :: nat
  line_offsets :: "nat list"

text \<open>
  What one call sees of a file: \<open>stat\<close> is the modification time and the size, \<open>None\<close> when they cannot
  be read; \<open>body\<close> is the content at the time of the scan, \<open>None\<close> when opening it raises.
\<close>

record file_view =
  stat :: "(nat \<times> nat) option"
  body :: "string option"

definition blank :: "string \<Rightarrow> bool" where
  "blank line \<longleftrightarrow> strip_by byte_space line = []"

text \<open>The loop over the lines.\<close>

primrec scan_lines :: "string list \<Rightarrow> nat \<Rightarrow> nat list \<Rightarrow> nat list" where
  "scan_lines [] offset acc = acc"
| "scan_lines (line # lines) offset acc =
     scan_lines lines (offset + length line) (if blank line then acc else acc @ [offset])"

type_synonym index_cache = "string \<rightharpoonup> index_entry"

definition build_line_index :: "string \<Rightarrow> file_view \<Rightarrow> index_cache \<Rightarrow> nat list \<times> index_cache" where
  "build_line_index filename view cache =
     (case stat view of
        None \<Rightarrow> ([], cache)
      | Some (mtime, fsize) \<Rightarrow>
          let cached = cache filename in
          if (case cached of None \<Rightarrow> False | Some e \<Rightarrow> entry_mtime e = mtime \<and> entry_size e = fsize)
          then (line_offsets (the cached), cache)
          else
            let (offsets, start_pos) =
              (case cached of
                 None \<Rightarrow> ([], 0)
               | Some e \<Rightarrow> if entry_size e \<le> fsize then (line_offsets e, entry_size e) else ([], 0))
            in case body view of
                 None \<Rightarrow> (offsets, cache)
               | Some content \<Rightarrow>
                   let offsets' = scan_lines (lines_keep (drop start_pos content)) start_pos offsets
                   in (offsets', cache(filename \<mapsto> \<lparr>entry_mtime = mtime, entry_size = fsize, line_offsets = offsets'\<rparr>)))"

section \<open>The full index\<close>

definition full_index :: "string \<Rightarrow> nat list" where
  "full_index content = scan_lines (lines_keep content) 0 []"

text \<open>The lines the index stands for.\<close>

definition frame_lines :: "string \<Rightarrow> string list" where
  "frame_lines content = filter (\<lambda>line. \<not> blank line) (lines_keep content)"

lemma scan_lines_acc: "scan_lines lines offset acc = acc @ scan_lines lines offset []"
proof (induction lines arbitrary: offset acc)
  case Nil
  show ?case by simp
next
  case (Cons line lines)
  show ?case
    using Cons.IH [of "offset + length line" "acc @ [offset]"] Cons.IH [of "offset + length line" "[offset]"]
      Cons.IH [of "offset + length line" acc]
    by auto
qed

lemma scan_lines_shift: "scan_lines lines (k + offset) [] = map ((+) k) (scan_lines lines offset [])"
proof (induction lines arbitrary: offset)
  case Nil
  show ?case by simp
next
  case (Cons line lines)
  then show ?case
    using scan_lines_acc [of lines "k + (offset + length line)" "[k + offset]"]
      scan_lines_acc [of lines "offset + length line" "[offset]"]
    by (auto simp: add.assoc)
qed


lemma scan_from: "scan_lines (lines_keep (drop k content)) k [] = map ((+) k) (full_index (drop k content))"
  using scan_lines_shift [of "lines_keep (drop k content)" k 0] by (simp add: full_index_def)


lemma length_full_index: "length (full_index content) = length (frame_lines content)"
proof -
  have "length (scan_lines ls offset acc) = length acc + length (filter (\<lambda>l. \<not> blank l) ls)" for ls offset acc
    by (induction ls arbitrary: offset acc) auto
  then show ?thesis by (simp add: full_index_def frame_lines_def)
qed

text \<open>Every offset of the full index is the start of its line.\<close>

lemma scan_lines_read:
  assumes "i < length (scan_lines ls offset [])"
  shows "\<exists>pre line post. ls = pre @ line # post \<and> \<not> blank line \<and>
    scan_lines ls offset [] ! i = offset + length (concat pre) \<and> filter (\<lambda>l. \<not> blank l) ls ! i = line"
  using assms
proof (induction ls arbitrary: offset i)
  case Nil
  then show ?case by simp
next
  case (Cons l ls)
  let ?rest = "scan_lines ls (offset + length l) []"
  have eq: "scan_lines (l # ls) offset [] = (if blank l then ?rest else offset # ?rest)"
    using scan_lines_acc [of ls "offset + length l" "[offset]"] by simp
  show ?case
  proof (cases "\<not> blank l \<and> i = 0")
    case True
    with eq show ?thesis by (intro exI [of _ "[]"] exI [of _ l] exI [of _ ls]) simp
  next
    case False
    define j where "j = (if blank l then i else i - 1)"
    have j: "j < length ?rest" using Cons.prems False eq by (auto simp: j_def split: if_splits)
    obtain pre line post where *: "ls = pre @ line # post" "\<not> blank line"
      "?rest ! j = offset + length l + length (concat pre)" "filter (\<lambda>l. \<not> blank l) ls ! j = line"
      using Cons.IH [OF j] by blast
    have "scan_lines (l # ls) offset [] ! i = ?rest ! j" "filter (\<lambda>l. \<not> blank l) (l # ls) ! i = filter (\<lambda>l. \<not> blank l) ls ! j"
      using False eq by (auto simp: j_def nth_Cons')
    with * show ?thesis by (intro exI [of _ "l # pre"]) auto
  qed
qed

lemma full_index_line:
  assumes "i < length (full_index content)"
  obtains pre rest where "content = pre @ frame_lines content ! i @ rest" "full_index content ! i = length pre"
    "frame_lines content ! i \<noteq> []" "pre = [] \<or> last pre = CHR 0x0A"
    "rest = [] \<or> last (frame_lines content ! i) = CHR 0x0A"
proof -
  obtain pre line post where *: "lines_keep content = pre @ line # post"
    "full_index content ! i = length (concat pre)" "frame_lines content ! i = line"
    using scan_lines_read [OF assms [unfolded full_index_def]] unfolding full_index_def frame_lines_def by (metis add_0)
  have c: "content = concat pre @ line @ concat post"
    using arg_cong [OF *(1), of concat] by simp
  have "line \<noteq> []" using lines_keep_line [of line content] *(1) by simp
  moreover have "concat pre = [] \<or> last (concat pre) = CHR 0x0A"
    using lines_keep_before [OF *(1)] by (cases "pre = []") auto
  moreover have "concat post = [] \<or> last line = CHR 0x0A"
  proof (cases "post = []")
    case False
    then have "line \<in> set (butlast (lines_keep content))" using *(1) by (simp add: butlast_append)
    then show ?thesis using lines_keep_ends by blast
  qed simp
  ultimately show ?thesis
    using that [of "concat pre" "concat post"] * c by simp
qed

text \<open>So every offset is 0 or follows a line feed.\<close>

lemma full_index_start:
  assumes "k \<in> set (full_index content)"
  shows "k < length content" and "k = 0 \<or> content ! (k - 1) = CHR 0x0A"
proof -
  obtain i where i: "i < length (full_index content)" "full_index content ! i = k"
    using assms by (metis in_set_conv_nth)
  obtain pre rest where *: "content = pre @ frame_lines content ! i @ rest" "k = length pre"
    "frame_lines content ! i \<noteq> []" "pre = [] \<or> last pre = CHR 0x0A"
    using full_index_line [OF i(1)] i(2) by metis
  show "k < length content" using arg_cong [OF *(1), of length] *(2,3) by (cases "frame_lines content ! i") auto
  show "k = 0 \<or> content ! (k - 1) = CHR 0x0A"
  proof (cases "pre = []")
    case False
    then have "content ! (k - 1) = last pre" using *(2) by (subst *(1)) (simp add: nth_append last_conv_nth)
    with False *(4) show ?thesis by simp
  qed (simp add: *(2))
qed

section \<open>What a call returns\<close>

text \<open>The entry of a file is sound when it is the full index of the bytes it covers.\<close>

definition entry_covers :: "index_entry \<Rightarrow> string \<Rightarrow> bool" where
  "entry_covers e content \<longleftrightarrow> line_offsets e = full_index content \<and> entry_size e = length content"


text \<open>With one, the new bytes are indexed as if they began a line.\<close>

lemma build_line_index_grown:
  assumes "cache filename = Some e" and "entry_covers e old"
    and "stat view = Some (mtime, length content)" and "body view = Some content"
    and "take (length old) content = old" and "length old \<le> length content" and "(entry_mtime e, entry_size e) \<noteq> (mtime, length content)"
  defines "offsets \<equiv> full_index old @ map ((+) (length old)) (full_index (drop (length old) content))"
  shows "build_line_index filename view cache =
    (offsets, cache(filename \<mapsto> \<lparr>entry_mtime = mtime, entry_size = length content, line_offsets = offsets\<rparr>))"
proof -
  have "scan_lines (lines_keep (drop (length old) content)) (length old) (full_index old) = offsets"
    using scan_lines_acc [of "lines_keep (drop (length old) content)" "length old" "full_index old"]
      scan_from [of "length old" content] by (simp add: offsets_def)
  with assms(1-4,6,7) show ?thesis
    unfolding build_line_index_def entry_covers_def by (auto simp: Let_def)
qed

section \<open>A recorder and a reader\<close>


definition whole_lines :: "string \<Rightarrow> bool" where
  "whole_lines s \<longleftrightarrow> s = [] \<or> last s = CHR 0x0A"







section \<open>Reading frames\<close>

text \<open>
  \<open>f.readline()\<close> at a position of a file opened as text, without its line end, and the same line
  stripped.
\<close>

definition line_raw :: "string \<Rightarrow> string" where
  "line_raw s = takeWhile (\<lambda>c. c \<noteq> CHR 0x0A \<and> c \<noteq> CHR 0x0D) s"

definition line_text :: "string \<Rightarrow> string" where
  "line_text s = strip (line_raw s)"

text \<open>
  The loop over the requested range. An index outside the list raises and becomes the error result
  \<open>None\<close>; a line that is empty or does not parse is skipped.
\<close>

definition read_frames :: "(string \<Rightarrow> 'j option) \<Rightarrow> string \<Rightarrow> nat list \<Rightarrow> int \<Rightarrow> int \<Rightarrow> 'j list option" where
  "read_frames loads content offsets offset stop =
     for_each (py_range offset stop) (\<lambda>i frames. do {
       pos \<leftarrow> lget offsets i;
       let line = line_text (drop pos content);
       Some (if line = [] then frames
             else case loads line of None \<Rightarrow> frames | Some frame \<Rightarrow> frames @ [frame])
     }) []"

definition frame_of :: "(string \<Rightarrow> 'j option) \<Rightarrow> string \<Rightarrow> 'j list" where
  "frame_of loads line = (if line_text line = [] then [] else case loads (line_text line) of None \<Rightarrow> [] | Some frame \<Rightarrow> [frame])"

lemma line_text_at:
  assumes "i < length (full_index content)"
  shows "line_text (drop (full_index content ! i) content) = line_text (frame_lines content ! i)"
proof -
  obtain pre rest where *: "content = pre @ frame_lines content ! i @ rest" "full_index content ! i = length pre"
    "frame_lines content ! i \<noteq> []" "rest = [] \<or> last (frame_lines content ! i) = CHR 0x0A"
    using full_index_line [OF assms] by metis
  let ?l = "frame_lines content ! i" and ?P = "\<lambda>c. c \<noteq> CHR 0x0A \<and> c \<noteq> CHR 0x0D"
  have "drop (full_index content ! i) content = ?l @ rest"
    using *(2) by (subst *(1)) simp
  moreover have "takeWhile ?P (?l @ rest) = takeWhile ?P ?l"
  proof (cases "rest = []")
    case False
    with *(3,4) have "\<exists>c \<in> set ?l. \<not> ?P c" by (metis last_in_set)
    then show ?thesis by (auto simp: takeWhile_append1)
  qed simp
  ultimately show ?thesis by (simp add: line_text_def line_raw_def)
qed

lemma read_frames_range:
  assumes "0 \<le> a" and "b \<le> int (length (frame_lines content))"
  shows "read_frames loads content (full_index content) a b =
    Some (concat (map (\<lambda>i. frame_of loads (frame_lines content ! nat i)) (py_range a b)))"
proof -
  let ?body = "\<lambda>i frames. do {
       pos \<leftarrow> lget (full_index content) i;
       let line = line_text (drop pos content);
       Some (if line = [] then frames
             else case loads line of None \<Rightarrow> frames | Some frame \<Rightarrow> frames @ [frame])
     }"
  have "?body i frames = Some (frames @ frame_of loads (frame_lines content ! nat i))"
    if "i \<in> set (py_range a b)" for i frames
  proof -
    have i: "nat i < length (full_index content)" "0 \<le> i" "i < int (length (full_index content))"
      using that assms by (auto simp: length_full_index)
    then show ?thesis
      using line_text_at [OF i(1)] by (auto simp: frame_of_def Let_def split: option.splits)
  qed
  from for_each_collect [where xs = "py_range a b" and s = "[]", OF this] show ?thesis
    unfolding read_frames_def by simp
qed

lemma frames_slice:
  assumes "0 \<le> a" and "a \<le> b" and "b \<le> int (length xs)"
  shows "concat (map (\<lambda>i. f (xs ! nat i)) (py_range a b)) = concat (map f (take (nat (b - a)) (drop (nat a) xs)))"
proof -
  have "map (\<lambda>i. f (xs ! nat i)) (py_range a b) = map f (take (nat (b - a)) (drop (nat a) xs))"
    using assms by (intro nth_equalityI) (auto simp: nth_py_range nat_add_distrib)
  then show ?thesis by simp
qed

section \<open>Properties\<close>



text \<open>A file indexed while its last line is incomplete keeps a wrong index: once the line is continued by text
  that is not blank, the position in the middle of the line is listed as if a frame began there.\<close>

theorem index_mid_line_spurious:
  assumes "cache filename = Some e" and "entry_covers e old"
    and "stat view = Some (mtime, length (old @ rest))" and "body view = Some (old @ rest)"
    and "old \<noteq> []" and "last old \<noteq> CHR 0x0A" and "rest \<noteq> []" and "\<not> blank (hd (lines_keep rest))"
  shows "length old \<in> set (fst (build_line_index filename view cache)) \<and> length old \<notin> set (full_index (old @ rest))"
proof
  have "(entry_mtime e, entry_size e) \<noteq> (mtime, length (old @ rest))"
    using assms(2,7) by (simp add: entry_covers_def)
  then have run: "fst (build_line_index filename view cache) = full_index old @ map ((+) (length old)) (full_index rest)"
    using build_line_index_grown [where cache = cache and filename = filename and e = e and old = old
        and view = view and mtime = mtime and content = "old @ rest"] assms(1-4) by simp
  obtain l ls where "lines_keep rest = l # ls" using assms(7) by (cases "lines_keep rest") auto
  then have "full_index rest = 0 # scan_lines ls (length l) []"
    using assms(8) scan_lines_acc [of ls "length l" "[0]"] by (simp add: full_index_def)
  then show "length old \<in> set (fst (build_line_index filename view cache))" unfolding run by simp
  show "length old \<notin> set (full_index (old @ rest))"
  proof
    assume "length old \<in> set (full_index (old @ rest))"
    from full_index_start(2) [OF this] assms(5,6) show False
      by (simp add: nth_append last_conv_nth)
  qed
qed

theorem index_mid_line_spurious_witness:
  "(let view = (\<lambda>c t. \<lparr>stat = Some (t, length c), body = Some c\<rparr>);
        cache = snd (build_line_index ''f'' (view ''ab'' 1) Map.empty) in
    2 \<in> set (fst (build_line_index ''f'' (view ''abc'' 2) cache)) \<and> 2 \<notin> set (full_index ''abc''))"
proof -
  let ?e = "\<lparr>entry_mtime = 1, entry_size = 2, line_offsets = [0]\<rparr>"
  have full: "full_index ''ab'' = [0]" by (simp add: full_index_def blank_def strip_by_def byte_space_def)
  then have cache: "snd (build_line_index ''f'' \<lparr>stat = Some (1, length ''ab''), body = Some ''ab''\<rparr> Map.empty) = [''f'' \<mapsto> ?e]"
    by (simp add: build_line_index_def full_index_def Let_def numeral_2_eq_2)
  have "length ''ab'' \<in> set (fst (build_line_index ''f'' \<lparr>stat = Some (2, length ''abc''), body = Some ''abc''\<rparr> [''f'' \<mapsto> ?e])) \<and>
      length ''ab'' \<notin> set (full_index (''ab'' @ ''c''))"
    by (rule index_mid_line_spurious [where e = ?e and mtime = 2])
      (simp_all add: entry_covers_def full blank_def strip_by_def byte_space_def)
  then show ?thesis unfolding Let_def cache by (simp add: numeral_2_eq_2)
qed

text \<open>When the file grows between the reading of its size and the scan, the next request lists the frames that came
  in between twice.\<close>

theorem index_size_race_duplicates:
  assumes "new \<noteq> []"
    and "stat view1 = Some (t1, length old)" and "body view1 = Some (old @ new)"
    and "stat view2 = Some (t2, length (old @ new))" and "body view2 = Some (old @ new)"
    and "cache filename = None"
  shows "fst (build_line_index filename view2 (snd (build_line_index filename view1 cache))) =
    full_index (old @ new) @ map ((+) (length old)) (full_index new)"
proof -
  have 1: "build_line_index filename view1 cache = (full_index (old @ new), cache(filename \<mapsto>
      \<lparr>entry_mtime = t1, entry_size = length old, line_offsets = full_index (old @ new)\<rparr>))"
    using assms by (simp add: build_line_index_def full_index_def Let_def)
  have "scan_lines (lines_keep new) (length old) (full_index (old @ new)) =
      full_index (old @ new) @ map ((+) (length old)) (full_index new)"
    using scan_lines_acc [of "lines_keep new" "length old" "full_index (old @ new)"]
      scan_lines_shift [of "lines_keep new" "length old" 0] by (simp add: full_index_def)
  then show ?thesis
    unfolding 1 using assms by (simp add: build_line_index_def Let_def)
qed

theorem index_size_race_duplicates_witness:
  "(let text = ''a'' @ [CHR 0x0A];
        cache = snd (build_line_index ''f'' \<lparr>stat = Some (1, 0), body = Some text\<rparr> Map.empty) in
    fst (build_line_index ''f'' \<lparr>stat = Some (2, 2), body = Some text\<rparr> cache) = [0, 0])"
proof -
  have "full_index (''a'' @ [CHR 0x0A]) = [0]"
    by (simp add: full_index_def blank_def strip_by_def byte_space_def)
  with index_size_race_duplicates [where old = "[]" and new = "''a'' @ [CHR 0x0A]" and ?t1.0 = 1 and ?t2.0 = 2
      and ?view1.0 = "\<lparr>stat = Some (1, 0), body = Some (''a'' @ [CHR 0x0A])\<rparr>"
      and ?view2.0 = "\<lparr>stat = Some (2, 2), body = Some (''a'' @ [CHR 0x0A])\<rparr>" and filename = "''f''" and cache = Map.empty]
  show ?thesis by (simp add: whole_lines_def)
qed

end
