(* ===== verification/Json.thy ===== *)
theory Json
  imports Prelude
begin

text \<open>
  JSON documents as Python sees them after \<open>json.load\<close>: dictionaries in insertion order, and the
  equality of Python, which identifies numbers of equal value whatever their type.
\<close>

datatype json =
    JNull
  | JBool bool
  | JInt int
  | JFloat rat
  | JStr string
  | JArr "json list"
  | JObj "(string \<times> json) list"

text \<open>\<open>d.get(key)\<close> on a dictionary; the last of several equal keys wins when a document is read.\<close>

definition obj_get :: "(string \<times> json) list \<Rightarrow> string \<Rightarrow> json option" where
  "obj_get fields key = map_of (rev fields) key"

definition get_or :: "(string \<times> json) list \<Rightarrow> string \<Rightarrow> json \<Rightarrow> json" where
  "get_or fields key dflt = (case obj_get fields key of None \<Rightarrow> dflt | Some v \<Rightarrow> v)"

definition json_num :: "json \<Rightarrow> rat option" where
  "json_num v =
     (case v of JBool b \<Rightarrow> Some (if b then 1 else 0) | JInt i \<Rightarrow> Some (of_int i) | JFloat q \<Rightarrow> Some q | _ \<Rightarrow> None)"

text \<open>\<open>v == w\<close> where \<open>w\<close> is a number or a string.\<close>

definition py_eq :: "json \<Rightarrow> json \<Rightarrow> bool" where
  "py_eq v w = (case (json_num v, json_num w) of (Some a, Some b) \<Rightarrow> a = b | _ \<Rightarrow> v = w)"

lemma obj_get_Nil [simp]: "obj_get [] k = None"
  by (simp add: obj_get_def)

lemma obj_get_Cons: "obj_get ((k, v) # fields) k' = (case obj_get fields k' of None \<Rightarrow> if k = k' then Some v else None | Some w \<Rightarrow> Some w)"
  by (auto simp: obj_get_def map_add_def split: option.splits)

lemma py_eq_str [simp]: "py_eq v (JStr s) \<longleftrightarrow> v = JStr s"
  by (cases v) (auto simp: py_eq_def json_num_def)

lemma py_eq_refl [simp]: "py_eq v v"
  by (cases v) (auto simp: py_eq_def json_num_def)

lemma py_eq_int: "py_eq (JInt i) (JInt j) \<longleftrightarrow> i = j"
  by (simp add: py_eq_def json_num_def)

end
