(* ===== verification/VizServer.thy ===== *)
theory VizServer
  imports VizIndex PyPath Json
begin

text \<open>
  \<open>VizReplayServer\<close>: the file list with its two-second cache, file name checks, paged frames, file
  status and the map cache. Times are nanoseconds. What a call finds in the file system is a
  parameter, as are \<open>json.loads\<close> on the text of a line and the formatting of a time.
\<close>

section \<open>State and file system\<close>

record node =
  n_mtime :: nat
  n_size :: nat
  n_body :: "string option"

record file_info =
  info_name :: string
  match_id :: string
  episode_id :: json
  info_map_id :: json
  frame_count :: nat
  size_bytes :: nat
  modified_ts :: nat
  size_kb :: rat
  modified :: string
  is_growing :: bool

text \<open>
  \<open>jsonl_names\<close> is what \<open>glob\<close> gives, in any order; \<open>node_at\<close> maps a path to what is there, and
  \<open>json_at\<close> a path to the document \<open>json.load\<close> reads: \<open>Inl\<close> for an operating system error or invalid
  JSON, \<open>Inr\<close> for a value.
\<close>

record server_env =
  jsonl_names :: "string list"
  node_at :: "string \<Rightarrow> node option"
  json_at :: "string \<Rightarrow> unit + json"
  now :: nat

record viz_server =
  replay_dir :: string
  validation_id :: string
  mode :: string
  index_cache :: index_cache
  file_list_cache :: "file_info list option"
  file_list_time :: nat
  map_cache :: "string \<rightharpoonup> json"

definition second :: nat where
  "second = 10 ^ 9"

definition viz_server_init :: "string \<Rightarrow> string \<Rightarrow> string \<Rightarrow> string \<Rightarrow> viz_server" where
  "viz_server_init cwd dir v_id md =
     \<lparr>replay_dir = abspath cwd dir, validation_id = v_id, mode = md, index_cache = Map.empty,
      file_list_cache = None, file_list_time = 0, map_cache = Map.empty\<rparr>"

definition maps_dir :: "viz_server \<Rightarrow> string" where
  "maps_dir s = path_join (replay_dir s) ''maps''"

definition view_at :: "server_env \<Rightarrow> string \<Rightarrow> file_view" where
  "view_at env path =
     (case node_at env path of
        None \<Rightarrow> \<lparr>stat = None, body = None\<rparr>
      | Some n \<Rightarrow> \<lparr>stat = Some (n_mtime n, n_size n), body = n_body n\<rparr>)"

text \<open>\<open>_build_line_index\<close> as a step of the server.\<close>

definition server_index :: "server_env \<Rightarrow> string \<Rightarrow> string \<Rightarrow> viz_server \<Rightarrow> nat list \<times> viz_server" where
  "server_index env filename path s =
     (let (offsets, cache) = build_line_index filename (view_at env path) (index_cache s)
      in (offsets, s\<lparr>index_cache := cache\<rparr>))"

section \<open>File names\<close>

definition bad_name :: "string \<Rightarrow> bool" where
  "bad_name n \<longleftrightarrow> has_substring ''..'' n \<or> slash \<in> set n \<or> CHR 0x5C \<in> set n"

datatype name_error = Illegal_Name | Not_Found

definition validate_filename :: "server_env \<Rightarrow> viz_server \<Rightarrow> string \<Rightarrow> name_error + string" where
  "validate_filename env s filename =
     (if bad_name filename then Inl Illegal_Name
      else let path = path_join (replay_dir s) filename in
        if node_at env path = None then Inl Not_Found else Inr path)"

section \<open>The file list\<close>

text \<open>\<open>round(size / 1024, 1)\<close>, half to even.\<close>

definition round1 :: "rat \<Rightarrow> rat" where
  "round1 q =
     (let f = \<lfloor>q * 10\<rfloor>; d = q * 10 - of_int f in
      of_int (if d < 1 / 2 then f else if d > 1 / 2 then f + 1 else if even f then f else f + 1) / 10)"

definition growing :: "server_env \<Rightarrow> node \<Rightarrow> bool" where
  "growing env n \<longleftrightarrow> int (now env) - int (n_mtime n) < 10 * int second"

definition make_info :: "(nat \<Rightarrow> string) \<Rightarrow> server_env \<Rightarrow> string \<Rightarrow> node \<Rightarrow> nat list \<Rightarrow> json \<Rightarrow> json \<Rightarrow> file_info" where
  "make_info fmt_time env name n offsets ep m_id =
     \<lparr>info_name = name, match_id = splitext_root name, episode_id = ep, info_map_id = m_id,
      frame_count = length offsets, size_bytes = n_size n, modified_ts = n_mtime n,
      size_kb = round1 (of_nat (n_size n) / 1024), modified = fmt_time (n_mtime n), is_growing = growing env n\<rparr>"

text \<open>
  The body of the loop. A first line that is not JSON, or a file that cannot be opened, is passed
  over; a first line that is JSON but no object raises \<open>AttributeError\<close>, which nothing catches.
\<close>

definition list_one ::
    "(string \<Rightarrow> json option) \<Rightarrow> (nat \<Rightarrow> string) \<Rightarrow> server_env \<Rightarrow> string \<Rightarrow>
      file_info list \<Rightarrow> viz_server \<Rightarrow> file_info list option \<times> viz_server" where
  "list_one loads fmt_time env name result s =
     (let path = path_join (replay_dir s) name in
      case node_at env path of
        None \<Rightarrow> (Some result, s)
      | Some n \<Rightarrow>
          let (offsets, s') = server_index env name path s in
          if offsets = [] then (Some (result @ [make_info fmt_time env name n [] JNull (JStr [])]), s')
          else case n_body n of
              None \<Rightarrow> (Some result, s')
            | Some content \<Rightarrow>
                (case loads (line_raw (drop (hd offsets) content)) of
                   None \<Rightarrow> (Some result, s')
                 | Some (JObj kvs) \<Rightarrow>
                     (Some (result @ [make_info fmt_time env name n offsets
                             (get_or kvs ''episode_id'' JNull) (get_or kvs ''map_id'' (JStr []))]), s')
                 | Some _ \<Rightarrow> (None, s')))"

primrec list_loop ::
    "(string \<Rightarrow> json option) \<Rightarrow> (nat \<Rightarrow> string) \<Rightarrow> server_env \<Rightarrow> string list \<Rightarrow>
      file_info list \<Rightarrow> viz_server \<Rightarrow> file_info list option \<times> viz_server" where
  "list_loop loads fmt_time env [] result s = (Some result, s)"
| "list_loop loads fmt_time env (name # names) result s =
     (case list_one loads fmt_time env name result s of
        (None, s') \<Rightarrow> (None, s')
      | (Some result', s') \<Rightarrow> list_loop loads fmt_time env names result' s')"

text \<open>Newest first; \<open>getmtime\<close> on a file that is gone raises.\<close>

definition sorted_names :: "server_env \<Rightarrow> viz_server \<Rightarrow> string list option" where
  "sorted_names env s =
     (if \<exists>name \<in> set (jsonl_names env). node_at env (path_join (replay_dir s) name) = None then None
      else Some (sort_key (\<lambda>name. - int (n_mtime (the (node_at env (path_join (replay_dir s) name))))) (jsonl_names env)))"

text \<open>The result is \<open>None\<close> when the call raises; the state keeps what was indexed before.\<close>

definition fresh_list ::
    "(string \<Rightarrow> json option) \<Rightarrow> (nat \<Rightarrow> string) \<Rightarrow> server_env \<Rightarrow> viz_server \<Rightarrow> file_info list option \<times> viz_server" where
  "fresh_list loads fmt_time env s =
     (case sorted_names env s of
        None \<Rightarrow> (None, s)
      | Some names \<Rightarrow>
          (case list_loop loads fmt_time env names [] s of
             (None, s') \<Rightarrow> (None, s')
           | (Some result, s') \<Rightarrow> (Some result, s'\<lparr>file_list_cache := Some result, file_list_time := now env\<rparr>)))"

definition list_files ::
    "(string \<Rightarrow> json option) \<Rightarrow> (nat \<Rightarrow> string) \<Rightarrow> server_env \<Rightarrow> viz_server \<Rightarrow> file_info list option \<times> viz_server" where
  "list_files loads fmt_time env s =
     (case file_list_cache s of
        Some infos \<Rightarrow>
          if int (now env) - int (file_list_time s) < 2 * int second then (Some infos, s)
          else fresh_list loads fmt_time env s
      | None \<Rightarrow> fresh_list loads fmt_time env s)"

section \<open>Frames, counts and status\<close>

datatype frames_result =
    Frames_Name_Error name_error
  | Frames_Read_Error nat
  | Frames "json list" nat

definition get_frame_count :: "server_env \<Rightarrow> string \<Rightarrow> viz_server \<Rightarrow> (name_error + nat) \<times> viz_server" where
  "get_frame_count env filename s =
     (case validate_filename env s filename of
        Inl err \<Rightarrow> (Inl err, s)
      | Inr path \<Rightarrow> let (offsets, s') = server_index env filename path s in (Inr (length offsets), s'))"

definition load_frames_paged ::
    "(string \<Rightarrow> json option) \<Rightarrow> server_env \<Rightarrow> string \<Rightarrow> int \<Rightarrow> int \<Rightarrow> viz_server \<Rightarrow> frames_result \<times> viz_server" where
  "load_frames_paged loads env filename offset limit s =
     (case validate_filename env s filename of
        Inl err \<Rightarrow> (Frames_Name_Error err, s)
      | Inr path \<Rightarrow>
          let (offsets, s') = server_index env filename path s; total = length offsets in
          if offset \<ge> int total then (Frames [] total, s')
          else
            let stop = min (offset + limit) (int total) in
            case body (view_at env path) of
              None \<Rightarrow> (Frames_Read_Error total, s')
            | Some content \<Rightarrow>
                (case read_frames loads content offsets offset stop of
                   None \<Rightarrow> (Frames_Read_Error total, s')
                 | Some frames \<Rightarrow> (Frames frames total, s')))"

record file_status =
  status_file :: string
  total_lines :: nat
  status_size :: nat
  status_growing :: bool
  last_modified :: string

definition get_file_status ::
    "(nat \<Rightarrow> string) \<Rightarrow> server_env \<Rightarrow> string \<Rightarrow> viz_server \<Rightarrow> (name_error + file_status) \<times> viz_server" where
  "get_file_status fmt_time env filename s =
     (case validate_filename env s filename of
        Inl err \<Rightarrow> (Inl err, s)
      | Inr path \<Rightarrow>
          (case node_at env path of
             None \<Rightarrow> (Inl Not_Found, s)
           | Some n \<Rightarrow>
               let (offsets, s') = server_index env filename path s in
               (Inr \<lparr>status_file = filename, total_lines = length offsets, status_size = n_size n,
                     status_growing = growing env n, last_modified = fmt_time (n_mtime n)\<rparr>, s')))"

text \<open>\<open>_load_optional_json\<close>: an empty object when the file cannot be read.\<close>

definition load_optional_json :: "server_env \<Rightarrow> string \<Rightarrow> json" where
  "load_optional_json env path = (case json_at env path of Inl _ \<Rightarrow> JObj [] | Inr v \<Rightarrow> v)"

record server_status =
  st_mode :: string
  st_validation_id :: string
  st_model :: json
  st_parameters :: json
  st_client_result :: json
  st_replay_dir :: string
  st_file_count :: nat
  st_cached_files :: nat
  st_cached_maps :: nat

text \<open>A manifest that is not an object raises \<open>AttributeError\<close>.\<close>

definition get_status ::
    "(string \<Rightarrow> json option) \<Rightarrow> (nat \<Rightarrow> string) \<Rightarrow> server_env \<Rightarrow> viz_server \<Rightarrow> server_status option \<times> viz_server" where
  "get_status loads fmt_time env s =
     (case list_files loads fmt_time env s of
        (None, s') \<Rightarrow> (None, s')
      | (Some infos, s') \<Rightarrow>
          let manifest = load_optional_json env (path_join (replay_dir s') ''validation-manifest.json'');
              client_result = load_optional_json env (path_join (replay_dir s') ''client-result.json'') in
          case manifest of
            JObj kvs \<Rightarrow> (Some
         \<lparr>st_mode = mode s', st_validation_id = validation_id s',
           st_model = get_or kvs ''model'' (JObj []), st_parameters = get_or kvs ''parameters'' (JObj []),
           st_client_result = client_result, st_replay_dir = replay_dir s', st_file_count = length infos,
           st_cached_files = card (dom (index_cache s')), st_cached_maps = card (dom (map_cache s'))\<rparr>, s')
          | _ \<Rightarrow> (None, s'))"

section \<open>Maps\<close>

datatype map_error = Illegal_Map_Id | Map_Not_Found | Map_Load_Failed

definition load_map :: "server_env \<Rightarrow> string \<Rightarrow> viz_server \<Rightarrow> (map_error + json) \<times> viz_server" where
  "load_map env m_id s =
     (if bad_name m_id then (Inl Illegal_Map_Id, s)
      else case map_cache s m_id of
          Some v \<Rightarrow> (Inr v, s)
        | None \<Rightarrow>
            let path = path_join (maps_dir s) (m_id @ ''.json'') in
            if node_at env path = None then (Inl Map_Not_Found, s)
            else case json_at env path of
                Inl _ \<Rightarrow> (Inl Map_Load_Failed, s)
              | Inr v \<Rightarrow> (Inr v, s\<lparr>map_cache := (map_cache s)(m_id \<mapsto> v)\<rparr>))"

section \<open>Steps keep the directory\<close>

lemma server_index_frame [simp]:
  "replay_dir (snd (server_index env filename path s)) = replay_dir s"
  "map_cache (snd (server_index env filename path s)) = map_cache s"
  by (simp_all add: server_index_def case_prod_beta)

lemma server_index_fst: "fst (server_index env filename path s) = fst (build_line_index filename (view_at env path) (index_cache s))"
  by (simp add: server_index_def case_prod_beta)

lemma server_index_eq: "server_index env filename path s = (fst (server_index env filename path s), snd (server_index env filename path s))"
  by simp

definition mtime_of :: "server_env \<Rightarrow> string \<Rightarrow> string \<Rightarrow> nat" where
  "mtime_of env dir name = n_mtime (the (node_at env (path_join dir name)))"

text \<open>One round of the loop adds nothing or the entry of its file.\<close>

lemma list_one_adds:
  assumes "list_one loads fmt_time env name result s = (Some result', s')"
  shows "replay_dir s' = replay_dir s"
    and "result' = result \<or> (\<exists>info. result' = result @ [info] \<and> info_name info = name \<and>
      modified_ts info = mtime_of env (replay_dir s) name)"
proof -
  let ?path = "path_join (replay_dir s) name"
  have "replay_dir s' = replay_dir s \<and> (result' = result \<or> (\<exists>info. result' = result @ [info] \<and> info_name info = name \<and>
      modified_ts info = mtime_of env (replay_dir s) name))"
  proof (cases "node_at env ?path")
    case None
    with assms show ?thesis by (simp add: list_one_def Let_def)
  next
    case (Some n)
    show ?thesis
    proof (cases "fst (server_index env name ?path s) = []")
      case True
      with assms Some show ?thesis
        by (auto simp: list_one_def Let_def case_prod_beta make_info_def mtime_of_def)
    next
      case False
      with assms Some show ?thesis
        by (auto simp: list_one_def Let_def case_prod_beta make_info_def mtime_of_def split: option.splits json.splits)
    qed
  qed
  then show "replay_dir s' = replay_dir s"
    and "result' = result \<or> (\<exists>info. result' = result @ [info] \<and> info_name info = name \<and>
      modified_ts info = mtime_of env (replay_dir s) name)" by blast+
qed

text \<open>The loop over names sorted newest first gives entries sorted newest first.\<close>

lemma list_loop_newest:
  assumes "list_loop loads fmt_time env names result s = (Some result', s')"
    and "sorted_wrt (\<lambda>a b. mtime_of env (replay_dir s) b \<le> mtime_of env (replay_dir s) a) names"
    and "sorted_wrt (\<lambda>a b. modified_ts b \<le> modified_ts a) result"
    and "\<forall>i \<in> set result. \<forall>n \<in> set names. mtime_of env (replay_dir s) n \<le> modified_ts i"
  shows "sorted_wrt (\<lambda>a b. modified_ts b \<le> modified_ts a) result' \<and>
    info_name ` set result' \<subseteq> info_name ` set result \<union> set names \<and> replay_dir s' = replay_dir s"
  using assms
proof (induction names arbitrary: result s)
  case Nil
  then show ?case by simp
next
  case (Cons name names)
  obtain r1 s1 where 1: "list_one loads fmt_time env name result s = (Some r1, s1)"
    "list_loop loads fmt_time env names r1 s1 = (Some result', s')"
    using Cons.prems(1) by (auto split: prod.splits option.splits)
  note one = list_one_adds [OF 1(1)]
  have "sorted_wrt (\<lambda>a b. modified_ts b \<le> modified_ts a) r1"
    using one(2) Cons.prems(3,4) by (auto simp: sorted_wrt_append)
  moreover have "\<forall>i \<in> set r1. \<forall>n \<in> set names. mtime_of env (replay_dir s1) n \<le> modified_ts i"
    using one Cons.prems(2,4) by auto
  moreover have "info_name ` set r1 \<subseteq> info_name ` set result \<union> {name}"
    using one(2) by auto
  moreover have "sorted_wrt (\<lambda>a b. mtime_of env (replay_dir s1) b \<le> mtime_of env (replay_dir s1) a) names"
    using Cons.prems(2) one(1) by simp
  ultimately have "sorted_wrt (\<lambda>a b. modified_ts b \<le> modified_ts a) result'"
    "info_name ` set result' \<subseteq> info_name ` set r1 \<union> set names" "replay_dir s' = replay_dir s"
    using Cons.IH [OF 1(2)] one(1) by simp_all
  with \<open>info_name ` set r1 \<subseteq> info_name ` set result \<union> {name}\<close> show ?case
    by (simp only: set_simps) blast
qed

lemma sorted_names_newest:
  assumes "sorted_names env s = Some names"
  shows "set names = set (jsonl_names env)"
    and "sorted_wrt (\<lambda>a b. mtime_of env (replay_dir s) b \<le> mtime_of env (replay_dir s) a) names"
proof -
  let ?key = "\<lambda>name. - int (mtime_of env (replay_dir s) name)"
  have names: "names = sort_key ?key (jsonl_names env)"
    using assms by (auto simp: sorted_names_def mtime_of_def split: if_splits)
  then show "set names = set (jsonl_names env)" by simp
  have "sorted (map ?key names)" using names by simp
  then show "sorted_wrt (\<lambda>a b. mtime_of env (replay_dir s) b \<le> mtime_of env (replay_dir s) a) names"
    by (simp add: sorted_wrt_map)
qed

section \<open>Properties\<close>

text \<open>An environment with one replay file of two frames, for examples; a frame parses to an object with the text.\<close>

definition sample_body :: string where
  "sample_body = ''1'' @ [CHR 0x0A] @ ''22'' @ [CHR 0x0A]"

definition sample_env :: server_env where
  "sample_env = \<lparr>jsonl_names = [''f.jsonl''],
     node_at = [''/r/f.jsonl'' \<mapsto> \<lparr>n_mtime = 5, n_size = 5, n_body = Some sample_body\<rparr>],
     json_at = (\<lambda>_. Inl ()), now = 0\<rparr>"

definition sample_server :: viz_server where
  "sample_server = viz_server_init ''/'' ''/r'' ''v'' ''evaluation''"

lemma sample_server_dir [simp]: "replay_dir sample_server = ''/r''"
  by (simp add: sample_server_def viz_server_init_def abspath_def normpath_def is_absolute_def slash_def)

lemma sample_accepted: "validate_filename sample_env sample_server ''f.jsonl'' = Inr ''/r/f.jsonl''"
  by (simp add: validate_filename_def bad_name_def sample_env_def path_join_def slash_def)

text \<open>C37: A file name the server accepts stays inside the replay directory: the path it opens is the directory itself or
  one plain name directly below it.\<close>

theorem accepted_name_stays_inside:
  assumes "validate_filename env s filename = Inr path" and "replay_dir s \<noteq> []"
  shows "path_comps path = path_comps (replay_dir s) @ (if filename = [] \<or> filename = ''.'' then [] else [filename])"
proof -
  have "slash \<notin> set filename" "filename \<noteq> ''..''" "path = path_join (replay_dir s) filename"
    using assms(1) by (auto simp: validate_filename_def bad_name_def Let_def split: if_splits)
  with path_comps_join [OF assms(2)] show ?thesis by simp
qed

theorem accepted_name_stays_inside_witness:
  "path_comps ''/r/f.jsonl'' = path_comps ''/r'' @ [''f.jsonl'']"
  using accepted_name_stays_inside [OF sample_accepted] by simp


lemma sample_frames: "frame_lines sample_body = [''1'' @ [CHR 0x0A], ''22'' @ [CHR 0x0A]]"
  by (simp add: frame_lines_def sample_body_def blank_def strip_by_def byte_space_def)

lemma sample_view: "fst (build_line_index ''f.jsonl'' (view_at sample_env ''/r/f.jsonl'') (index_cache sample_server)) = full_index sample_body"
  by (simp add: build_line_index_def view_at_def sample_env_def sample_server_def viz_server_init_def full_index_def Let_def)


text \<open>A negative offset does not fail: Python's negative indices make the page start that many frames before the
  end of the file and run on into its beginning.\<close>

theorem negative_offset_wraps:
  assumes "validate_filename env s filename = Inr path" and "node_at env path = Some n" and "n_body n = Some content"
    and "fst (build_line_index filename (view_at env path) (index_cache s)) = full_index content"
    and "offset < 0" and "- int (length (frame_lines content)) \<le> offset" and "offset + limit \<le> int (length (frame_lines content))"
  shows "fst (load_frames_paged loads env filename offset limit s) =
    Frames (concat (map (\<lambda>i. frame_of loads (frame_lines content !
        nat (if i < 0 then int (length (frame_lines content)) + i else i))) (py_range offset (offset + limit))))
      (length (frame_lines content))"
proof -
  let ?xs = "frame_lines content" and ?total = "length (frame_lines content)"
  have view: "body (view_at env path) = Some content" using assms(2,3) by (simp add: view_at_def)
  have idx: "fst (server_index env filename path s) = full_index content"
    using assms(4) by (simp add: server_index_fst)
  let ?at = "\<lambda>i. nat (if i < 0 then int ?total + i else i)"
  let ?body = "\<lambda>i frames. do {
       pos \<leftarrow> lget (full_index content) i;
       let line = line_text (drop pos content);
       Some (if line = [] then frames
             else case loads line of None \<Rightarrow> frames | Some frame \<Rightarrow> frames @ [frame])
     }"
  have "?body i frames = Some (frames @ frame_of loads (?xs ! ?at i))" if "i \<in> set (py_range offset (offset + limit))" for i frames
  proof -
    have i: "?at i < length (full_index content)" "lget (full_index content) i = Some (full_index content ! ?at i)"
      using that assms(5-7) by (auto simp: length_full_index lget_def py_index_def)
    show ?thesis using line_text_at [OF i(1)] i(2) by (auto simp: frame_of_def Let_def split: option.splits)
  qed
  from for_each_collect [where xs = "py_range offset (offset + limit)" and s = "[]", OF this]
  have "read_frames loads content (full_index content) offset (offset + limit) =
      Some (concat (map (\<lambda>i. frame_of loads (?xs ! ?at i)) (py_range offset (offset + limit))))"
    unfolding read_frames_def by simp
  then show ?thesis
    unfolding load_frames_paged_def assms(1) sum.case Let_def case_prod_beta idx length_full_index view option.case
    using assms(5,7) by (simp add: min_def)
qed

theorem negative_offset_wraps_witness:
  "fst (load_frames_paged (\<lambda>t. Some (JStr t)) sample_env ''f.jsonl'' (- 1) 2 sample_server) = Frames [JStr ''22'', JStr ''1''] 2"
proof -
  have n: "node_at sample_env ''/r/f.jsonl'' = Some \<lparr>n_mtime = 5, n_size = 5, n_body = Some sample_body\<rparr>"
    by (simp add: sample_env_def)
  have "line_text (''22'' @ [CHR 0x0A]) = ''22''" "line_text (''1'' @ [CHR 0x0A]) = ''1''"
    by (simp_all add: line_text_def line_raw_def strip_def strip_by_def py_space_def)
  then have "frame_of (\<lambda>t. Some (JStr t)) (''22'' @ [CHR 0x0A]) = [JStr ''22'']"
    "frame_of (\<lambda>t. Some (JStr t)) (''1'' @ [CHR 0x0A]) = [JStr ''1'']" by (simp_all add: frame_of_def)
  moreover have "py_range (- 1) (- 1 + 2) = [- 1, 0]" by (simp add: py_range_def upto_rec1)
  ultimately show ?thesis
    using negative_offset_wraps [OF sample_accepted n _ sample_view, of "- 1" 2 "\<lambda>t. Some (JStr t)"]
    by (simp add: sample_frames)
qed

text \<open>A fresh file list names only replay files of the directory, newest first, and is kept; within two seconds of it
  the same list is returned whatever has happened to the files.\<close>

theorem file_list_sorted_and_cached:
  assumes "list_files loads fmt_time env s = (Some infos, s')" and "file_list_cache s = None"
    and "int (now env') - int (now env) < 2 * int second"
  shows "sorted_wrt (\<lambda>a b. modified_ts b \<le> modified_ts a) infos \<and> info_name ` set infos \<subseteq> set (jsonl_names env) \<and>
    list_files loads' fmt_time' env' s' = (Some infos, s')"
proof -
  obtain names s1 where 1: "sorted_names env s = Some names"
    "list_loop loads fmt_time env names [] s = (Some infos, s1)"
    "s' = s1\<lparr>file_list_cache := Some infos, file_list_time := now env\<rparr>"
    using assms(1,2) by (auto simp: list_files_def fresh_list_def split: option.splits prod.splits)
  have "sorted_wrt (\<lambda>a b. modified_ts b \<le> modified_ts a) infos \<and> info_name ` set infos \<subseteq> set names"
    using list_loop_newest [OF 1(2) sorted_names_newest(2) [OF 1(1)]] by simp
  moreover have "list_files loads' fmt_time' env' s' = (Some infos, s')"
    using assms(3) 1(3) by (simp add: list_files_def)
  ultimately show ?thesis using sorted_names_newest(1) [OF 1(1)] by simp
qed

theorem file_list_sorted_and_cached_witness:
  "(case list_files (\<lambda>t. Some (JObj [])) (\<lambda>_. []) sample_env sample_server of
     (Some infos, s') \<Rightarrow> map info_name infos = [''f.jsonl''] \<and>
       list_files (\<lambda>t. None) (\<lambda>_. []) (sample_env\<lparr>jsonl_names := [], now := 1\<rparr>) s' = (Some infos, s')
   | _ \<Rightarrow> False)"
proof -
  have "map_option (map info_name) (fst (list_files (\<lambda>t. Some (JObj [])) (\<lambda>_. []) sample_env sample_server)) = Some [''f.jsonl'']"
    by (simp add: list_files_def fresh_list_def sorted_names_def list_one_def server_index_def build_line_index_def view_at_def
        Let_def path_join_def slash_def sample_env_def make_info_def case_prod_beta sample_body_def blank_def strip_by_def byte_space_def
        sample_server_def viz_server_init_def abspath_def normpath_def is_absolute_def)
  then obtain infos s' where run: "list_files (\<lambda>t. Some (JObj [])) (\<lambda>_. []) sample_env sample_server = (Some infos, s')"
    and names: "map info_name infos = [''f.jsonl'']"
    by (cases "list_files (\<lambda>t. Some (JObj [])) (\<lambda>_. []) sample_env sample_server") auto
  have "file_list_cache sample_server = None" by (simp add: sample_server_def viz_server_init_def)
  from file_list_sorted_and_cached [OF run this, of "sample_env\<lparr>jsonl_names := [], now := 1\<rparr>" "\<lambda>t. None" "\<lambda>_. []"]
  show ?thesis unfolding run by (simp add: names sample_env_def second_def)
qed

text \<open>One replay file whose first line is JSON but not an object makes the whole listing raise, and with it the
  start of the server and the status request.\<close>

theorem list_files_non_object:
  assumes "file_list_cache s = None" and "jsonl_names env = [name]"
    and "node_at env (path_join (replay_dir s) name) = Some n" and "n_body n = Some content"
    and "fst (server_index env name (path_join (replay_dir s) name) s) \<noteq> []"
    and "loads (line_raw (drop (hd (fst (server_index env name (path_join (replay_dir s) name) s))) content)) = Some v"
    and "\<forall>kvs. v \<noteq> JObj kvs"
  shows "fst (list_files loads fmt_time env s) = None \<and> fst (get_status loads fmt_time env s) = None"
proof -
  have "fst (list_one loads fmt_time env name [] s) = None"
    using assms(3-7) by (cases v) (simp_all add: list_one_def Let_def case_prod_beta)
  moreover have "sorted_names env s = Some [name]" using assms(2,3) by (simp add: sorted_names_def)
  ultimately have "fst (list_files loads fmt_time env s) = None"
    using assms(1) by (auto simp: list_files_def fresh_list_def split: option.splits prod.splits)
  then show ?thesis by (auto simp: get_status_def split: option.splits prod.splits)
qed

theorem list_files_non_object_witness:
  "fst (list_files (\<lambda>t. Some (JInt 1)) (\<lambda>_. []) sample_env sample_server) = None"
proof -
  have n: "node_at sample_env (path_join (replay_dir sample_server) ''f.jsonl'') = Some \<lparr>n_mtime = 5, n_size = 5, n_body = Some sample_body\<rparr>"
    by (simp add: sample_env_def path_join_def slash_def)
  have idx: "fst (server_index sample_env ''f.jsonl'' (path_join (replay_dir sample_server) ''f.jsonl'') sample_server) \<noteq> []"
  proof -
    have "path_join (replay_dir sample_server) ''f.jsonl'' = ''/r/f.jsonl''" by (simp add: path_join_def slash_def)
    moreover have "length (full_index sample_body) = 2" by (simp add: length_full_index sample_frames)
    ultimately show ?thesis using sample_view by (auto simp: server_index_fst)
  qed
  have "file_list_cache sample_server = None" by (simp add: sample_server_def viz_server_init_def)
  moreover have "jsonl_names sample_env = [''f.jsonl'']" by (simp add: sample_env_def)
  ultimately show ?thesis
    using list_files_non_object [OF _ _ n _ idx, where loads = "\<lambda>t. Some (JInt 1)" and v = "JInt 1"] by simp
qed

text \<open>A map that was loaded once is served from memory ever after, whatever becomes of its file; a map that failed to
  load is not kept.\<close>

theorem load_map_sticky:
  "(case load_map env m_id s of
     (Inr v, s') \<Rightarrow> load_map env' m_id s' = (Inr v, s')
   | (Inl _, s') \<Rightarrow> s' = s)"
  by (auto simp: load_map_def Let_def split: option.splits sum.splits if_splits)

end
