(* ===== verification/Url.thy ===== *)
theory Url
  imports PyPath
begin

text \<open>
  \<open>urlparse\<close> and \<open>parse_qs\<close> of \<open>urllib.parse\<close> (Python 3.11), as far as the request handler looks at their results: the
  path and the query of a request. The path of a request line is decoded as Latin-1, so its characters are those of
  the model. Two functions of the library stay parameters: \<open>netloc_ok\<close>, the checks of a host name in a URL that has
  one, and \<open>decode\<close>, the decoding of bytes as UTF-8.
\<close>

section \<open>Splitting a URL\<close>

definition code :: "char \<Rightarrow> nat" where
  "code c = of_char c"

definition is_ascii :: "char \<Rightarrow> bool" where
  "is_ascii c \<longleftrightarrow> code c < 128"

definition is_letter :: "char \<Rightarrow> bool" where
  "is_letter c \<longleftrightarrow> 65 \<le> code c \<and> code c \<le> 90 \<or> 97 \<le> code c \<and> code c \<le> 122"

definition scheme_char :: "char \<Rightarrow> bool" where
  "scheme_char c \<longleftrightarrow> is_letter c \<or> is_digit c \<or> c \<in> set ''+-.''"

definition to_lower :: "char \<Rightarrow> char" where
  "to_lower c = (if 65 \<le> code c \<and> code c \<le> 90 then char_of (code c + 32) else c)"

text \<open>Leading controls and spaces go, tabs and line ends go everywhere.\<close>

definition clean_url :: "string \<Rightarrow> string" where
  "clean_url url = filter (\<lambda>c. code c \<notin> {9, 10, 13}) (dropWhile (\<lambda>c. code c \<le> 32) url)"

definition split_scheme :: "string \<Rightarrow> string \<times> string" where
  "split_scheme url =
     (let (s, found, rest) = partition_at (CHR '':'') url in
      if found \<and> s \<noteq> [] \<and> is_letter (hd url) \<and> list_all scheme_char s then (map to_lower s, rest) else ([], url))"

text \<open>The schemes whose last path segment may carry parameters behind a semicolon.\<close>

definition uses_params :: "string list" where
  "uses_params = [[], ''ftp'', ''hdl'', ''prospero'', ''http'', ''imap'', ''https'', ''shttp'', ''rtsp'', ''rtsps'', ''rtspu'', ''sip'', ''sips'',
     ''mms'', ''sftp'', ''tel'']"

definition drop_params :: "string \<Rightarrow> string" where
  "drop_params path =
     (let tail = rev (takeWhile (\<lambda>c. c \<noteq> CHR ''/'') (rev path)); before = take (length path - length tail) path in
      before @ takeWhile (\<lambda>c. c \<noteq> CHR '';'') tail)"

text \<open>The path and the query, or nothing when the host name is refused (a \<open>ValueError\<close>).\<close>

definition urlparse :: "(string \<Rightarrow> bool) \<Rightarrow> string \<Rightarrow> (string \<times> string) option" where
  "urlparse netloc_ok raw =
     (let (scheme, url) = split_scheme (clean_url raw);
          has_host = has_prefix ''//'' url;
          host_end = (\<lambda>c. c \<notin> set ''/?#'');
          netloc = (if has_host then takeWhile host_end (drop 2 url) else []);
          rest = (if has_host then dropWhile host_end (drop 2 url) else url);
          rest = fst (partition_at (CHR ''#'') rest);
          (path, found, query) = partition_at (CHR ''?'') rest in
      if has_host \<and> \<not> netloc_ok netloc then None
      else Some (if scheme \<in> set uses_params then drop_params path else path, query))"

section \<open>Percent decoding\<close>

definition hex_value :: "char \<Rightarrow> nat option" where
  "hex_value c =
     (if is_digit c then Some (code c - 48)
      else if 65 \<le> code c \<and> code c \<le> 70 then Some (code c - 55)
      else if 97 \<le> code c \<and> code c \<le> 102 then Some (code c - 87)
      else None)"

fun unquote_to_bytes :: "string \<Rightarrow> string" where
  "unquote_to_bytes (c # a # b # s) =
     (if c = CHR ''%'' then
        (case (hex_value a, hex_value b) of
           (Some x, Some y) \<Rightarrow> char_of (16 * x + y) # unquote_to_bytes s
         | _ \<Rightarrow> c # unquote_to_bytes (a # b # s))
      else c # unquote_to_bytes (a # b # s))"
| "unquote_to_bytes s = s"

text \<open>The runs of ASCII characters and of others.\<close>

fun ascii_runs :: "string \<Rightarrow> string list" where
  "ascii_runs [] = []"
| "ascii_runs (c # s) =
     (case ascii_runs s of
        [] \<Rightarrow> [[c]]
      | r # rs \<Rightarrow> if is_ascii c = is_ascii (hd r) then (c # r) # rs else [c] # r # rs)"

definition unquote :: "(string \<Rightarrow> string) \<Rightarrow> string \<Rightarrow> string" where
  "unquote decode s =
     (if CHR ''%'' \<notin> set s then s
      else concat (map (\<lambda>r. if is_ascii (hd r) then decode (unquote_to_bytes r) else r) (ascii_runs s)))"

definition unquote_plus :: "(string \<Rightarrow> string) \<Rightarrow> string \<Rightarrow> string" where
  "unquote_plus decode s = unquote decode (map (\<lambda>c. if c = CHR ''+'' then CHR '' '' else c) s)"

section \<open>Queries\<close>

text \<open>Fields without a value, or with an empty one, are passed over.\<close>

definition parse_qsl :: "(string \<Rightarrow> string) \<Rightarrow> string \<Rightarrow> (string \<times> string) list" where
  "parse_qsl decode qs =
     concat (map (\<lambda>field.
       let (name, eq, v) = partition_at (CHR ''='') field in
       if v = [] then [] else [(unquote_plus decode name, unquote_plus decode v)]) (split_on (CHR ''&'') qs))"

type_synonym query = "string \<rightharpoonup> string list"

definition parse_qs :: "(string \<Rightarrow> string) \<Rightarrow> string \<Rightarrow> query" where
  "parse_qs decode qs =
     (\<lambda>name. case filter (\<lambda>kv. fst kv = name) (parse_qsl decode qs) of [] \<Rightarrow> None | kvs \<Rightarrow> Some (map snd kvs))"

section \<open>Encoding\<close>

text \<open>What the replay page does to a name before it asks for it (\<open>encodeURIComponent\<close>), on ASCII characters.\<close>

definition url_safe :: "char \<Rightarrow> bool" where
  "url_safe c \<longleftrightarrow> is_letter c \<or> is_digit c \<or> c \<in> set ''-_.!~*()'' \<or> c = CHR 0x27"

definition hex_upper :: "nat \<Rightarrow> char" where
  "hex_upper k = (if k < 10 then char_of (48 + k) else char_of (55 + k))"

definition encode_char :: "char \<Rightarrow> string" where
  "encode_char c = (if url_safe c then [c] else [CHR ''%'', hex_upper (code c div 16), hex_upper (code c mod 16)])"

definition encode_component :: "string \<Rightarrow> string" where
  "encode_component s = concat (map encode_char s)"

lemma code_char_of [simp]: "n < 256 \<Longrightarrow> code (char_of n) = n"
  by (simp add: code_def)

lemma char_of_code [simp]: "char_of (code c) = c"
  by (simp add: code_def)

lemma hex_upper_value [simp]: "k < 16 \<Longrightarrow> hex_value (hex_upper k) = Some k"
  by (auto simp: hex_value_def hex_upper_def is_digit_def code_def)

lemma unquote_plain: "c \<noteq> CHR ''%'' \<Longrightarrow> unquote_to_bytes (c # s) = c # unquote_to_bytes s"
  by (cases s rule: unquote_to_bytes.cases) auto

lemma unquote_no_percent: "CHR ''%'' \<notin> set s \<Longrightarrow> unquote_to_bytes s = s"
  by (induction s) (auto simp: unquote_plain)

lemma unquote_escape: "code c < 256 \<Longrightarrow>
    unquote_to_bytes (CHR ''%'' # hex_upper (code c div 16) # hex_upper (code c mod 16) # s) = c # unquote_to_bytes s"
  by (simp add: mult.commute)

lemma safe_code: "url_safe c \<Longrightarrow> 33 \<le> code c \<and> code c \<le> 126 \<and> c \<notin> set ''%+&=#?;/: ''"
  by (auto simp: url_safe_def is_letter_def is_digit_def code_def)

lemma code_256: "code c < 256"
  by (simp add: code_def)

lemma unquote_encode: "unquote_to_bytes (encode_component s) = s"
proof (induction s)
  case (Cons c s)
  then show ?case
    using safe_code [of c] unquote_escape [OF code_256]
    by (auto simp: encode_component_def encode_char_def unquote_plain)
qed (simp add: encode_component_def)

lemma hex_upper_safe: "k < 16 \<Longrightarrow> url_safe (hex_upper k)"
  by (auto simp: hex_upper_def url_safe_def is_letter_def is_digit_def code_def)

lemma encode_chars: "c \<in> set (encode_component s) \<Longrightarrow> url_safe c \<or> c = CHR ''%''"
proof -
  assume "c \<in> set (encode_component s)"
  then obtain d where "c \<in> set (encode_char d)" by (auto simp: encode_component_def)
  moreover have "code d div 16 < 16" using code_256 [of d] by simp
  ultimately show ?thesis using hex_upper_safe by (auto simp: encode_char_def split: if_splits)
qed

lemma safe_ascii: "url_safe c \<or> c = CHR ''%'' \<Longrightarrow> is_ascii c"
  using safe_code [of c] by (auto simp: is_ascii_def code_def)

lemma ascii_runs_all: "s \<noteq> [] \<Longrightarrow> list_all is_ascii s \<Longrightarrow> ascii_runs s = [s]"
proof (induction s)
  case (Cons c s)
  then show ?case by (cases s) auto
qed simp

text \<open>Bytes below 128 stand for themselves in UTF-8.\<close>

definition decodes_ascii :: "(string \<Rightarrow> string) \<Rightarrow> bool" where
  "decodes_ascii decode \<longleftrightarrow> (\<forall>s. list_all is_ascii s \<longrightarrow> decode s = s)"

text \<open>Decoding undoes encoding.\<close>

lemma unquote_plus_encode:
  assumes "decodes_ascii decode" and "list_all is_ascii s"
  shows "unquote_plus decode (encode_component s) = s"
proof -
  let ?e = "encode_component s"
  have chars: "url_safe c \<or> c = CHR ''%''" if "c \<in> set ?e" for c using encode_chars that .
  have "map (\<lambda>c. if c = CHR ''+'' then CHR '' '' else c) ?e = ?e"
    using chars safe_code by (intro map_idI) fastforce
  then have plus: "unquote_plus decode ?e = unquote decode ?e" by (simp only: unquote_plus_def)
  show ?thesis
  proof (cases "CHR ''%'' \<in> set ?e")
    case True
    have "list_all is_ascii ?e" using chars safe_ascii by (auto simp: list_all_iff)
    moreover from True have "?e \<noteq> []" by auto
    ultimately have "ascii_runs ?e = [?e]" "is_ascii (hd ?e)"
      by (simp_all add: ascii_runs_all list_all_iff)
    with True assms plus show ?thesis by (simp add: unquote_def unquote_encode decodes_ascii_def)
  next
    case False
    then have "unquote_to_bytes ?e = ?e" by (rule unquote_no_percent)
    with False plus show ?thesis by (simp add: unquote_def unquote_encode)
  qed
qed

text \<open>A query of encoded values under plain names.\<close>

definition encode_field :: "string \<times> string \<Rightarrow> string" where
  "encode_field kv = fst kv @ CHR ''='' # encode_component (snd kv)"

definition encode_query :: "(string \<times> string) list \<Rightarrow> string" where
  "encode_query kvs = join_with (CHR ''&'') (map encode_field kvs)"

definition good_field :: "string \<times> string \<Rightarrow> bool" where
  "good_field kv \<longleftrightarrow> list_all url_safe (fst kv) \<and> snd kv \<noteq> [] \<and> list_all is_ascii (snd kv)"

lemma encode_safe: "list_all url_safe s \<Longrightarrow> encode_component s = s"
  by (induction s) (auto simp: encode_component_def encode_char_def)

lemma encode_Nil_iff [simp]: "encode_component s = [] \<longleftrightarrow> s = []"
  by (cases s) (auto simp: encode_component_def encode_char_def)

lemma field_chars: "good_field kv \<Longrightarrow> c \<in> set (encode_field kv) \<Longrightarrow> url_safe c \<or> c = CHR ''%'' \<or> c = CHR ''=''"
  using encode_chars by (auto simp: encode_field_def good_field_def list_all_iff)

lemma parse_encoded_query:
  assumes "decodes_ascii decode" and "list_all good_field kvs" and "kvs \<noteq> []"
  shows "parse_qsl decode (encode_query kvs) = kvs"
proof -
  have "split_on (CHR ''&'') (encode_query kvs) = map encode_field kvs"
    unfolding encode_query_def
    by (rule split_join) (use assms(2,3) field_chars safe_code in \<open>fastforce simp: list_all_iff\<close>)+
  moreover have "(let (name, eq, v) = partition_at (CHR ''='') (encode_field kv) in
      if v = [] then [] else [(unquote_plus decode name, unquote_plus decode v)]) = [kv]" if "kv \<in> set kvs" for kv
  proof -
    have good: "good_field kv" using assms(2) that by (simp add: list_all_iff)
    then have "CHR ''='' \<notin> set (fst kv)" using safe_code by (fastforce simp: good_field_def list_all_iff)
    then have "partition_at (CHR ''='') (encode_field kv) = (fst kv, True, encode_component (snd kv))"
      by (simp add: encode_field_def partition_join)
    moreover have "list_all is_ascii (fst kv)" "encode_component (fst kv) = fst kv"
      using good safe_ascii by (auto simp: good_field_def encode_safe list_all_iff)
    moreover from this have "unquote_plus decode (fst kv) = fst kv"
      using unquote_plus_encode [OF assms(1), of "fst kv"] by simp
    ultimately show ?thesis
      using good unquote_plus_encode [OF assms(1), of "snd kv"] by (simp add: good_field_def)
  qed
  ultimately have "parse_qsl decode (encode_query kvs) = concat (map (\<lambda>kv. [kv]) kvs)"
    by (simp add: parse_qsl_def comp_def cong: map_cong)
  then show ?thesis by simp
qed

lemma query_chars: "list_all good_field kvs \<Longrightarrow> c \<in> set (encode_query kvs) \<Longrightarrow> url_safe c \<or> c \<in> set ''%=&''"
proof (induction kvs)
  case (Cons kv kvs)
  then show ?case using field_chars [of kv c] by (cases kvs) (auto simp: encode_query_def)
qed (simp add: encode_query_def)

text \<open>A path of plain characters and a query are found as they were written.\<close>

definition plain_path :: "string \<Rightarrow> bool" where
  "plain_path path \<longleftrightarrow> has_prefix ''/'' path \<and> \<not> has_prefix ''//'' path \<and> list_all (\<lambda>c. url_safe c \<or> c = CHR ''/'') path"

lemma drop_params_plain: "CHR '';'' \<notin> set path \<Longrightarrow> drop_params path = path"
proof -
  assume no: "CHR '';'' \<notin> set path"
  define t where "t = rev (takeWhile (\<lambda>c. c \<noteq> CHR ''/'') (rev path))"
  have "set t \<subseteq> set path" by (auto simp: t_def dest: set_takeWhileD)
  with no have "takeWhile (\<lambda>c. c \<noteq> CHR '';'') t = t" unfolding takeWhile_eq_all_conv by auto
  moreover have "path = rev (dropWhile (\<lambda>c. c \<noteq> CHR ''/'') (rev path)) @ t"
    unfolding t_def by (metis rev_append rev_rev_ident takeWhile_dropWhile_id)
  then have "take (length path - length t) path @ t = path" by (metis append_eq_conv_conj length_append add_diff_cancel_right')
  ultimately show ?thesis unfolding drop_params_def Let_def t_def [symmetric] by (simp only:)
qed

lemma urlparse_request:
  assumes "plain_path path" and "list_all good_field kvs"
  shows "urlparse netloc_ok (path @ CHR ''?'' # encode_query kvs) = Some (path, encode_query kvs)"
proof -
  let ?url = "path @ CHR ''?'' # encode_query kvs"
  obtain p where p: "path = CHR ''/'' # p" "\<not> has_prefix ''/'' p"
    using assms(1) by (auto simp: plain_path_def has_prefix_iff)
  have pc: "33 \<le> code c \<and> c \<notin> set ''?#;''" if "c \<in> set path" for c
  proof (cases "c = CHR ''/''")
    case False
    with that assms(1) have "url_safe c" by (auto simp: plain_path_def list_all_iff)
    from safe_code [OF this] show ?thesis by auto
  qed (simp add: code_def)
  have qc: "33 \<le> code c \<and> c \<noteq> CHR ''#''" if "c \<in> set (encode_query kvs)" for c
    using query_chars [OF assms(2) that] safe_code [of c] by (auto simp: code_def)
  have uc: "33 \<le> code c \<and> c \<noteq> CHR ''#''" if "c \<in> set ?url" for c
    using that pc qc by (auto simp: code_def)
  then have "filter (\<lambda>c. code c \<notin> {9, 10, 13}) ?url = ?url" by (intro filter_True) fastforce
  moreover have "dropWhile (\<lambda>c. code c \<le> 32) ?url = ?url" using p by (simp add: code_def)
  ultimately have clean: "clean_url ?url = ?url" by (simp only: clean_url_def)
  have scheme: "split_scheme ?url = ([], ?url)"
    using p by (auto simp: split_scheme_def partition_at_def is_letter_def code_def)
  have host: "\<not> has_prefix ''//'' ?url" using p by (cases p) (auto simp: has_prefix_iff)
  have "takeWhile (\<lambda>c. c \<noteq> CHR ''#'') ?url = ?url" unfolding takeWhile_eq_all_conv using uc by blast
  then have hash: "fst (partition_at (CHR ''#'') ?url) = ?url" by (simp add: partition_at_def)
  have "partition_at (CHR ''?'') ?url = (path, True, encode_query kvs)" using pc by (intro partition_join) auto
  moreover have "drop_params path = path" using pc by (intro drop_params_plain) auto
  ultimately show ?thesis
    using clean scheme host hash by (simp add: urlparse_def uses_params_def)
qed

end
