(* ===== verification/JsonText.thy ===== *)
theory JsonText
  imports Json PyText
begin

text \<open>
  The text of JSON documents as \<open>json.dump\<close> and \<open>json.dumps\<close> write it: separators, indentation and escapes are those of
  the call. The text of a float is a parameter (\<open>repr\<close> of Python).
\<close>

section \<open>Writing\<close>

text \<open>The keyword arguments \<open>indent\<close>, \<open>separators\<close> and \<open>ensure_ascii\<close>.\<close>

record json_style =
  style_indent :: "nat option"
  item_sep :: string
  key_sep :: string
  ascii_only :: bool

definition backslash :: char where
  "backslash = CHR 0x5C"

definition hex4 :: "nat \<Rightarrow> string" where
  "hex4 n = [hex_digit (n div 4096 mod 16), hex_digit (n div 256 mod 16), hex_digit (n div 16 mod 16), hex_digit (n mod 16)]"

definition escape_char :: "bool \<Rightarrow> char \<Rightarrow> string" where
  "escape_char ascii c =
     (let n = (of_char c :: nat) in
      if n = 34 \<or> n = 92 then [backslash, c]
      else if n = 10 then backslash # ''n''
      else if n = 13 then backslash # ''r''
      else if n = 9 then backslash # ''t''
      else if n = 12 then backslash # ''f''
      else if n = 8 then backslash # ''b''
      else if n < 32 \<or> ascii \<and> 126 < n then backslash # ''u'' @ hex4 n
      else [c])"

definition quote_text :: "bool \<Rightarrow> string \<Rightarrow> string" where
  "quote_text ascii s = CHR 0x22 # concat (map (escape_char ascii) s) @ [CHR 0x22]"

fun join_text :: "string \<Rightarrow> string list \<Rightarrow> string" where
  "join_text sep [] = []"
| "join_text sep [t] = t"
| "join_text sep (t # u # ts) = t @ sep @ join_text sep (u # ts)"

definition new_line :: "json_style \<Rightarrow> nat \<Rightarrow> string" where
  "new_line st level = (case style_indent st of None \<Rightarrow> [] | Some k \<Rightarrow> CHR 0x0A # replicate (k * level) (CHR '' ''))"

text \<open>\<open>separators=(',', ':')\<close> and \<open>ensure_ascii=False\<close>, and the encoding of the text as UTF-8.\<close>

definition compact_style :: json_style where
  "compact_style = \<lparr>style_indent = None, item_sep = '','', key_sep = '':'', ascii_only = False\<rparr>"

definition utf8 :: "string \<Rightarrow> string" where
  "utf8 s = concat (map (\<lambda>c. let n = (of_char c :: nat) in
     if n < 128 then [c] else [char_of (192 + n div 64), char_of (128 + n mod 64)]) s)"

fun dump_json :: "json_style \<Rightarrow> (rat \<Rightarrow> string) \<Rightarrow> nat \<Rightarrow> json \<Rightarrow> string" where
  "dump_json st float_text level JNull = ''null''"
| "dump_json st float_text level (JBool b) = (if b then ''true'' else ''false'')"
| "dump_json st float_text level (JInt i) = str_int i"
| "dump_json st float_text level (JFloat q) = float_text q"
| "dump_json st float_text level (JStr s) = quote_text (ascii_only st) s"
| "dump_json st float_text level (JArr vs) =
     (if vs = [] then ''[]''
      else ''['' @ new_line st (Suc level)
        @ join_text (item_sep st @ new_line st (Suc level)) (map (dump_json st float_text (Suc level)) vs)
        @ new_line st level @ '']'')"
| "dump_json st float_text level (JObj kvs) =
     (if kvs = [] then ''{}''
      else ''{'' @ new_line st (Suc level)
        @ join_text (item_sep st @ new_line st (Suc level))
            (map (\<lambda>(k, v). quote_text (ascii_only st) k @ key_sep st @ dump_json st float_text (Suc level) v) kvs)
        @ new_line st level @ ''}'')"

end
