(* ===== verification/VizHttp.thy ===== *)
theory VizHttp
  imports VizServer Url JsonText
begin

text \<open>
  \<open>VizHTTPHandler\<close>: the routing of \<open>do_GET\<close> with its checks and status codes, the page and the assets, the documents,
  headers and bodies of the answers, the preflight answer and the filter of the log. What an operation answers is a
  \<open>response\<close>; \<open>reply_of\<close> makes the message of it. \<open>mimetypes.guess_type\<close> is a parameter, as are the sentences of error
  messages, which are Chinese. A client that has closed its connection gets nothing, and the code does not mind.
\<close>

section \<open>Answers\<close>

text \<open>The error texts, by what they report; the code's are Chinese sentences naming the same cases.\<close>

datatype message =
    Missing_File
  | Missing_Id
  | Name_Message name_error
  | Read_Message
  | Map_Message map_error

datatype json_doc =
    Error_Doc message
  | Files_Doc "file_info list"
  | Client_Files_Doc string string "file_info list"
  | Frames_Doc string nat int int nat "json list"
  | Count_Doc string nat
  | Status_Doc server_status
  | File_Status_Doc file_status
  | Map_Doc json

text \<open>
  \<open>Raised\<close> is a request whose handler ends with an exception that nothing catches.
\<close>

datatype response =
    Json_Response nat json_doc
  | Body_Response nat "(string \<times> string) list" string
  | Error_Response nat string
  | Raised

text \<open>\<open>params.get(key, [None])[0]\<close>; \<open>parse_qs\<close> gives no empty lists.\<close>

definition first_param :: "query \<Rightarrow> string \<Rightarrow> string option" where
  "first_param params key = (case params key of None \<Rightarrow> None | Some [] \<Rightarrow> None | Some (v # _) \<Rightarrow> Some v)"

text \<open>\<open>not filename\<close>\<close>

definition missing :: "string option \<Rightarrow> bool" where
  "missing v \<longleftrightarrow> v = None \<or> v = Some []"

text \<open>Both numbers fall back together when one of them is no integer.\<close>

definition page_params :: "query \<Rightarrow> int \<times> int" where
  "page_params params =
     (let o_text = (case first_param params ''offset'' of None \<Rightarrow> ''0'' | Some t \<Rightarrow> t);
          l_text = (case first_param params ''limit'' of None \<Rightarrow> ''200'' | Some t \<Rightarrow> t) in
      case (parse_int o_text, parse_int l_text) of
        (Some off, Some lmt) \<Rightarrow> (off, min lmt 2000)
      | _ \<Rightarrow> (0, min 200 2000))"

record http_env =
  server_env :: server_env
  guess_type :: "string \<Rightarrow> string option"
  file_bytes :: "string \<Rightarrow> string option"
  web_dir :: string
  netloc_ok :: "string \<Rightarrow> bool"
  decode :: "string \<Rightarrow> string"

text \<open>The page: missing gives 404; a page that exists but cannot be read gives no answer.\<close>

definition serve_html :: "http_env \<Rightarrow> response option" where
  "serve_html env =
     (let path = path_join (web_dir env) ''maze_viz.html'' in
      if node_at (server_env env) path = None then Some (Error_Response 404 ''maze_viz.html not found'')
      else case file_bytes env path of
          None \<Rightarrow> None
        | Some content \<Rightarrow> Some (Body_Response 200
            [(''Content-Type'', ''text/html; charset=utf-8''), (''Content-Length'', str_nat (length content))] content))"

definition asset_type :: "http_env \<Rightarrow> string \<Rightarrow> string" where
  "asset_type env path =
     (let t = (case guess_type env path of None \<Rightarrow> ''application/octet-stream'' | Some t \<Rightarrow> t) in
      if has_prefix ''text/'' t \<or> t = ''application/javascript'' then t @ ''; charset=utf-8'' else t)"

definition serve_asset :: "http_env \<Rightarrow> string \<Rightarrow> response" where
  "serve_asset env asset_name =
     (if asset_name = [] \<or> bad_name asset_name then Error_Response 404 ''Not Found''
      else let path = path_join (web_dir env) asset_name in
        case file_bytes env path of
          None \<Rightarrow> Error_Response 404 ''Not Found''
        | Some content \<Rightarrow> Body_Response 200
            [(''Content-Type'', asset_type env path), (''Cache-Control'', ''no-store''),
             (''Content-Length'', str_nat (length content))] content)"

text \<open>The branch of the frames requests.\<close>

definition get_frames :: "(string \<Rightarrow> json option) \<Rightarrow> server_env \<Rightarrow> query \<Rightarrow> viz_server \<Rightarrow> response \<times> viz_server" where
  "get_frames loads env params s =
     (if missing (first_param params ''file'') then (Json_Response 400 (Error_Doc Missing_File), s)
      else
        let filename = the (first_param params ''file''); (off, lmt) = page_params params in
        case load_frames_paged loads env filename off lmt s of
          (Frames_Name_Error e, s') \<Rightarrow> (Json_Response 404 (Error_Doc (Name_Message e)), s')
        | (Frames_Read_Error tot, s') \<Rightarrow> (Json_Response 404 (Error_Doc Read_Message), s')
        | (Frames frames tot, s') \<Rightarrow> (Json_Response 200 (Frames_Doc filename tot off lmt (length frames) frames), s'))"

definition get_count :: "server_env \<Rightarrow> query \<Rightarrow> viz_server \<Rightarrow> response \<times> viz_server" where
  "get_count env params s =
     (if missing (first_param params ''file'') then (Json_Response 400 (Error_Doc Missing_File), s)
      else
        let filename = the (first_param params ''file'') in
        case get_frame_count env filename s of
          (Inl e, s') \<Rightarrow> (Json_Response 404 (Error_Doc (Name_Message e)), s')
        | (Inr n, s') \<Rightarrow> (Json_Response 200 (Count_Doc filename n), s'))"

definition get_status_of_file :: "(nat \<Rightarrow> string) \<Rightarrow> server_env \<Rightarrow> query \<Rightarrow> viz_server \<Rightarrow> response \<times> viz_server" where
  "get_status_of_file fmt_time env params s =
     (if missing (first_param params ''file'') then (Json_Response 400 (Error_Doc Missing_File), s)
      else case get_file_status fmt_time env (the (first_param params ''file'')) s of
          (Inl e, s') \<Rightarrow> (Json_Response 404 (Error_Doc (Name_Message e)), s')
        | (Inr st, s') \<Rightarrow> (Json_Response 200 (File_Status_Doc st), s'))"

definition get_map :: "server_env \<Rightarrow> query \<Rightarrow> viz_server \<Rightarrow> response \<times> viz_server" where
  "get_map env params s =
     (if missing (first_param params ''id'') then (Json_Response 400 (Error_Doc Missing_Id), s)
      else case load_map env (the (first_param params ''id'')) s of
          (Inl e, s') \<Rightarrow> (Json_Response 404 (Error_Doc (Map_Message e)), s')
        | (Inr v, s') \<Rightarrow> (Json_Response 200 (Map_Doc v), s'))"

text \<open>The request for a path with its parameters. \<open>None\<close> in the first component: nothing is sent.\<close>

definition route ::
    "(string \<Rightarrow> json option) \<Rightarrow> (nat \<Rightarrow> string) \<Rightarrow> http_env \<Rightarrow> string \<Rightarrow> query \<Rightarrow> viz_server \<Rightarrow> response option \<times> viz_server" where
  "route loads fmt_time env path params s =
     (let senv = server_env env; send = (\<lambda>(r, s'). (Some r, s')) in
      if path = ''/'' \<or> path = ''/index.html'' then (serve_html env, s)
      else if has_prefix ''/assets/'' path then (Some (serve_asset env (drop (length ''/assets/'') path)), s)
      else if path = ''/api/files'' \<or> path = ''/api/client/files''
      then (case list_files loads fmt_time senv s of
              (None, s') \<Rightarrow> (Some Raised, s')
            | (Some infos, s') \<Rightarrow>
                if path = ''/api/files'' then (Some (Json_Response 200 (Files_Doc infos)), s')
                else (Some (Json_Response 200 (Client_Files_Doc (mode s') (validation_id s') infos)), s'))
      else if path = ''/api/frames'' \<or> path = ''/api/client/frames'' then send (get_frames loads senv params s)
      else if path = ''/api/frame_count'' then send (get_count senv params s)
      else if path = ''/api/file_status'' then send (get_status_of_file fmt_time senv params s)
      else if path = ''/api/map'' \<or> path = ''/api/client/map'' then send (get_map senv params s)
      else if path = ''/api/status'' \<or> path = ''/api/client/status''
      then (case get_status loads fmt_time senv s of
              (None, s') \<Rightarrow> (Some Raised, s')
            | (Some st, s') \<Rightarrow> (Some (Json_Response 200 (Status_Doc st)), s'))
      else (Some (Error_Response 404 ''Not Found''), s))"

text \<open>\<open>do_GET\<close> on the path of the request line.\<close>

definition do_GET ::
    "(string \<Rightarrow> json option) \<Rightarrow> (nat \<Rightarrow> string) \<Rightarrow> http_env \<Rightarrow> string \<Rightarrow> viz_server \<Rightarrow> response option \<times> viz_server" where
  "do_GET loads fmt_time env raw s =
     (case urlparse (netloc_ok env) raw of
        None \<Rightarrow> (Some Raised, s)
      | Some (path, query) \<Rightarrow> route loads fmt_time env path (parse_qs (decode env) query) s)"

definition do_OPTIONS :: "nat \<times> (string \<times> string) list" where
  "do_OPTIONS = (200,
     [(''Access-Control-Allow-Origin'', ''*''),
      (''Access-Control-Allow-Methods'', ''GET, OPTIONS''),
      (''Access-Control-Allow-Headers'', ''Content-Type''),
      (''Content-Length'', ''0'')])"

section \<open>Sizes\<close>

lemma read_frames_length:
  assumes "read_frames loads content offsets a b = Some frames"
  shows "length frames \<le> nat (b - a)"
proof -
  let ?body = "\<lambda>i frames. do {
       pos \<leftarrow> lget offsets i;
       let line = line_text (drop pos content);
       Some (if line = [] then frames
             else case loads line of None \<Rightarrow> frames | Some frame \<Rightarrow> frames @ [frame])
     }"
  have "length s' \<le> length s + length xs" if "for_each xs ?body s = Some s'" for xs s s'
    using that
  proof (induction xs arbitrary: s)
    case Nil
    then show ?case by simp
  next
    case (Cons x xs)
    then obtain s1 where 1: "?body x s = Some s1" "for_each xs ?body s1 = Some s'"
      by (auto simp: bind_eq_Some_conv)
    then have "length s1 \<le> Suc (length s)"
      by (auto simp: bind_eq_Some_conv Let_def split: option.splits if_splits)
    with Cons.IH [OF 1(2)] show ?case by simp
  qed
  from this [of "py_range a b" "[]" frames] assms show ?thesis by (simp add: read_frames_def)
qed

lemma page_params_limit: "snd (page_params params) \<le> 2000"
  by (simp add: page_params_def Let_def split: option.splits)

lemma load_frames_length:
  assumes "load_frames_paged loads env filename off lmt s = (Frames frames tot, s')"
  shows "int (length frames) \<le> max 0 lmt"
proof (cases "frames = []")
  case False
  then obtain content offsets where "read_frames loads content offsets off (min (off + lmt) (int tot)) = Some frames"
    using assms by (auto simp: load_frames_paged_def Let_def split: sum.splits prod.splits option.splits if_splits)
  from read_frames_length [OF this] show ?thesis by auto
qed simp

section \<open>Properties\<close>

definition sample_http :: http_env where
  "sample_http = \<lparr>server_env = sample_env, guess_type = (\<lambda>_. None), file_bytes = [''/w/a.js'' \<mapsto> ''x''], web_dir = ''/w'',
     netloc_ok = (\<lambda>_. True), decode = (\<lambda>s. s)\<rparr>"

lemma sample_page: "fst (load_frames_paged (\<lambda>t. Some (JStr t)) sample_env ''f.jsonl'' 1 2000 sample_server) = Frames [JStr ''22''] 2"
  by code_simp

lemma do_GET_route:
  assumes "do_GET loads fmt_time env raw s = (Some r, s')" and "r \<noteq> Raised"
  obtains path query where "urlparse (netloc_ok env) raw = Some (path, query)"
    "route loads fmt_time env path (parse_qs (decode env) query) s = (Some r, s')"
  using assms by (auto simp: do_GET_def split: option.splits)






text \<open>C40: A page answered over HTTP never holds more frames than the limit it reports, and that limit is never above
  2000, whatever numbers the query asks for.\<close>

theorem frames_response_bounded:
  assumes "do_GET loads fmt_time env raw s = (Some (Json_Response 200 (Frames_Doc filename tot off lmt cnt frames)), s')"
  shows "lmt \<le> 2000 \<and> cnt = length frames \<and> int cnt \<le> max 0 lmt"
proof -
  obtain path query where "route loads fmt_time env path (parse_qs (decode env) query) s =
      (Some (Json_Response 200 (Frames_Doc filename tot off lmt cnt frames)), s')"
    using do_GET_route [OF assms] by blast
  then have "get_frames loads (server_env env) (parse_qs (decode env) query) s =
      (Json_Response 200 (Frames_Doc filename tot off lmt cnt frames), s')"
    by (auto simp: route_def Let_def get_count_def get_status_of_file_def get_map_def serve_html_def serve_asset_def
        split: if_splits prod.splits option.splits sum.splits)
  then have "snd (page_params (parse_qs (decode env) query)) = lmt" "cnt = length frames"
    "load_frames_paged loads (server_env env) filename off lmt s = (Frames frames tot, s')"
    by (auto simp: get_frames_def Let_def split: if_splits prod.splits frames_result.splits)
  with page_params_limit [of "parse_qs (decode env) query"] load_frames_length show ?thesis by blast
qed

theorem frames_response_bounded_witness:
  "(let frames = [JStr ''22''] in
    fst (do_GET (\<lambda>t. Some (JStr t)) (\<lambda>_. []) sample_http ''/api/frames?limit=9999&offset=1&file=f.jsonl'' sample_server) =
      Some (Json_Response 200 (Frames_Doc ''f.jsonl'' 2 1 2000 (length frames) frames)) \<and>
    int (length frames) \<le> max 0 2000)"
proof -
  let ?raw = "''/api/frames?limit=9999&offset=1&file=f.jsonl''" and ?query = "''limit=9999&offset=1&file=f.jsonl''"
  have url: "urlparse (netloc_ok sample_http) ?raw = Some (''/api/frames'', ?query)"
    unfolding sample_http_def by code_simp
  have "page_params (parse_qs (\<lambda>s. s) ?query) = (1, 2000)" "first_param (parse_qs (\<lambda>s. s) ?query) ''file'' = Some ''f.jsonl''"
    by code_simp+
  then obtain s' where run: "do_GET (\<lambda>t. Some (JStr t)) (\<lambda>_. []) sample_http ?raw sample_server =
      (Some (Json_Response 200 (Frames_Doc ''f.jsonl'' 2 1 2000 1 [JStr ''22''])), s')"
    using sample_page url
    by (cases "load_frames_paged (\<lambda>t. Some (JStr t)) sample_env ''f.jsonl'' 1 2000 sample_server")
      (auto simp: do_GET_def route_def get_frames_def missing_def Let_def sample_http_def)
  from frames_response_bounded [OF run] run show ?thesis by (simp add: Let_def)
qed

text \<open>An asset is served only from directly below the web directory; any other name is answered with 404.\<close>

theorem asset_stays_inside:
  assumes "route loads fmt_time env (''/assets/'' @ asset_name) params s = (Some (Body_Response c hs content), s')"
    and "web_dir env \<noteq> []"
  shows "c = 200 \<and> s' = s \<and> file_bytes env (path_join (web_dir env) asset_name) = Some content \<and>
    path_comps (path_join (web_dir env) asset_name) = path_comps (web_dir env) @ (if asset_name = ''.'' then [] else [asset_name])"
proof -
  have run: "route loads fmt_time env (''/assets/'' @ asset_name) params s = (Some (serve_asset env asset_name), s)"
    by (simp add: route_def Let_def)
  have asset: "serve_asset env asset_name = Body_Response c hs content" "s' = s"
    using assms(1) unfolding run by simp_all
  then have ok: "asset_name \<noteq> []" "\<not> bad_name asset_name" "c = 200"
    "file_bytes env (path_join (web_dir env) asset_name) = Some content"
    by (auto simp: serve_asset_def Let_def split: if_splits option.splits)
  then have "slash \<notin> set asset_name" "asset_name \<noteq> ''..''" by (auto simp: bad_name_def)
  with path_comps_join [OF assms(2)] ok asset(2) show ?thesis by simp
qed

theorem asset_stays_inside_witness:
  "fst (route (\<lambda>_. None) (\<lambda>_. []) sample_http ''/assets/a.js'' Map.empty sample_server) =
    Some (Body_Response 200 [(''Content-Type'', ''application/octet-stream''), (''Cache-Control'', ''no-store''), (''Content-Length'', ''1'')] ''x'') \<and>
    path_comps (path_join ''/w'' ''a.js'') = path_comps ''/w'' @ [''a.js'']"
proof -
  let ?hs = "[(''Content-Type'', ''application/octet-stream''), (''Cache-Control'', ''no-store''), (''Content-Length'', ''1'')]"
  have "str_nat 1 = ''1''" by code_simp
  then have run: "route (\<lambda>_. None) (\<lambda>_. []) sample_http (''/assets/'' @ ''a.js'') Map.empty sample_server =
      (Some (Body_Response 200 ?hs ''x''), sample_server)"
    by (simp add: route_def Let_def serve_asset_def asset_type_def sample_http_def bad_name_def path_join_def slash_def)
  have "web_dir sample_http = ''/w''" by (simp add: sample_http_def)
  with asset_stays_inside [OF run] run show ?thesis by simp
qed

end
