(* ===== verification/VizReply.thy ===== *)
theory VizReply
  imports VizHttp
begin

text \<open>
  The messages the handler sends and what it prints: the documents with their keys, the headers, and the filter of
  \<open>log_message\<close>. The standard library adds the status line, two headers of its own and the page of an error.
\<close>

section \<open>Documents\<close>

text \<open>Times are seconds in the documents.\<close>

definition seconds :: "nat \<Rightarrow> rat" where
  "seconds t = of_nat t / of_nat second"

definition info_json :: "file_info \<Rightarrow> json" where
  "info_json i = JObj
     [(''name'', JStr (info_name i)), (''match_id'', JStr (match_id i)), (''episode_id'', episode_id i),
      (''map_id'', info_map_id i), (''frame_count'', JInt (int (frame_count i))), (''size_bytes'', JInt (int (size_bytes i))),
      (''modified_ts'', JFloat (seconds (modified_ts i))), (''size_kb'', JFloat (size_kb i)),
      (''modified'', JStr (modified i)), (''is_growing'', JBool (is_growing i))]"

definition status_json :: "server_status \<Rightarrow> json" where
  "status_json st = JObj
     [(''schema_version'', JInt 1), (''mode'', JStr (st_mode st)), (''validation_id'', JStr (st_validation_id st)),
      (''source'', JStr ''client-replay''), (''model'', st_model st), (''parameters'', st_parameters st),
      (''client_result'', st_client_result st), (''replay_dir'', JStr (st_replay_dir st)),
      (''file_count'', JInt (int (st_file_count st))), (''cached_files'', JInt (int (st_cached_files st))),
      (''cached_maps'', JInt (int (st_cached_maps st)))]"

definition file_status_json :: "file_status \<Rightarrow> json" where
  "file_status_json st = JObj
     [(''file'', JStr (status_file st)), (''total_lines'', JInt (int (total_lines st))),
      (''size_bytes'', JInt (int (status_size st))), (''is_growing'', JBool (status_growing st)),
      (''last_modified'', JStr (last_modified st))]"

text \<open>\<open>wording\<close> is the sentence of an error.\<close>

definition doc_json :: "(message \<Rightarrow> string) \<Rightarrow> json_doc \<Rightarrow> json" where
  "doc_json wording d =
     (case d of
        Error_Doc m \<Rightarrow> JObj [(''error'', JStr (wording m))]
      | Files_Doc infos \<Rightarrow> JArr (map info_json infos)
      | Client_Files_Doc md v_id infos \<Rightarrow> JObj
          [(''schema_version'', JInt 1), (''mode'', JStr md), (''validation_id'', JStr v_id),
           (''source'', JStr ''client-replay''), (''files'', JArr (map info_json infos))]
      | Frames_Doc filename tot off lmt cnt frames \<Rightarrow> JObj
          [(''file'', JStr filename), (''total_frames'', JInt (int tot)), (''offset'', JInt off), (''limit'', JInt lmt),
           (''count'', JInt (int cnt)), (''frames'', JArr frames)]
      | Count_Doc filename tot \<Rightarrow> JObj [(''file'', JStr filename), (''total_frames'', JInt (int tot))]
      | Status_Doc st \<Rightarrow> status_json st
      | File_Status_Doc st \<Rightarrow> file_status_json st
      | Map_Doc v \<Rightarrow> v)"

section \<open>Messages\<close>

datatype reply = Reply nat "(string \<times> string) list" string | Error_Page nat string | Connection_Error

text \<open>\<open>_json_response\<close>\<close>

definition json_response :: "(message \<Rightarrow> string) \<Rightarrow> (rat \<Rightarrow> string) \<Rightarrow> json_doc \<Rightarrow> nat \<Rightarrow> reply" where
  "json_response wording float_text d status =
     (let body_bytes = utf8 (dump_json compact_style float_text 0 (doc_json wording d)) in
      Reply status
        [(''Content-Type'', ''application/json; charset=utf-8''), (''Access-Control-Allow-Origin'', ''*''),
         (''Content-Length'', str_nat (length body_bytes))] body_bytes)"

definition reply_of :: "(message \<Rightarrow> string) \<Rightarrow> (rat \<Rightarrow> string) \<Rightarrow> response \<Rightarrow> reply" where
  "reply_of wording float_text r =
     (case r of
        Json_Response status d \<Rightarrow> json_response wording float_text d status
      | Body_Response status headers content \<Rightarrow> Reply status headers content
      | Error_Response status m \<Rightarrow> Error_Page status m
      | Raised \<Rightarrow> Connection_Error)"

section \<open>The log\<close>

text \<open>\<open>repr\<close> of a text and \<open>str\<close> of a tuple of such.\<close>

definition repr_char :: "char \<Rightarrow> char \<Rightarrow> string" where
  "repr_char q c =
     (let n = code c in
      if c = q \<or> c = backslash then [backslash, c]
      else if n = 9 then backslash # ''t''
      else if n = 10 then backslash # ''n''
      else if n = 13 then backslash # ''r''
      else if n < 32 \<or> 127 \<le> n \<and> n < 161 \<or> n = 173 then backslash # ''x'' @ [hex_digit (n div 16), hex_digit (n mod 16)]
      else [c])"

definition py_repr :: "string \<Rightarrow> string" where
  "py_repr s =
     (let q = (if CHR 0x27 \<in> set s \<and> CHR 0x22 \<notin> set s then CHR 0x22 else CHR 0x27) in
      [q] @ concat (map (repr_char q) s) @ [q])"

definition tuple_text :: "string list \<Rightarrow> string" where
  "tuple_text ts = ''('' @ join_text '', '' ts @ '')''"

text \<open>\<open>log_message\<close>: a line is printed unless its arguments hold the text \<open>200\<close>.\<close>

definition log_message :: "string list \<Rightarrow> string list list" where
  "log_message args = (if has_substring ''200'' (tuple_text args) then [] else [args])"

text \<open>\<open>send_response\<close> logs the request line and the status; \<open>send_error\<close> logs the status and its message before that.\<close>

definition log_request :: "string \<Rightarrow> nat \<Rightarrow> string list list" where
  "log_request request_line status = log_message [py_repr request_line, py_repr (str_nat status), py_repr ''-'']"

definition log_lines :: "string \<Rightarrow> reply \<Rightarrow> string list list" where
  "log_lines request_line r =
     (case r of
        Reply status headers content \<Rightarrow> log_request request_line status
      | Error_Page status m \<Rightarrow> log_message [str_nat status, py_repr m] @ log_request request_line status
      | Connection_Error \<Rightarrow> [])"

section \<open>Lemmas\<close>

text \<open>A pattern without a certain character occurs left or right of that character.\<close>

lemma has_prefix_sep: "c \<notin> set p \<Longrightarrow> has_prefix p (a @ c # b) \<longleftrightarrow> has_prefix p a"
proof (induction p a rule: has_prefix.induct)
  case (2 d p)
  then show ?case by auto
qed simp_all

lemma has_substring_sep:
  assumes "c \<notin> set p" and "p \<noteq> []"
  shows "has_substring p (a @ c # b) \<longleftrightarrow> has_substring p a \<or> has_substring p b"
proof (induction a)
  case Nil
  then show ?case using assms has_prefix_sep [OF assms(1), of "[]" b] by (cases p) auto
next
  case (Cons x a)
  then show ?case using has_prefix_sep [OF assms(1), of "x # a" b] by auto
qed

text \<open>A request line of printable characters without quotes and backslashes is printed as it is.\<close>

definition plain_line :: "string \<Rightarrow> bool" where
  "plain_line s \<longleftrightarrow> list_all (\<lambda>c. 32 \<le> code c \<and> code c < 127 \<and> c \<noteq> CHR 0x27 \<and> c \<noteq> backslash) s"

lemma py_repr_plain: "plain_line s \<Longrightarrow> py_repr s = CHR 0x27 # s @ [CHR 0x27]"
proof -
  assume plain: "plain_line s"
  then have "CHR 0x27 \<notin> set s" by (auto simp: plain_line_def list_all_iff)
  moreover have "concat (map (repr_char (CHR 0x27)) s) = s"
    using plain by (induction s) (auto simp: plain_line_def repr_char_def Let_def)
  ultimately show ?thesis by (simp add: py_repr_def Let_def)
qed

lemma log_request_plain:
  assumes "plain_line line" and "status \<in> {200, 400, 404}"
  shows "log_request line status = [] \<longleftrightarrow> has_substring ''200'' line \<or> status = 200"
proof -
  let ?q = "CHR 0x27"
  have st: "str_nat 200 = ''200''" "str_nat 400 = ''400''" "str_nat 404 = ''404''" by code_simp+
  then have plain: "plain_line (str_nat status)" using assms(2) by (auto simp: plain_line_def code_def backslash_def)
  have "has_substring ''200'' (tuple_text [py_repr line, py_repr (str_nat status), py_repr ''-'']) \<longleftrightarrow>
      has_substring ''200'' (''('' @ ?q # line @ ?q # '', '' @ ?q # str_nat status @ ?q # '', '' @ py_repr ''-'' @ '')'')"
    by (simp only: tuple_text_def join_text.simps py_repr_plain [OF assms(1)] py_repr_plain [OF plain] append_assoc append_Cons append_Nil)
  also have "\<dots> \<longleftrightarrow> has_substring ''200'' ''('' \<or> has_substring ''200'' line \<or> has_substring ''200'' '', '' \<or>
      has_substring ''200'' (str_nat status) \<or> has_substring ''200'' ('', '' @ py_repr ''-'' @ '')'')"
    by (subst has_substring_sep, simp, simp)+ (rule refl)
  also have "\<dots> \<longleftrightarrow> has_substring ''200'' line \<or> has_substring ''200'' (str_nat status)"
    by (simp add: py_repr_def repr_char_def code_def backslash_def Let_def)
  also have "has_substring ''200'' (str_nat status) \<longleftrightarrow> status = 200"
    using assms(2) st by auto
  finally show ?thesis by (simp add: log_request_def log_message_def)
qed

section \<open>Properties\<close>

text \<open>A JSON answer is left out of the log exactly when its status is 200 or the request line holds the digits 200
  anywhere; so a refused request for a page of 200 frames, the size the replay page asks for, is never printed.\<close>

theorem log_hides_errors:
  assumes "plain_line line" and "status \<in> {200, 400, 404}"
  shows "log_lines line (reply_of wording float_text (Json_Response status d)) = [] \<longleftrightarrow>
    status = 200 \<or> has_substring ''200'' line"
  using log_request_plain [OF assms] by (auto simp: log_lines_def reply_of_def json_response_def Let_def)

theorem log_hides_errors_witness:
  "log_lines ''GET /api/frames?file=gone.jsonl&offset=0&limit=200 HTTP/1.1''
      (reply_of (\<lambda>_. []) (\<lambda>_. []) (Json_Response 404 (Error_Doc (Name_Message Not_Found)))) = [] \<and>
   log_lines ''GET /api/map?id=gone HTTP/1.1''
      (reply_of (\<lambda>_. []) (\<lambda>_. []) (Json_Response 404 (Error_Doc (Map_Message Map_Not_Found)))) \<noteq> []"
proof -
  let ?a = "''GET /api/frames?file=gone.jsonl&offset=0&limit=200 HTTP/1.1''" and ?b = "''GET /api/map?id=gone HTTP/1.1''"
  have "plain_line ?a" "plain_line ?b" "has_substring ''200'' ?a" "\<not> has_substring ''200'' ?b" by code_simp+
  then show ?thesis
    using log_hides_errors [of ?a 404 "\<lambda>_. []" "\<lambda>_. []" "Error_Doc (Name_Message Not_Found)"]
      log_hides_errors [of ?b 404 "\<lambda>_. []" "\<lambda>_. []" "Error_Doc (Map_Message Map_Not_Found)"] by simp
qed

end
