(* ===== verification/VizSession.thy ===== *)
theory VizSession
  imports VizReply
begin

text \<open>
  A session of the replay server: the requests it answers one after the other, each in a file system of its own. What
  every request keeps of the server's state, and what the caches mean for the answers of a session.
\<close>

section \<open>The loop\<close>

text \<open>\<open>serve_forever\<close> on the requests that come in, with what each of them finds; \<open>web\<close> is the directory of the page.\<close>

primrec serve ::
    "(string \<Rightarrow> json option) \<Rightarrow> (nat \<Rightarrow> string) \<Rightarrow> string \<Rightarrow> (http_env \<times> string) list \<Rightarrow> viz_server \<Rightarrow>
      response option list \<times> viz_server" where
  "serve loads fmt_time web [] s = ([], s)"
| "serve loads fmt_time web (q # qs) s =
     (let (r, s') = do_GET loads fmt_time ((fst q)\<lparr>web_dir := web\<rparr>) (snd q) s;
          (rs, s'') = serve loads fmt_time web qs s'
      in (r # rs, s''))"

section \<open>The type of the state\<close>

text \<open>Names in the caches are names of files directly in their directory; the cached list is sorted, newest first.\<close>

definition listing_ok :: "file_info list \<Rightarrow> bool" where
  "listing_ok infos \<longleftrightarrow> sorted_wrt (\<lambda>a b. modified_ts b \<le> modified_ts a) infos \<and>
     (\<forall>i \<in> set infos. slash \<notin> set (info_name i) \<and> match_id i = splitext_root (info_name i))"

definition server_ok :: "viz_server \<Rightarrow> bool" where
  "server_ok s \<longleftrightarrow> is_absolute (replay_dir s) \<and> normpath (replay_dir s) = replay_dir s \<and>
     (\<forall>name \<in> dom (index_cache s). slash \<notin> set name) \<and> (\<forall>m_id \<in> dom (map_cache s). \<not> bad_name m_id) \<and>
     (case file_list_cache s of None \<Rightarrow> True | Some infos \<Rightarrow> listing_ok infos)"

text \<open>\<open>glob\<close> gives names of one directory.\<close>

definition glob_ok :: "server_env \<Rightarrow> bool" where
  "glob_ok env \<longleftrightarrow> (\<forall>n \<in> set (jsonl_names env). slash \<notin> set n)"

lemma build_index_dom: "dom (snd (build_line_index filename view cache)) \<subseteq> insert filename (dom cache)"
  by (auto simp: build_line_index_def Let_def split: option.splits if_splits)

lemma server_index_parts [simp]:
  "file_list_cache (snd (server_index env filename path s)) = file_list_cache s"
  by (simp add: server_index_def case_prod_beta)

lemma server_index_dom: "dom (index_cache (snd (server_index env filename path s))) \<subseteq> insert filename (dom (index_cache s))"
  using build_index_dom [of filename "view_at env path" "index_cache s"] by (simp add: server_index_def case_prod_beta)

lemma server_index_ok: "server_ok s \<Longrightarrow> slash \<notin> set filename \<Longrightarrow> server_ok (snd (server_index env filename path s))"
  using server_index_dom [of env filename path s] by (auto simp: server_ok_def)

text \<open>Every operation either leaves the state alone or updates the index of one file.\<close>

lemma list_one_state:
  "list_one loads fmt_time env name result s = (r, s') \<Longrightarrow> s' = s \<or> s' = snd (server_index env name (path_join (replay_dir s) name) s)"
  by (auto simp: list_one_def Let_def case_prod_beta split: option.splits json.splits if_splits)

lemma list_one_entry:
  "list_one loads fmt_time env name result s = (Some result', s') \<Longrightarrow>
    result' = result \<or> (\<exists>i. result' = result @ [i] \<and> info_name i = name \<and> match_id i = splitext_root name)"
  by (auto simp: list_one_def Let_def case_prod_beta make_info_def split: option.splits json.splits if_splits)

lemma list_loop_ok:
  assumes "list_loop loads fmt_time env names result s = (r, s')" and "server_ok s" and "\<forall>n \<in> set names. slash \<notin> set n"
  shows "server_ok s' \<and> map_cache s' = map_cache s"
  using assms
proof (induction names arbitrary: result s)
  case (Cons name names)
  obtain r1 s1 where one: "list_one loads fmt_time env name result s = (r1, s1)"
    by (cases "list_one loads fmt_time env name result s")
  have "server_ok s1 \<and> map_cache s1 = map_cache s"
    using list_one_state [OF one] Cons.prems server_index_ok by auto
  with Cons one show ?case by (auto split: option.splits)
qed simp

lemma list_loop_entries:
  assumes "list_loop loads fmt_time env names result s = (Some result', s')"
  shows "\<forall>i \<in> set result'. i \<in> set result \<or> info_name i \<in> set names \<and> match_id i = splitext_root (info_name i)"
  using assms
proof (induction names arbitrary: result s)
  case (Cons name names)
  then obtain r1 s1 where 1: "list_one loads fmt_time env name result s = (Some r1, s1)"
    "list_loop loads fmt_time env names r1 s1 = (Some result', s')"
    by (auto split: prod.splits option.splits)
  from Cons.IH [OF 1(2)] list_one_entry [OF 1(1)] show ?case by auto
qed simp

lemma list_files_ok:
  assumes "list_files loads fmt_time env s = (r, s')" and "server_ok s" and "glob_ok env"
  shows "server_ok s' \<and> map_cache s' = map_cache s"
proof (cases "s' = s")
  case False
  with assms(1) have fresh: "fresh_list loads fmt_time env s = (r, s')"
    by (auto simp: list_files_def split: option.splits if_splits)
  then obtain names where names: "sorted_names env s = Some names"
    using False by (auto simp: fresh_list_def split: option.splits)
  obtain r1 s1 where loop: "list_loop loads fmt_time env names [] s = (r1, s1)"
    by (cases "list_loop loads fmt_time env names [] s")
  have plain: "\<forall>n \<in> set names. slash \<notin> set n"
    using sorted_names_newest(1) [OF names] assms(3) by (simp add: glob_ok_def)
  note ok = list_loop_ok [OF loop assms(2) plain]
  show ?thesis
  proof (cases r1)
    case None
    with fresh names loop ok show ?thesis by (simp add: fresh_list_def)
  next
    case (Some infos)
    have "sorted_wrt (\<lambda>a b. modified_ts b \<le> modified_ts a) infos"
      using list_loop_newest [OF loop [unfolded Some] sorted_names_newest(2) [OF names]] by simp
    then have "listing_ok infos"
      using list_loop_entries [OF loop [unfolded Some]] plain by (auto simp: listing_ok_def)
    with Some fresh names loop ok show ?thesis by (auto simp: fresh_list_def server_ok_def)
  qed
qed (use assms in simp)

lemma list_loop_dir: "list_loop loads fmt_time env names result s = (r, s') \<Longrightarrow> replay_dir s' = replay_dir s"
proof (induction names arbitrary: result s)
  case (Cons name names)
  obtain r1 s1 where one: "list_one loads fmt_time env name result s = (r1, s1)"
    by (cases "list_one loads fmt_time env name result s")
  then have "replay_dir s1 = replay_dir s" using list_one_state [OF one] by auto
  with Cons one show ?case by (auto split: option.splits)
qed simp

lemma list_files_dir: "list_files loads fmt_time env s = (r, s') \<Longrightarrow> replay_dir s' = replay_dir s"
  by (auto simp: list_files_def fresh_list_def dest: list_loop_dir split: option.splits prod.splits if_splits)

text \<open>The requests about one file.\<close>

lemma validated_plain: "validate_filename env s filename = Inr path \<Longrightarrow> slash \<notin> set filename"
  by (auto simp: validate_filename_def bad_name_def Let_def split: if_splits)

definition indexed :: "viz_server \<Rightarrow> viz_server \<Rightarrow> bool" where
  "indexed s s' \<longleftrightarrow> s' = s \<or> (\<exists>env filename path. slash \<notin> set filename \<and> s' = snd (server_index env filename path s))"

lemma indexed_ok: "indexed s s' \<Longrightarrow> server_ok s \<Longrightarrow> server_ok s' \<and> map_cache s' = map_cache s"
  using server_index_ok by (auto simp: indexed_def)

lemma file_requests_index:
  "indexed s (snd (get_frame_count env filename s))"
  "indexed s (snd (load_frames_paged loads env filename offset limit s))"
  "indexed s (snd (get_file_status fmt_time env filename s))"
proof -
  show "indexed s (snd (get_frame_count env filename s))"
    using validated_plain by (fastforce simp: get_frame_count_def indexed_def case_prod_beta Let_def split: sum.splits)
  show "indexed s (snd (load_frames_paged loads env filename offset limit s))"
    using validated_plain
    by (fastforce simp: load_frames_paged_def indexed_def case_prod_beta Let_def split: sum.splits option.splits)
  show "indexed s (snd (get_file_status fmt_time env filename s))"
    using validated_plain
    by (fastforce simp: get_file_status_def indexed_def case_prod_beta Let_def split: sum.splits option.splits)
qed

lemma load_map_ok:
  assumes "server_ok s"
  shows "server_ok (snd (load_map env m_id s)) \<and> map_cache s \<subseteq>\<^sub>m map_cache (snd (load_map env m_id s))"
  using assms by (auto simp: load_map_def server_ok_def map_le_def Let_def split: option.splits sum.splits)

lemma load_map_found:
  "load_map env m_id s = (Inr v, s') \<Longrightarrow> \<not> bad_name m_id \<and> map_cache s' m_id = Some v"
  by (auto simp: load_map_def Let_def split: option.splits sum.splits if_splits)

lemma load_map_cached: "\<not> bad_name m_id \<Longrightarrow> map_cache s m_id = Some v \<Longrightarrow> load_map env m_id s = (Inr v, s)"
  by (simp add: load_map_def)

text \<open>What a request may do to the state: keep it well-formed, and keep the maps it has loaded.\<close>

definition step_ok :: "viz_server \<Rightarrow> viz_server \<Rightarrow> bool" where
  "step_ok s s' \<longleftrightarrow> (server_ok s \<longrightarrow> server_ok s' \<and> map_cache s \<subseteq>\<^sub>m map_cache s')"

lemma step_ok_refl [simp]: "step_ok s s"
  by (simp add: step_ok_def map_le_def)

lemma step_ok_indexed: "indexed s s' \<Longrightarrow> step_ok s s'"
  using indexed_ok by (auto simp: step_ok_def map_le_def)

lemma step_ok_list: "glob_ok env \<Longrightarrow> list_files loads fmt_time env s = (r, s') \<Longrightarrow> step_ok s s'"
  using list_files_ok by (fastforce simp: step_ok_def map_le_def)

lemma step_ok_status: "glob_ok env \<Longrightarrow> get_status loads fmt_time env s = (r, s') \<Longrightarrow> step_ok s s'"
  using step_ok_list
  by (fastforce simp: get_status_def Let_def split: option.splits prod.splits json.splits)

lemma step_ok_frames: "step_ok s (snd (get_frames loads env params s))"
  using step_ok_indexed [OF file_requests_index(2)]
  by (simp add: get_frames_def case_prod_beta Let_def split: frames_result.splits)

lemma step_ok_count: "step_ok s (snd (get_count env params s))"
  using step_ok_indexed [OF file_requests_index(1)]
  by (simp add: get_count_def case_prod_beta Let_def split: sum.splits)

lemma step_ok_file_status: "step_ok s (snd (get_status_of_file fmt_time env params s))"
  using step_ok_indexed [OF file_requests_index(3)]
  by (simp add: get_status_of_file_def case_prod_beta Let_def split: sum.splits)

lemma step_ok_map: "step_ok s (snd (get_map env params s))"
  using load_map_ok
  by (simp add: get_map_def case_prod_beta Let_def step_ok_def split: sum.splits)

lemma step_ok_route:
  assumes "glob_ok (server_env env)"
  shows "step_ok s (snd (route loads fmt_time env path params s))"
proof -
  obtain r1 s1 where l: "list_files loads fmt_time (server_env env) s = (r1, s1)"
    by (cases "list_files loads fmt_time (server_env env) s")
  obtain r2 s2 where st: "get_status loads fmt_time (server_env env) s = (r2, s2)"
    by (cases "get_status loads fmt_time (server_env env) s")
  have "step_ok s s1" "step_ok s s2" using step_ok_list [OF assms l] step_ok_status [OF assms st] .
  then show ?thesis
    by (cases r1; cases r2)
      (simp_all add: route_def Let_def l st case_prod_beta step_ok_frames step_ok_count step_ok_file_status step_ok_map)
qed

lemma step_ok_GET:
  assumes "glob_ok (server_env env)"
  shows "step_ok s (snd (do_GET loads fmt_time env raw s))"
  using step_ok_route [OF assms] by (auto simp: do_GET_def split: option.splits)

lemma serve_step_ok:
  assumes "\<forall>q \<in> set qs. glob_ok (server_env (fst q))"
  shows "step_ok s (snd (serve loads fmt_time web qs s))"
  using assms
proof (induction qs arbitrary: s)
  case (Cons q qs)
  let ?s1 = "snd (do_GET loads fmt_time ((fst q)\<lparr>web_dir := web\<rparr>) (snd q) s)"
  have "step_ok s ?s1" using Cons.prems by (intro step_ok_GET) simp
  moreover have "step_ok ?s1 (snd (serve loads fmt_time web qs ?s1))" using Cons by simp
  ultimately have "step_ok s (snd (serve loads fmt_time web qs ?s1))"
    unfolding step_ok_def using map_le_trans by blast
  then show ?case by (simp add: case_prod_beta Let_def)
qed simp

section \<open>Properties\<close>

lemma init_ok: "is_absolute here \<Longrightarrow> server_ok (viz_server_init here dir v_id md)"
  using abspath_absolute [of here dir] by (simp add: server_ok_def viz_server_init_def)

text \<open>C26: The state of the server is well-formed from its start on and through every session: an absolute, normalised
  directory, caches whose names cannot leave their directory, and a cached list that is sorted.\<close>

theorem session_keeps_server_ok:
  assumes "is_absolute here" and "\<forall>q \<in> set qs. glob_ok (server_env (fst q))"
  shows "server_ok (snd (serve loads fmt_time web qs (viz_server_init here dir v_id md)))"
  using serve_step_ok [OF assms(2)] init_ok [OF assms(1)] unfolding step_ok_def by blast

theorem session_keeps_server_ok_witness:
  "server_ok (snd (serve (\<lambda>_. Some (JObj [])) (\<lambda>_. []) ''/w'' [(sample_http, ''/api/files''), (sample_http, ''/api/map?id=..'')]
    (viz_server_init ''/'' ''/r'' ''v'' ''evaluation'')))"
  by (rule session_keeps_server_ok) (simp_all add: is_absolute_def slash_def glob_ok_def sample_http_def sample_env_def)

text \<open>The map a request asks for.\<close>

definition map_request :: "http_env \<times> string \<Rightarrow> string option" where
  "map_request q =
     (case urlparse (netloc_ok (fst q)) (snd q) of
        None \<Rightarrow> None
      | Some (path, query) \<Rightarrow>
          if path = ''/api/map'' \<or> path = ''/api/client/map'' then first_param (parse_qs (decode (fst q)) query) ''id'' else None)"

lemma map_request_answer:
  assumes "map_request q = Some m_id" and "m_id \<noteq> []"
  shows "do_GET loads fmt_time ((fst q)\<lparr>web_dir := web\<rparr>) (snd q) s =
    (case load_map (server_env (fst q)) m_id s of
       (Inl e, s') \<Rightarrow> (Some (Json_Response 404 (Error_Doc (Map_Message e))), s')
     | (Inr v, s') \<Rightarrow> (Some (Json_Response 200 (Map_Doc v)), s'))"
proof -
  obtain path query where url: "urlparse (netloc_ok (fst q)) (snd q) = Some (path, query)"
    "path = ''/api/map'' \<or> path = ''/api/client/map''" "first_param (parse_qs (decode (fst q)) query) ''id'' = Some m_id"
    using assms(1) by (auto simp: map_request_def split: option.splits if_splits)
  define params where "params = parse_qs (decode (fst q)) query"
  have "route loads fmt_time env ''/api/map'' params s = (let (r, s') = get_map (server_env env) params s in (Some r, s'))"
    "route loads fmt_time env ''/api/client/map'' params s = (let (r, s') = get_map (server_env env) params s in (Some r, s'))" for env
    by (simp_all add: route_def Let_def)
  with url(2) have "route loads fmt_time ((fst q)\<lparr>web_dir := web\<rparr>) path params s =
      (let (r, s') = get_map (server_env (fst q)) params s in (Some r, s'))"
    by (elim disjE) simp_all
  with url(1,3) assms(2) show ?thesis
    by (simp add: do_GET_def get_map_def missing_def params_def split: prod.splits sum.splits)
qed

lemma serve_append:
  "serve loads fmt_time web (qs @ rs) s =
    (fst (serve loads fmt_time web qs s) @ fst (serve loads fmt_time web rs (snd (serve loads fmt_time web qs s))),
     snd (serve loads fmt_time web rs (snd (serve loads fmt_time web qs s))))"
  by (induction qs arbitrary: s) (simp_all add: case_prod_beta Let_def)

lemma length_serve [simp]: "length (fst (serve loads fmt_time web qs s)) = length qs"
  by (induction qs arbitrary: s) (simp_all add: case_prod_beta Let_def)

text \<open>C23: Within one session a map that has been answered once is answered again with the same document, whatever has
  become of its file and of all other files.\<close>

theorem map_answers_agree:
  assumes "server_ok s" and "\<forall>q \<in> set (before @ q # between @ [q']). glob_ok (server_env (fst q))"
    and "map_request q = Some m_id" and "map_request q' = Some m_id" and "m_id \<noteq> []"
    and "fst (serve loads fmt_time web (before @ q # between @ [q']) s) = answers"
    and "answers ! length before = Some (Json_Response 200 (Map_Doc v))"
  shows "last answers = Some (Json_Response 200 (Map_Doc v))"
proof -
  let ?sv = "serve loads fmt_time web"
  define s1 where "s1 = snd (?sv before s)"
  obtain r s2 where r: "do_GET loads fmt_time ((fst q)\<lparr>web_dir := web\<rparr>) (snd q) s1 = (r, s2)"
    by (cases "do_GET loads fmt_time ((fst q)\<lparr>web_dir := web\<rparr>) (snd q) s1")
  define s3 where "s3 = snd (?sv between s2)"
  have all: "fst (?sv (before @ q # between @ [q']) s) =
      fst (?sv before s) @ r # fst (?sv between s2) @ [fst (do_GET loads fmt_time ((fst q')\<lparr>web_dir := web\<rparr>) (snd q') s3)]"
    by (simp add: serve_append s1_def [symmetric] s3_def [symmetric] r case_prod_beta Let_def)
  with assms(6,7) have first: "r = Some (Json_Response 200 (Map_Doc v))" by (metis length_serve nth_append_length)
  from all assms(6) have final: "last answers = fst (do_GET loads fmt_time ((fst q')\<lparr>web_dir := web\<rparr>) (snd q') s3)"
    by (metis last_appendR last_ConsR last_snoc append_is_Nil_conv list.distinct(1))
  have "load_map (server_env (fst q)) m_id s1 = (Inr v, s2)"
    using map_request_answer [OF assms(3,5), of loads fmt_time web s1] r first by (auto split: prod.splits sum.splits)
  note found = load_map_found [OF this]
  have "step_ok s s1" unfolding s1_def using assms(2) by (intro serve_step_ok) simp
  moreover have "step_ok s1 s2" using step_ok_GET [of "(fst q)\<lparr>web_dir := web\<rparr>" s1 loads fmt_time "snd q"] r assms(2) by simp
  moreover have "step_ok s2 s3" unfolding s3_def using assms(2) by (intro serve_step_ok) simp
  ultimately have "map_cache s2 \<subseteq>\<^sub>m map_cache s3" using assms(1) by (simp add: step_ok_def)
  with found have "map_cache s3 m_id = Some v" by (metis domI map_le_def)
  with found have "load_map (server_env (fst q')) m_id s3 = (Inr v, s3)" by (intro load_map_cached) simp_all
  with map_request_answer [OF assms(4,5), of loads fmt_time web s3] final show ?thesis by simp
qed

definition map_env :: "json \<Rightarrow> http_env" where
  "map_env v = sample_http\<lparr>server_env := sample_env\<lparr>node_at := [''/r/maps/m.json'' \<mapsto> \<lparr>n_mtime = 1, n_size = 1, n_body = None\<rparr>],
     json_at := (\<lambda>_. Inr v)\<rparr>\<rparr>"

theorem map_answers_agree_witness:
  "last (fst (serve (\<lambda>_. None) (\<lambda>_. []) ''/w''
      [(map_env (JInt 1), ''/api/map?id=m''), (map_env (JInt 2), ''/api/client/map?id=m'')] sample_server)) =
    Some (Json_Response 200 (Map_Doc (JInt 1)))"
proof -
  let ?q = "(map_env (JInt 1), ''/api/map?id=m'')" and ?q' = "(map_env (JInt 2), ''/api/client/map?id=m'')"
  have urls: "urlparse (\<lambda>_. True) ''/api/map?id=m'' = Some (''/api/map'', ''id=m'')"
    "urlparse (\<lambda>_. True) ''/api/client/map?id=m'' = Some (''/api/client/map'', ''id=m'')"
    "first_param (parse_qs (\<lambda>s. s) ''id=m'') ''id'' = Some ''m''" by code_simp+
  then have reqs: "map_request ?q = Some ''m''" "map_request ?q' = Some ''m''"
    by (simp_all add: map_request_def map_env_def sample_http_def)
  have ok: "server_ok sample_server" unfolding sample_server_def by (rule init_ok) (simp add: is_absolute_def slash_def)
  have "map_cache sample_server = Map.empty" by (simp add: sample_server_def viz_server_init_def)
  then have "fst (load_map (server_env (fst ?q)) ''m'' sample_server) = Inr (JInt 1)"
    by (simp add: load_map_def map_env_def maps_dir_def bad_name_def path_join_def slash_def)
  then have "fst (do_GET (\<lambda>_. None) (\<lambda>_. []) ((fst ?q)\<lparr>web_dir := ''/w''\<rparr>) (snd ?q) sample_server) =
      Some (Json_Response 200 (Map_Doc (JInt 1)))"
    using map_request_answer [OF reqs(1), of "\<lambda>_. None" "\<lambda>_. []" "''/w''" sample_server]
    by (cases "load_map (server_env (fst ?q)) ''m'' sample_server") simp
  then have "fst (serve (\<lambda>_. None) (\<lambda>_. []) ''/w'' ([] @ ?q # [] @ [?q']) sample_server) ! length [] =
      Some (Json_Response 200 (Map_Doc (JInt 1)))"
    by (simp add: case_prod_beta Let_def)
  moreover have "\<forall>q \<in> set ([] @ ?q # [] @ [?q']). glob_ok (server_env (fst q))"
    by (simp add: glob_ok_def map_env_def sample_http_def sample_env_def slash_def)
  ultimately show ?thesis
    using map_answers_agree [OF ok _ reqs, of "[]" "[]" "\<lambda>_. None" "\<lambda>_. []" "''/w''"] by simp
qed

end
