(* ===== verification/FloatSingle.thy ===== *)
theory FloatSingle
  imports WallSegments "HOL-Library.Log_Nat"
begin

text \<open>
  Rounding to the \<open>float\<close> of the C++ client: 24 digits in base two, half to even. Exponents have no bounds here, so a
  number too large for a \<open>float\<close> (undefined in C++) and one too small for a normal one are rounded like any other.
\<close>

section \<open>Definitions\<close>

text \<open>The exponent of a positive number: \<open>2 powi e \<le> x < 2 powi (e + 1)\<close>.\<close>

definition exponent_of :: "rat \<Rightarrow> int" where
  "exponent_of x =
     (let (n, d) = quotient_of x; e = int (floorlog 2 (nat n)) - int (floorlog 2 (nat d)) in
      if 2 powi e \<le> x then e else e - 1)"

definition single :: "rat \<Rightarrow> rat" where
  "single x = (if x = 0 then 0 else let q = 2 powi (exponent_of \<bar>x\<bar> - 23) in of_int (round_half_even (x / q)) * q)"

section \<open>The error\<close>

lemma exponent_of_le:
  assumes "0 < x"
  shows "2 powi exponent_of x \<le> x"
proof -
  obtain n d where q: "quotient_of x = (n, d)" by (cases "quotient_of x")
  have d: "0 < d" and x: "x = of_int n / of_int d"
    using quotient_of_denom_pos [OF q] quotient_of_div [OF q] by simp_all
  have n: "0 < n" using assms d unfolding x by (simp add: zero_less_divide_iff)
  let ?a = "floorlog 2 (nat n)" and ?b = "floorlog 2 (nat d)"
  define e where "e = int ?a - int ?b"
  have "0 < ?a" using n by (simp add: floorlog_eq_zero_iff [of 2 "nat n"] flip: neq0_conv)
  have "2 ^ (?a - 1) \<le> nat n" "nat d < 2 ^ ?b" using floorlog_bounds [of "nat n" 2] floorlog_bounds [of "nat d" 2] n d by simp_all
  then have "2 ^ (?a - 1) \<le> n" "d < 2 ^ ?b" using n d by (simp_all add: nat_le_iff le_nat_iff nat_less_iff)
  then have "of_int (2 ^ (?a - 1)) \<le> (of_int n :: rat)" "of_int d < (of_int (2 ^ ?b) :: rat)" by (simp_all only: of_int_le_iff of_int_less_iff)
  then have nd: "2 ^ (?a - 1) \<le> (of_int n :: rat)" "of_int d < (2 ^ ?b :: rat)" by simp_all
  have "(2 :: rat) powi (e - 1) * 2 ^ ?b = 2 powi (e - 1 + int ?b)" by (simp add: power_int_add)
  also have "e - 1 + int ?b = int (?a - 1)" using \<open>0 < ?a\<close> by (simp add: e_def of_nat_diff)
  finally have "(2 :: rat) powi (e - 1) * 2 ^ ?b \<le> of_int n" using nd(1) by simp
  moreover have "(2 :: rat) powi (e - 1) * of_int d \<le> 2 powi (e - 1) * 2 ^ ?b" using nd(2) by (intro mult_left_mono) simp_all
  ultimately have "2 powi (e - 1) * of_int d \<le> (of_int n :: rat)" by (rule order_trans [rotated])
  then have "2 powi (e - 1) \<le> x" using d unfolding x by (simp add: pos_le_divide_eq)
  then show ?thesis by (simp add: exponent_of_def q e_def Let_def)
qed

lemma round_half_even_error: "\<bar>of_int (round_half_even q) - q\<bar> \<le> 1 / 2"
proof -
  define f where "f = \<lfloor>q\<rfloor>"
  have "of_int f \<le> q" "q < of_int f + 1" unfolding f_def by linarith+
  then show ?thesis unfolding round_half_even_def Let_def f_def [symmetric] by (auto simp: abs_le_iff)
qed

lemma round_half_even_int [simp]: "round_half_even (of_int i) = i"
  by (simp add: round_half_even_def Let_def)

lemma single_error: "\<bar>single x - x\<bar> \<le> \<bar>x\<bar> / 2 ^ 24"
proof (cases "x = 0")
  case False
  define q :: rat where "q = 2 powi (exponent_of \<bar>x\<bar> - 23)"
  have q: "0 < q" by (simp add: q_def)
  have "single x - x = (of_int (round_half_even (x / q)) - x / q) * q"
    using False q by (simp add: single_def q_def Let_def algebra_simps)
  then have "\<bar>single x - x\<bar> \<le> 1 / 2 * q"
    using round_half_even_error [of "x / q"] q by (simp only: abs_mult abs_of_pos) (intro mult_right_mono, simp_all)
  moreover have "q * 2 ^ 23 = 2 powi exponent_of \<bar>x\<bar>" unfolding q_def by (simp flip: power_int_add_numeral add: power_int_diff)
  then have "q * 2 ^ 23 \<le> \<bar>x\<bar>" using exponent_of_le [of "\<bar>x\<bar>"] False by simp
  ultimately show ?thesis by simp
qed (simp add: single_def)

lemma single_bounds: "0 \<le> x \<Longrightarrow> x * (1 - 1 / 2 ^ 24) \<le> single x \<and> single x \<le> x * (1 + 1 / 2 ^ 24)"
  using single_error [of x] unfolding abs_le_iff by (simp add: field_simps)

lemma single_sign [simp]: "0 \<le> single x \<longleftrightarrow> 0 \<le> x" "0 < single x \<longleftrightarrow> 0 < x" "single x < 0 \<longleftrightarrow> x < 0"
proof -
  show less: "0 < single x \<longleftrightarrow> 0 < x" using single_error [of x] by (auto simp: abs_le_iff abs_if split: if_splits)
  show "single x < 0 \<longleftrightarrow> x < 0" using single_error [of x] by (auto simp: abs_le_iff abs_if split: if_splits)
  then show "0 \<le> single x \<longleftrightarrow> 0 \<le> x" by (simp flip: not_less)
qed

lemma single_int:
  assumes "\<bar>i\<bar> < 2 ^ 24"
  shows "single (of_int i) = of_int i"
proof (cases "i = 0")
  case False
  define e where "e = exponent_of (of_int \<bar>i\<bar>)"
  have "(2 :: rat) powi e \<le> of_int \<bar>i\<bar>" unfolding e_def by (rule exponent_of_le) (use False in simp)
  also have "\<dots> < of_int (2 ^ 24)" using assms by (simp only: of_int_less_iff)
  finally have "(2 :: rat) powi e < 2 powi 24" by simp
  then have e: "e \<le> 23" using power_int_increasing [of 24 e "2 :: rat"] by (cases "e \<le> 23") simp_all
  have "(2 :: rat) powi (e - 23) = 1 / 2 ^ nat (23 - e)"
    using e power_int_minus_divide [of "2 :: rat" "23 - e"] by (simp add: power_int_def)
  then have "of_int i / 2 powi (e - 23) = (of_int (i * 2 ^ nat (23 - e)) :: rat)" by simp
  moreover have "(2 :: rat) powi (e - 23) \<noteq> 0" by simp
  ultimately show ?thesis using False by (simp only: single_def Let_def of_int_eq_0_iff if_False of_int_abs [symmetric] e_def [symmetric]
      round_half_even_int) (simp add: field_simps)
qed (simp add: single_def)

lemma single_minus_one [simp]: "single (- 1) = - 1"
  using single_int [of "- 1"] by simp

text \<open>\<open>0.1f\<close>\<close>

lemma single_tenth: "single (1 / 10) = 13421773 / 134217728"
  by code_simp

end
