(* ===== verification/ClientMap.thy ===== *)
theory ClientMap
  imports GenConfig Url OpenWalls FloatSingle
begin

text \<open>
  How the C++ client reads a map file (\<open>MazeEnv::LoadMapFromFile\<close>): it does not parse JSON but looks for quoted keys in
  the text and takes the number, the string or the block in braces that follows. A position in the text is the rest of
  the text from there on. \<open>parse_float\<close> reads a decimal of digits, a point and a sign as \<open>std::stod\<close> does when nothing of
  the token is left over; its value is exact, and rounded where the code makes a \<open>float\<close> of it.
\<close>

section \<open>Searching the text\<close>

text \<open>\<open>find\<close> of a text and of a character: the rest that begins with it.\<close>

fun find_text :: "string \<Rightarrow> string \<Rightarrow> string option" where
  "find_text p [] = (if p = [] then Some [] else None)"
| "find_text p (c # s) = (if has_prefix p (c # s) then Some (c # s) else find_text p s)"

definition from_char :: "char \<Rightarrow> string \<Rightarrow> string option" where
  "from_char c s = (case dropWhile (\<lambda>d. d \<noteq> c) s of [] \<Rightarrow> None | t \<Rightarrow> Some t)"

definition dq :: char where
  "dq = CHR 0x22"

definition quoted :: "string \<Rightarrow> string" where
  "quoted key = dq # key @ [dq]"

text \<open>Behind a key and the next colon.\<close>

definition after_key :: "string \<Rightarrow> string \<Rightarrow> string option" where
  "after_key text key = do {
     t \<leftarrow> find_text (quoted key) text;
     u \<leftarrow> from_char (CHR '':'') (drop (length (quoted key)) t);
     Some (tl u)
   }"

definition numeric :: "char \<Rightarrow> bool" where
  "numeric c \<longleftrightarrow> is_digit c \<or> c = CHR ''.'' \<or> c = CHR ''-''"

definition find_double :: "string \<Rightarrow> string \<Rightarrow> rat" where
  "find_double text key =
     (case after_key text key of
        None \<Rightarrow> - 1
      | Some t \<Rightarrow>
          let token = takeWhile numeric (dropWhile (\<lambda>c. c = CHR '' '' \<or> c = CHR 0x09) t) in
          if token = [] then - 1 else case parse_float token of None \<Rightarrow> - 1 | Some v \<Rightarrow> v)"

definition find_number :: "string \<Rightarrow> string \<Rightarrow> rat" where
  "find_number text key = single (find_double text key)"

definition find_string :: "string \<Rightarrow> string \<Rightarrow> string" where
  "find_string text key =
     (case after_key text key of
        None \<Rightarrow> []
      | Some t \<Rightarrow>
          case from_char dq t of
            None \<Rightarrow> []
          | Some u \<Rightarrow> (case from_char dq (tl u) of None \<Rightarrow> [] | Some _ \<Rightarrow> takeWhile (\<lambda>c. c \<noteq> dq) (tl u)))"

text \<open>From the next opening brace to the next closing one, both included.\<close>

definition braces :: "string \<Rightarrow> string option" where
  "braces t = do {
     u \<leftarrow> from_char (CHR ''{'') t;
     _ \<leftarrow> from_char (CHR ''}'') u;
     Some (takeWhile (\<lambda>c. c \<noteq> CHR ''}'') u @ ''}'')
   }"

definition find_block :: "string \<Rightarrow> string \<Rightarrow> string option" where
  "find_block content key = do { t \<leftarrow> find_text (quoted key) content; braces t }"

section \<open>The fields\<close>

definition read_grid_point :: "string \<Rightarrow> string \<Rightarrow> cell option" where
  "read_grid_point content key =
     (case find_block content key of
        None \<Rightarrow> None
      | Some block \<Rightarrow>
          let gx = py_int (find_number block ''x''); gy = py_int (find_number block ''y'') in
          if gx \<ge> 0 \<and> gy \<ge> 0 then Some (gx, gy) else None)"

text \<open>A position overrides the configured one when both coordinates are there and not negative.\<close>

definition read_position :: "string \<Rightarrow> string \<Rightarrow> (rat \<times> rat) option" where
  "read_position content key =
     (case find_block content key of
        None \<Rightarrow> None
      | Some block \<Rightarrow>
          let x = find_number block ''x''; y = find_number block ''y'' in
          if x \<ge> 0 \<and> y \<ge> 0 then Some (x, y) else None)"

definition read_bound :: "string \<Rightarrow> string \<Rightarrow> rat option" where
  "read_bound content key =
     (case find_block content ''bounds'' of
        None \<Rightarrow> None
      | Some block \<Rightarrow> if find_number block key > 0 then Some (find_number block key) else None)"

text \<open>The bitmap: two digits for each cell, nothing but \<open>00\<close> and \<open>01\<close>.\<close>

definition read_cell :: "char \<Rightarrow> char \<Rightarrow> bool option" where
  "read_cell high low =
     (if hex_value high \<noteq> Some 0 \<or> hex_value low \<noteq> Some 0 \<and> hex_value low \<noteq> Some 1 then None
      else Some (hex_value low = Some 1))"

definition client_cells :: "nat \<Rightarrow> string \<Rightarrow> bool list option" where
  "client_cells n hex =
     (if length hex \<noteq> n * 2 then None
      else those (map (\<lambda>i. read_cell (hex ! (i * 2)) (hex ! (i * 2 + 1))) [0..<n]))"

text \<open>One wall: without a thickness it is 10; a wall with a negative coordinate is left out.\<close>

record client_wall =
  cw_x1 :: rat
  cw_y1 :: rat
  cw_x2 :: rat
  cw_y2 :: rat
  cw_thickness :: rat

definition read_wall :: "string \<Rightarrow> client_wall list" where
  "read_wall s =
     (let x1 = find_number s ''x1''; y1 = find_number s ''y1''; x2 = find_number s ''x2''; y2 = find_number s ''y2'';
          t = find_number s ''thickness''; t = (if t < 0 then 10 else t) in
      if x1 \<ge> 0 \<and> y1 \<ge> 0 \<and> x2 \<ge> 0 \<and> y2 \<ge> 0
      then [\<lparr>cw_x1 = x1, cw_y1 = y1, cw_x2 = x2, cw_y2 = y2, cw_thickness = t\<rparr>] else [])"

lemma from_char_length: "from_char c s = Some t \<Longrightarrow> length t \<le> length s \<and> t \<noteq> []"
  unfolding from_char_def by (cases "dropWhile (\<lambda>d. d \<noteq> c) s") (use length_dropWhile_le [of "\<lambda>d. d \<noteq> c" s] in auto)

text \<open>The loop over the walls: it ends at a square bracket before the next brace, or without one.\<close>

function read_walls :: "string \<Rightarrow> client_wall list" where
  "read_walls t =
     (case from_char (CHR ''{'') t of
        None \<Rightarrow> []
      | Some obj \<Rightarrow>
          if CHR '']'' \<in> set (takeWhile (\<lambda>c. c \<noteq> CHR ''{'') t) then []
          else case from_char (CHR ''}'') obj of
              None \<Rightarrow> []
            | Some rest \<Rightarrow> read_wall (takeWhile (\<lambda>c. c \<noteq> CHR ''}'') obj @ ''}'') @ read_walls (tl rest))"
  by pat_completeness auto
termination
proof (relation "measure length")
  fix t obj rest
  assume "from_char (CHR ''{'') t = Some obj" "from_char (CHR ''}'') obj = Some rest"
  from this [THEN from_char_length] show "(tl rest, t) \<in> measure length" by (cases rest) auto
qed simp

declare read_walls.simps [simp del]

section \<open>The file\<close>

text \<open>\<open>std::round\<close>: half away from zero.\<close>

definition round_away :: "rat \<Rightarrow> int" where
  "round_away q = (if 0 \<le> q then \<lfloor>q + 1 / 2\<rfloor> else \<lceil>q - 1 / 2\<rceil>)"

record loaded_map =
  lm_start_pos :: "(rat \<times> rat) option"
  lm_end_pos :: "(rat \<times> rat) option"
  lm_id :: "string option"
  lm_microunits :: int
  lm_grid_size :: rat
  lm_cols :: int
  lm_rows :: int
  lm_width :: "rat option"
  lm_height :: "rat option"
  lm_start :: cell
  lm_goal :: cell
  lm_blocked :: "bool list"
  lm_walls :: "client_wall list"

text \<open>The id is taken only when there is a string behind the key.\<close>

definition read_id :: "string \<Rightarrow> string option" where
  "read_id content = do {
     t \<leftarrow> find_text (quoted ''map_id'') content;
     u \<leftarrow> from_char (CHR '':'') t;
     v \<leftarrow> from_char dq (tl u);
     _ \<leftarrow> from_char dq (tl v);
     Some (takeWhile (\<lambda>c. c \<noteq> dq) (tl v))
   }"

text \<open>\<open>None\<close> stands for the result \<open>false\<close>.\<close>

definition load_map_text :: "string \<Rightarrow> loaded_map option" where
  "load_map_text content =
     (if find_string content ''blocked_bitmap_encoding'' \<noteq> ''row-major-u8-0-open-1-blocked'' then None
      else
        let json_grid_size = find_double content ''grid_size''; micro = round_away (json_grid_size * 1000000) in
        if \<not> (json_grid_size > 0 \<and> micro > 0 \<and> micro \<le> 2 ^ 32 - 1) then None
        else
          let cols = py_int (find_number content ''grid_cols''); rows = py_int (find_number content ''grid_rows'') in
          if cols \<le> 0 \<or> rows \<le> 0 then None
          else do {
            start_cell \<leftarrow> read_grid_point content ''start_grid'';
            goal_cell \<leftarrow> read_grid_point content ''goal_grid'';
            blocked \<leftarrow> client_cells (nat (cols * rows)) (find_string content ''blocked_bitmap_hex'');
            t \<leftarrow> find_text (quoted ''walls'') content;
            arr \<leftarrow> from_char (CHR ''['') t;
            let ws = read_walls arr;
            if ws = [] then None
            else Some \<lparr>lm_start_pos = read_position content ''start_pos'', lm_end_pos = read_position content ''end_pos'',
              lm_id = read_id content, lm_microunits = micro, lm_grid_size = single json_grid_size, lm_cols = cols, lm_rows = rows,
              lm_width = read_bound content ''x_max'', lm_height = read_bound content ''y_max'',
              lm_start = start_cell, lm_goal = goal_cell, lm_blocked = blocked, lm_walls = ws\<rparr>
          })"

end
