(* ===== verification/ClientText.thy ===== *)
theory ClientText
  imports ClientMap JsonText
begin

text \<open>
  Texts as pieces between quotes: what the searches of \<open>ClientMap\<close> find in a text that is given piece by piece, and how
  the numbers and strings \<open>json.dump\<close> writes are read back.
\<close>

section \<open>Pieces\<close>

fun pieces :: "string list \<Rightarrow> string" where
  "pieces [] = []"
| "pieces (s # ss) = s @ concat (map ((#) dq) ss)"

text \<open>What follows a piece.\<close>

fun behind :: "string \<Rightarrow> string list \<Rightarrow> string list" where
  "behind key [] = []"
| "behind key (s # ss) = (if s = key then ss else behind key ss)"

definition no_quote :: "string \<Rightarrow> bool" where
  "no_quote s \<longleftrightarrow> dq \<notin> set s"

lemma find_text_skip: "c \<notin> set s \<Longrightarrow> find_text (c # p) (s @ t) = find_text (c # p) t"
  by (induction s) auto

lemma has_prefix_key:
  "dq \<notin> set a \<Longrightarrow> dq \<notin> set key \<Longrightarrow> has_prefix (key @ [dq]) (a @ dq # t) \<longleftrightarrow> a = key"
proof (induction a arbitrary: key)
  case Nil
  then show ?case by (cases key) auto
next
  case (Cons c a)
  then show ?case by (cases key) auto
qed

lemma find_quoted:
  assumes "no_quote key" and "list_all no_quote (s # ss)" and "behind key ss \<noteq> []"
  shows "find_text (quoted key) (pieces (s # ss)) = Some (dq # pieces (key # behind key ss))"
  using assms(2,3)
proof (induction ss arbitrary: s)
  case (Cons a ss)
  have skip: "find_text (quoted key) (pieces (s # a # ss)) = find_text (quoted key) (dq # a @ concat (map ((#) dq) ss))"
    using Cons.prems(1) find_text_skip [of dq s "key @ [dq]"] by (simp add: quoted_def no_quote_def)
  show ?case
  proof (cases "a = key")
    case True
    then obtain b bs where ss: "ss = b # bs" using Cons.prems(2) by (cases ss) auto
    have "has_prefix (key @ [dq]) (key @ dq # b @ concat (map ((#) dq) bs))" by (auto simp: has_prefix_iff)
    then show ?thesis unfolding skip using True ss by (simp add: quoted_def)
  next
    case False
    then have more: "behind key ss \<noteq> []" using Cons.prems(2) by auto
    then obtain b bs where ss: "ss = b # bs" by (cases ss) auto
    have "\<not> has_prefix (quoted key) (dq # a @ concat (map ((#) dq) ss))"
      using has_prefix_key [of a key "b @ concat (map ((#) dq) bs)"] assms(1) Cons.prems(1) False
      by (simp add: quoted_def no_quote_def ss)
    then have "find_text (quoted key) (dq # a @ concat (map ((#) dq) ss)) = find_text (quoted key) (pieces (a # ss))"
      by simp
    with skip Cons.IH [of a] Cons.prems(1) more False show ?thesis by simp
  qed
qed simp

lemma from_char_skip: "c \<notin> set s \<Longrightarrow> from_char c (s @ c # t) = Some (c # t)"
  by (induction s) (auto simp: from_char_def)

lemma takeWhile_skip: "c \<notin> set s \<Longrightarrow> takeWhile (\<lambda>d. d \<noteq> c) (s @ c # t) = s"
  by (induction s) auto

lemma after_key_pieces:
  assumes "no_quote key" and "list_all no_quote (s # ss)"
    and "behind key ss = (u @ CHR '':'' # v) # bs" and "CHR '':'' \<notin> set u"
  shows "after_key (pieces (s # ss)) key = Some (pieces (v # bs))"
proof -
  have "find_text (quoted key) (pieces (s # ss)) = Some (dq # pieces (key # behind key ss))"
    using assms(3) by (intro find_quoted [OF assms(1,2)]) simp
  then show ?thesis
    using from_char_skip [OF assms(4), of "v @ concat (map ((#) dq) bs)"]
    by (simp add: after_key_def quoted_def assms(3))
qed

section \<open>Values\<close>

text \<open>A number ends where something else begins.\<close>

definition reads_back :: "string \<Rightarrow> rat \<Rightarrow> bool" where
  "reads_back token q \<longleftrightarrow> token \<noteq> [] \<and> list_all numeric token \<and> parse_float token = Some q"

lemma takeWhile_numeric: "list_all numeric token \<Longrightarrow> \<not> numeric c \<Longrightarrow> takeWhile numeric (token @ c # r) = token"
  by (induction token) simp_all

lemma find_double_pieces:
  assumes "no_quote key" and "list_all no_quote (s # ss)"
    and "behind key ss = ('': '' @ token @ c # r) # bs" and "reads_back token q" and "\<not> numeric c"
  shows "find_double (pieces (s # ss)) key = q"
proof -
  have "after_key (pieces (s # ss)) key = Some (pieces (('' '' @ token @ c # r) # bs))"
    using assms(3) by (intro after_key_pieces [OF assms(1,2), where u = "[]"]) simp_all
  moreover obtain d ds where token: "token = d # ds" "numeric d" using assms(4) by (cases token) (auto simp: reads_back_def)
  then have "d \<noteq> CHR '' '' \<and> d \<noteq> CHR 0x09" by (auto simp: numeric_def is_digit_def code_def)
  then have "dropWhile (\<lambda>c. c = CHR '' '' \<or> c = CHR 0x09) (token @ c # r @ t) = token @ c # r @ t" for t
    using token by simp
  ultimately show ?thesis
    using assms(4,5) by (simp add: find_double_def reads_back_def takeWhile_numeric Let_def)
qed

lemma behind_no_quote: "list_all no_quote (s # ss) \<Longrightarrow> list_all no_quote (behind key ss)"
  by (induction ss) auto

lemma find_string_pieces:
  assumes "no_quote key" and "list_all no_quote (s # ss)" and "behind key ss = '': '' # t # b # bs"
  shows "find_string (pieces (s # ss)) key = t"
proof -
  have "after_key (pieces (s # ss)) key = Some (pieces ('' '' # t # b # bs))"
    using assms(3) by (intro after_key_pieces [OF assms(1,2), where u = "[]"]) simp_all
  moreover have "no_quote t" using behind_no_quote [OF assms(2), of key] assms(3) by simp
  moreover from this have "from_char dq (t @ dq # r) = Some (dq # r)" for r
    by (intro from_char_skip) (simp add: no_quote_def)
  moreover have "from_char dq (CHR '' '' # dq # r) = Some (dq # r)" for r
    using from_char_skip [of dq "'' ''" r] by (simp add: dq_def)
  ultimately show ?thesis by (simp add: find_string_def takeWhile_skip no_quote_def)
qed

lemma braces_text:
  "CHR ''{'' \<notin> set pre \<Longrightarrow> CHR ''}'' \<notin> set mid \<Longrightarrow> braces (pre @ CHR ''{'' # mid @ CHR ''}'' # post) = Some (CHR ''{'' # mid @ ''}'')"
  using from_char_skip [of "CHR ''}''" "CHR ''{'' # mid" post]
  by (simp add: braces_def from_char_skip takeWhile_skip)

text \<open>The numbers and the strings of \<open>json.dump\<close>.\<close>

lemma strip_numeric: "list_all numeric s \<Longrightarrow> strip s = s"
proof -
  have "\<not> py_space c" if "numeric c" for c
    using that digit_not_space by (auto simp: numeric_def py_space_def)
  then show "list_all numeric s \<Longrightarrow> strip s = s"
    by (auto simp: strip_def strip_by_idem_iff list_all_iff)
qed

lemma str_int_numeric: "list_all numeric (str_int i)"
  using str_nat_digits by (auto simp: str_int_def list_all_iff numeric_def)

lemma parse_unsigned_digits: "(\<And>c. c \<in> set s \<Longrightarrow> is_digit c) \<Longrightarrow> s \<noteq> [] \<Longrightarrow> parse_unsigned s = Some (of_nat (val_digits s))"
proof -
  assume d: "\<And>c. c \<in> set s \<Longrightarrow> is_digit c" and "s \<noteq> []"
  have "c \<noteq> CHR ''e'' \<and> c \<noteq> CHR ''E'' \<and> c \<noteq> CHR ''.''" if "c \<in> set s" for c
    using d [OF that] by (auto simp: is_digit_def code_def)
  then have e: "takeWhile (\<lambda>c. \<not> (c = CHR ''e'' \<or> c = CHR ''E'')) s = s" "dropWhile (\<lambda>c. \<not> (c = CHR ''e'' \<or> c = CHR ''E'')) s = []"
    and point: "takeWhile (\<lambda>c. c \<noteq> CHR ''.'') s = s" "dropWhile (\<lambda>c. c \<noteq> CHR ''.'') s = []"
    by (simp_all add: takeWhile_eq_all_conv dropWhile_eq_Nil_conv)
  have "parse_mantissa s = Some (of_nat (val_digits s))"
    unfolding parse_mantissa_def point Let_def
    using \<open>s \<noteq> []\<close> group_digits_digits [OF \<open>s \<noteq> []\<close> d] by (simp add: digits_or_none_def)
  then show ?thesis unfolding parse_unsigned_def Let_def e by (simp add: scale10_def)
qed

lemma int_reads_back: "reads_back (str_int i) (of_int i)"
proof -
  have u: "parse_unsigned (str_nat n) = Some (of_nat n)" for n
    using parse_unsigned_digits [of "str_nat n"] str_nat_digits by simp
  have "parse_float (str_int i) = Some (of_int i)"
  proof (cases "i < 0")
    case True
    then show ?thesis using u [of "nat (- i)"] by (simp add: parse_float_def strip_numeric str_int_numeric) (simp add: str_int_def)
  next
    case False
    then have s: "str_int i = str_nat (nat i)" by (simp add: str_int_def)
    obtain c t where ct: "str_nat (nat i) = c # t" by (cases "str_nat (nat i)") auto
    then have "is_digit c" using str_nat_digits [of c "nat i"] by simp
    then have "c \<noteq> CHR ''-'' \<and> c \<noteq> CHR ''+''" by (auto simp: is_digit_def code_def)
    then show ?thesis
      using u [of "nat i"] False str_int_numeric [of i] by (simp add: parse_float_def strip_numeric s ct)
  qed
  moreover have "str_int i \<noteq> []" by (simp add: str_int_def)
  ultimately show ?thesis by (simp add: reads_back_def str_int_numeric)
qed

definition unescaped :: "char \<Rightarrow> bool" where
  "unescaped c \<longleftrightarrow> c \<noteq> dq \<and> c \<noteq> backslash \<and> 32 \<le> code c"

lemma quote_unescaped: "list_all unescaped s \<Longrightarrow> quote_text False s = dq # s @ [dq]"
proof -
  have "escape_char False c = [c]" if "unescaped c" for c
  proof -
    have "(of_char c :: nat) = 34 \<longleftrightarrow> c = CHR 0x22" "(of_char c :: nat) = 92 \<longleftrightarrow> c = CHR 0x5C"
      using of_char_eq_iff [of c "CHR 0x22", where 'a = nat] of_char_eq_iff [of c "CHR 0x5C", where 'a = nat] by simp_all
    with that show ?thesis by (auto simp: unescaped_def escape_char_def Let_def dq_def backslash_def code_def)
  qed
  then have "list_all unescaped s \<Longrightarrow> concat (map (escape_char False) s) = s" by (induction s) auto
  then show "list_all unescaped s \<Longrightarrow> quote_text False s = dq # s @ [dq]" by (simp add: quote_text_def dq_def)
qed

text \<open>Every text has its pieces.\<close>

lemma pieces_exist: "\<exists>p ps. s = pieces (p # ps) \<and> list_all no_quote (p # ps)"
proof (induction s)
  case Nil
  show ?case by (intro exI [of _ "[]"]) (simp add: no_quote_def)
next
  case (Cons c s)
  then obtain p ps where s: "s = pieces (p # ps)" "list_all no_quote (p # ps)" by blast
  show ?case
  proof (cases "c = dq")
    case True
    with s have "c # s = pieces ([] # p # ps) \<and> list_all no_quote ([] # p # ps)" by (simp add: no_quote_def)
    then show ?thesis by blast
  next
    case False
    with s have "c # s = pieces ((c # p) # ps) \<and> list_all no_quote ((c # p) # ps)" by (simp add: no_quote_def)
    then show ?thesis by blast
  qed
qed

lemma pieces_append: "pieces (s # ss) @ dq # pieces (p # ps) = pieces (s # ss @ p # ps)"
  by simp

text \<open>The block behind a key.\<close>

lemma find_block_pieces:
  assumes "no_quote key" and "list_all no_quote (s # ss)" and "behind key ss \<noteq> []" and "CHR ''{'' \<notin> set key"
    and "pieces (behind key ss) = pre @ CHR ''{'' # mid @ CHR ''}'' # post" and "CHR ''{'' \<notin> set pre" and "CHR ''}'' \<notin> set mid"
  shows "find_block (pieces (s # ss)) key = Some (CHR ''{'' # mid @ ''}'')"
proof -
  obtain b bs where b: "behind key ss = b # bs" using assms(3) by (cases "behind key ss") auto
  then have "dq # pieces (key # behind key ss) = (dq # key @ dq # pre) @ CHR ''{'' # mid @ CHR ''}'' # post"
    using assms(5) by simp
  moreover have "CHR ''{'' \<notin> set (dq # key @ dq # pre)" using assms(4,6) by (auto simp: dq_def)
  ultimately show ?thesis
    using find_quoted [OF assms(1-3)] braces_text [of "dq # key @ dq # pre" mid post] assms(7) by (simp add: find_block_def)
qed

end
