(* ===== verification/MapText.thy ===== *)
theory MapText
  imports GenerateMap ClientText
begin

text \<open>
  The file of a map: the document \<open>json.dump\<close> writes for it, as pieces between quotes, and that the client finds every
  field of the map in that text.
\<close>

section \<open>The document\<close>

definition segment_json :: "wall_segment \<Rightarrow> json" where
  "segment_json w = JObj
     [(''x1'', JFloat (seg_x1 w)), (''y1'', JFloat (seg_y1 w)), (''x2'', JFloat (seg_x2 w)), (''y2'', JFloat (seg_y2 w)),
      (''thickness'', JInt (thickness w))]"

definition point_json :: "rat \<times> rat \<Rightarrow> json" where
  "point_json q = JObj [(''x'', JFloat (fst q)), (''y'', JFloat (snd q))]"

definition cell_json :: "cell \<Rightarrow> json" where
  "cell_json c = JObj [(''x'', JInt (fst c)), (''y'', JInt (snd c))]"

definition map_fields :: "map_data \<Rightarrow> (string \<times> json) list" where
  "map_fields m =
     [(''map_id'', JStr (map_id m)), (''seed'', JInt (map_seed m)), (''difficulty'', JInt (difficulty m)),
      (''grid_cols'', JInt (grid_cols m)), (''grid_rows'', JInt (grid_rows m)), (''grid_size'', JFloat (grid_size m)),
      (''room_size'', JInt (room_size m)), (''room_dim'', JInt (room_dim m)),
      (''bounds'', (case bounds m of (x_min, x_max, y_min, y_max) \<Rightarrow> JObj
         [(''x_min'', JInt x_min), (''x_max'', JInt x_max), (''y_min'', JInt y_min), (''y_max'', JInt y_max)])),
      (''start_pos'', point_json (start_pos m)), (''end_pos'', point_json (end_pos m)),
      (''start_grid'', cell_json (start_grid m)), (''goal_grid'', cell_json (goal_grid m)),
      (''blocked_bitmap_encoding'', JStr (blocked_bitmap_encoding m)), (''blocked_bitmap_hex'', JStr (blocked_bitmap_hex m)),
      (''wall_count'', JInt (int (map_wall_count m))), (''walls'', JArr (map segment_json (map_walls m)))]"

definition map_json :: "map_data \<Rightarrow> json" where
  "map_json m = JObj (map_fields m)"

section \<open>The text\<close>

text \<open>\<open>json.dump\<close> with an indentation of four.\<close>

definition pretty_style :: json_style where
  "pretty_style = \<lparr>style_indent = Some 4, item_sep = '','', key_sep = '': '', ascii_only = False\<rparr>"

definition map_text :: "(rat \<Rightarrow> string) \<Rightarrow> map_data \<Rightarrow> string" where
  "map_text float_text m = dump_json pretty_style float_text 0 (map_json m)"

definition line :: "nat \<Rightarrow> string" where
  "line n = CHR 0x0A # replicate n (CHR '' '')"

definition point_pieces :: "nat \<Rightarrow> string \<Rightarrow> string \<Rightarrow> string list" where
  "point_pieces n x y = ['': {'' @ line (n + 4), ''x'', '': '' @ x @ '','' @ line (n + 4), ''y'', '': '' @ y @ line n @ ''},'' @ line n]"

text \<open>The pieces of a map before its walls.\<close>

definition head_pieces :: "(rat \<Rightarrow> string) \<Rightarrow> map_data \<Rightarrow> string list" where
  "head_pieces float_text m = (case bounds m of (x_min, x_max, y_min, y_max) \<Rightarrow>
     [''map_id'', '': '', map_id m, '','' @ line 4, ''seed'', '': '' @ str_int (map_seed m) @ '','' @ line 4,
      ''difficulty'', '': '' @ str_int (difficulty m) @ '','' @ line 4,
      ''grid_cols'', '': '' @ str_int (grid_cols m) @ '','' @ line 4, ''grid_rows'', '': '' @ str_int (grid_rows m) @ '','' @ line 4,
      ''grid_size'', '': '' @ float_text (grid_size m) @ '','' @ line 4,
      ''room_size'', '': '' @ str_int (room_size m) @ '','' @ line 4, ''room_dim'', '': '' @ str_int (room_dim m) @ '','' @ line 4,
      ''bounds'', '': {'' @ line 8, ''x_min'', '': '' @ str_int x_min @ '','' @ line 8, ''x_max'', '': '' @ str_int x_max @ '','' @ line 8,
      ''y_min'', '': '' @ str_int y_min @ '','' @ line 8, ''y_max'', '': '' @ str_int y_max @ line 4 @ ''},'' @ line 4]
     @ ''start_pos'' # point_pieces 4 (float_text (fst (start_pos m))) (float_text (snd (start_pos m)))
     @ ''end_pos'' # point_pieces 4 (float_text (fst (end_pos m))) (float_text (snd (end_pos m)))
     @ ''start_grid'' # point_pieces 4 (str_int (fst (start_grid m))) (str_int (snd (start_grid m)))
     @ ''goal_grid'' # point_pieces 4 (str_int (fst (goal_grid m))) (str_int (snd (goal_grid m)))
     @ [''blocked_bitmap_encoding'', '': '', blocked_bitmap_encoding m, '','' @ line 4,
        ''blocked_bitmap_hex'', '': '', blocked_bitmap_hex m, '','' @ line 4,
        ''wall_count'', '': '' @ str_int (int (map_wall_count m)) @ '','' @ line 4, ''walls''])"

lemma new_line_pretty: "new_line pretty_style k = line (4 * k)"
  by (simp add: new_line_def pretty_style_def line_def)

lemma quote_key: "list_all unescaped s \<Longrightarrow> quote_text (ascii_only pretty_style) s = dq # s @ [dq]"
  by (simp add: pretty_style_def quote_unescaped)

lemma unescaped_char: "unescaped c \<longleftrightarrow> (let n = (of_char c :: nat) in n \<noteq> 34 \<and> n \<noteq> 92 \<and> 32 \<le> n)"
  using of_char_eq_iff [of c "CHR 0x22", where 'a = nat] of_char_eq_iff [of c "CHR 0x5C", where 'a = nat]
  by (auto simp: unescaped_def dq_def backslash_def code_def Let_def)

lemma pretty_fields: "item_sep pretty_style = '',''" "key_sep pretty_style = '': ''"
  by (simp_all add: pretty_style_def)

text \<open>The text of the walls, and the end of the file.\<close>

definition walls_text :: "(rat \<Rightarrow> string) \<Rightarrow> wall_segment list \<Rightarrow> string" where
  "walls_text float_text ws = '': '' @ dump_json pretty_style float_text 1 (JArr (map segment_json ws)) @ line 0 @ ''}''"

lemma map_text_pieces:
  assumes "list_all unescaped (map_id m)" and "list_all unescaped (blocked_bitmap_encoding m)" and "list_all unescaped (blocked_bitmap_hex m)"
  shows "map_text float_text m =
    pieces ((''{'' @ line 4) # head_pieces float_text m) @ dq # walls_text float_text (map_walls m)"
proof -
  obtain x_min x_max y_min y_max where b: "bounds m = (x_min, x_max, y_min, y_max)" by (cases "bounds m")
  show ?thesis
    using assms
    by (simp add: map_text_def map_json_def map_fields_def b point_json_def cell_json_def quote_key unescaped_char
        new_line_pretty pretty_fields head_pieces_def point_pieces_def walls_text_def Let_def del: dump_json.simps(6))
qed

section \<open>What the client finds\<close>

definition wall_floats :: "wall_segment \<Rightarrow> rat list" where
  "wall_floats w = [seg_x1 w, seg_y1 w, seg_x2 w, seg_y2 w]"

definition map_floats :: "map_data \<Rightarrow> rat list" where
  "map_floats m = [grid_size m, fst (start_pos m), snd (start_pos m), fst (end_pos m), snd (end_pos m)]
     @ concat (map wall_floats (map_walls m))"

text \<open>Every float of the map is written with digits, a point and a sign only, as \<open>repr\<close> does between \<open>1e-4\<close> and \<open>1e16\<close>,
  and is read back.\<close>

definition plain_floats :: "(rat \<Rightarrow> string) \<Rightarrow> map_data \<Rightarrow> bool" where
  "plain_floats float_text m \<longleftrightarrow> (\<forall>q \<in> set (map_floats m). reads_back (float_text q) q)"

lemma numeric_clean:
  assumes "reads_back t q"
  shows "no_quote t" "CHR ''{'' \<notin> set t" "CHR ''}'' \<notin> set t" "CHR '']'' \<notin> set t"
proof -
  have "numeric c" if "c \<in> set t" for c using assms that by (auto simp: reads_back_def list_all_iff)
  moreover have "\<not> numeric dq" "\<not> numeric (CHR ''{'')" "\<not> numeric (CHR ''}'')" "\<not> numeric (CHR '']'')"
    by (simp_all add: dq_def numeric_def is_digit_def code_def)
  ultimately show "no_quote t" "CHR ''{'' \<notin> set t" "CHR ''}'' \<notin> set t" "CHR '']'' \<notin> set t"
    unfolding no_quote_def by blast+
qed

lemma line_clean [simp]: "no_quote (line n)" "CHR ''{'' \<notin> set (line n)" "CHR ''}'' \<notin> set (line n)" "CHR '']'' \<notin> set (line n)"
  by (auto simp: no_quote_def dq_def line_def)

lemma no_quote_append [simp]: "no_quote (s @ t) \<longleftrightarrow> no_quote s \<and> no_quote t" "no_quote (c # t) \<longleftrightarrow> c \<noteq> dq \<and> no_quote t" "no_quote []"
  by (auto simp: no_quote_def)

lemma not_numeric [simp]: "\<not> numeric (CHR '','')" "\<not> numeric (CHR 0x0A)"
  by (simp_all add: numeric_def is_digit_def code_def)

definition point_block :: "nat \<Rightarrow> string \<Rightarrow> string \<Rightarrow> string" where
  "point_block n x y =
     pieces [''{'' @ line (n + 4), ''x'', '': '' @ x @ '','' @ line (n + 4), ''y'', '': '' @ y @ line n @ ''}'']"

lemma find_point:
  assumes "no_quote key" and "list_all no_quote (s # ss)" and "behind key ss = point_pieces n x y @ others" and "CHR ''{'' \<notin> set key"
    and "reads_back x qx" and "reads_back y qy"
  shows "find_block (pieces (s # ss)) key = Some (point_block n x y)"
proof -
  let ?mid = "line (n + 4) @ dq # ''x'' @ dq # '': '' @ x @ '','' @ line (n + 4) @ dq # ''y'' @ dq # '': '' @ y @ line n"
  have "CHR ''}'' \<notin> set ?mid" using numeric_clean [OF assms(5)] numeric_clean [OF assms(6)] by (simp add: dq_def)
  moreover have "pieces (behind key ss) = '': '' @ CHR ''{'' # ?mid @ CHR ''}'' # CHR '','' # line n @ concat (map ((#) dq) others)"
    using assms(3) by (simp add: point_pieces_def)
  ultimately show ?thesis
    using find_block_pieces [OF assms(1,2) _ assms(4), of "'': ''" ?mid] assms(3) by (simp add: point_pieces_def point_block_def)
qed

lemma point_doubles:
  assumes "reads_back x qx" and "reads_back y qy"
  shows "find_double (point_block n x y) ''x'' = qx" and "find_double (point_block n x y) ''y'' = qy"
proof -
  let ?ss = "[''x'', '': '' @ x @ '','' @ line (n + 4), ''y'', '': '' @ y @ line n @ ''}'']"
  have plain: "list_all no_quote ((''{'' @ line (n + 4)) # ?ss)"
    using numeric_clean(1) [OF assms(1)] numeric_clean(1) [OF assms(2)] by (simp add: dq_def)
  show "find_double (point_block n x y) ''x'' = qx"
    unfolding point_block_def
    by (rule find_double_pieces [OF _ plain _ assms(1), where c = "CHR '',''" and r = "line (n + 4)"]) (simp_all add: dq_def)
  have "y @ line n @ ''}'' = y @ CHR 0x0A # replicate n (CHR '' '') @ ''}''" by (simp add: line_def)
  then show "find_double (point_block n x y) ''y'' = qy"
    unfolding point_block_def
    by (intro find_double_pieces [OF _ plain _ assms(2), where c = "CHR 0x0A" and r = "replicate n (CHR '' '') @ ''}''"])
      (simp_all add: dq_def)
qed

section \<open>The head of the file\<close>

text \<open>Maps whose strings hold nothing that is escaped and none of the keys.\<close>

definition plain_strings :: "map_data \<Rightarrow> bool" where
  "plain_strings m \<longleftrightarrow> map_id m = ''maze_'' @ str_int (map_seed m) \<and>
     blocked_bitmap_encoding m = ''row-major-u8-0-open-1-blocked'' \<and>
     (\<exists>h. blocked_bitmap_hex m = CHR ''0'' # h \<and> list_all unescaped h)"

lemma unescaped_no_quote: "list_all unescaped s \<Longrightarrow> no_quote s"
  by (auto simp: no_quote_def list_all_iff unescaped_def)

lemma str_int_unescaped: "list_all unescaped (str_int i)"
proof -
  have "unescaped c" if "numeric c" for c
    using that by (auto simp: numeric_def unescaped_char is_digit_def code_def Let_def)
  then show ?thesis using str_int_numeric [of i] by (auto simp: list_all_iff)
qed

lemma str_int_clean [simp]: "no_quote (str_int i)" "CHR ''}'' \<notin> set (str_int i)" "CHR '']'' \<notin> set (str_int i)"
  using numeric_clean [OF int_reads_back [of i]] by simp_all

lemma head_no_quote:
  assumes "plain_floats float_text m" and "plain_strings m"
  shows "list_all no_quote ((''{'' @ line 4) # head_pieces float_text m)"
proof -
  obtain x_min x_max y_min y_max where b: "bounds m = (x_min, x_max, y_min, y_max)" by (cases "bounds m")
  have "no_quote (float_text q)" if "q \<in> set (map_floats m)" for q
    using assms(1) that numeric_clean(1) by (auto simp: plain_floats_def)
  then have "no_quote (float_text (grid_size m))" "no_quote (float_text (fst (start_pos m)))" "no_quote (float_text (snd (start_pos m)))"
    "no_quote (float_text (fst (end_pos m)))" "no_quote (float_text (snd (end_pos m)))"
    by (simp_all add: map_floats_def)
  then show ?thesis
    using assms(2) unescaped_no_quote by (auto simp: head_pieces_def point_pieces_def b plain_strings_def dq_def)
qed

text \<open>The pieces of the whole file.\<close>

lemma map_text_split:
  assumes "plain_floats float_text m" and "plain_strings m"
  obtains p ps where "map_text float_text m = pieces ((''{'' @ line 4) # head_pieces float_text m @ p # ps)"
    "list_all no_quote ((''{'' @ line 4) # head_pieces float_text m @ p # ps)"
    "pieces (p # ps) = walls_text float_text (map_walls m)"
proof -
  obtain p ps where w: "walls_text float_text (map_walls m) = pieces (p # ps)" "list_all no_quote (p # ps)"
    using pieces_exist by blast
  have "list_all unescaped (map_id m)" "list_all unescaped (blocked_bitmap_encoding m)" "list_all unescaped (blocked_bitmap_hex m)"
    using assms(2) str_int_unescaped by (auto simp: plain_strings_def unescaped_char)
  from map_text_pieces [OF this, of float_text]
  have eq: "map_text float_text m = pieces ((''{'' @ line 4) # head_pieces float_text m @ p # ps)"
    unfolding w(1) pieces_append .
  show ?thesis
    by (rule that [OF eq _ w(1) [symmetric]]) (use w(2) head_no_quote [OF assms] in simp)
qed

lemma found_number:
  assumes "no_quote key" and "list_all no_quote (s # ss)" and "behind key ss = ('': '' @ token @ '','' @ line n) # bs" and "reads_back token q"
  shows "find_double (pieces (s # ss)) key = q"
  by (rule find_double_pieces [OF assms(1,2) _ assms(4), where c = "CHR '',''" and r = "line n"]) (simp_all add: assms(3))

lemma read_id_pieces:
  assumes "list_all no_quote (s # ss)" and "behind ''map_id'' ss = '': '' # t # b # bs"
  shows "read_id (pieces (s # ss)) = Some t"
proof -
  define u where "u = t @ dq # b @ concat (map ((#) dq) bs)"
  define r where "r = '' '' @ dq # u"
  define t0 where "t0 = (dq # ''map_id'' @ [dq]) @ CHR '':'' # r"
  have "find_text (quoted ''map_id'') (pieces (s # ss)) = Some t0"
    using find_quoted [of "''map_id''" s ss] assms by (simp add: t0_def r_def u_def dq_def)
  moreover have "from_char (CHR '':'') t0 = Some (CHR '':'' # r)"
    unfolding t0_def by (rule from_char_skip) (simp add: dq_def)
  moreover have "from_char dq r = Some (dq # u)"
    unfolding r_def by (rule from_char_skip) (simp add: dq_def)
  moreover have "dq \<notin> set t" using behind_no_quote [OF assms(1), of "''map_id''"] assms(2) by (simp add: no_quote_def)
  then have "from_char dq u = Some (dq # b @ concat (map ((#) dq) bs))" "takeWhile (\<lambda>c. c \<noteq> dq) u = t"
    unfolding u_def by (simp_all add: from_char_skip takeWhile_skip)
  ultimately show ?thesis by (simp add: read_id_def)
qed

text \<open>Reading one point.\<close>

lemma position_found:
  assumes "no_quote key" and "list_all no_quote (s # ss)" and "behind key ss = point_pieces n x y @ others" and "CHR ''{'' \<notin> set key"
    and "reads_back x qx" and "reads_back y qy" and "0 \<le> qx" and "0 \<le> qy"
  shows "read_position (pieces (s # ss)) key = Some (single qx, single qy)"
  using find_point [OF assms(1-6)] point_doubles [OF assms(5,6)] assms(7,8) by (simp add: read_position_def find_number_def Let_def)

lemma grid_point_found:
  assumes "no_quote key" and "list_all no_quote (s # ss)" and "behind key ss = point_pieces n (str_int x) (str_int y) @ others"
    and "CHR ''{'' \<notin> set key" and "0 \<le> x" and "0 \<le> y" and "x < 2 ^ 24" and "y < 2 ^ 24"
  shows "read_grid_point (pieces (s # ss)) key = Some (x, y)"
  using find_point [OF assms(1-4) int_reads_back int_reads_back] point_doubles [OF int_reads_back int_reads_back] assms(5-8)
  by (simp add: read_grid_point_def find_number_def single_int Let_def py_int_def)

text \<open>Everything but the walls.\<close>

lemma head_numbers_found:
  assumes "plain_floats float_text m" and "plain_strings m"
  shows "find_double (map_text float_text m) ''grid_size'' = grid_size m"
    and "find_number (map_text float_text m) ''grid_cols'' = single (of_int (grid_cols m))"
    and "find_number (map_text float_text m) ''grid_rows'' = single (of_int (grid_rows m))"
proof -
  obtain p ps where t: "map_text float_text m = pieces ((''{'' @ line 4) # head_pieces float_text m @ p # ps)"
    "list_all no_quote ((''{'' @ line 4) # head_pieces float_text m @ p # ps)"
    using map_text_split [OF assms] by metis
  have size: "reads_back (float_text (grid_size m)) (grid_size m)" using assms(1) by (simp add: plain_floats_def map_floats_def)
  have keys: "no_quote ''grid_size''" "no_quote ''grid_cols''" "no_quote ''grid_rows''" by (simp_all add: dq_def)
  obtain bs where "behind ''grid_size'' (head_pieces float_text m @ p # ps) = ('': '' @ float_text (grid_size m) @ '','' @ line 4) # bs"
    using assms(2) by (cases "bounds m") (simp add: head_pieces_def plain_strings_def)
  from found_number [OF keys(1) t(2) this size] show "find_double (map_text float_text m) ''grid_size'' = grid_size m" unfolding t(1) .
  obtain bs where "behind ''grid_cols'' (head_pieces float_text m @ p # ps) = ('': '' @ str_int (grid_cols m) @ '','' @ line 4) # bs"
    using assms(2) by (cases "bounds m") (simp add: head_pieces_def plain_strings_def)
  from found_number [OF keys(2) t(2) this int_reads_back]
  show "find_number (map_text float_text m) ''grid_cols'' = single (of_int (grid_cols m))" unfolding t(1) find_number_def by simp
  obtain bs where "behind ''grid_rows'' (head_pieces float_text m @ p # ps) = ('': '' @ str_int (grid_rows m) @ '','' @ line 4) # bs"
    using assms(2) by (cases "bounds m") (simp add: head_pieces_def plain_strings_def)
  from found_number [OF keys(3) t(2) this int_reads_back]
  show "find_number (map_text float_text m) ''grid_rows'' = single (of_int (grid_rows m))" unfolding t(1) find_number_def by simp
qed

lemma head_strings_found:
  assumes "plain_floats float_text m" and "plain_strings m"
  shows "find_string (map_text float_text m) ''blocked_bitmap_encoding'' = ''row-major-u8-0-open-1-blocked''"
    and "find_string (map_text float_text m) ''blocked_bitmap_hex'' = blocked_bitmap_hex m"
    and "read_id (map_text float_text m) = Some (map_id m)"
proof -
  obtain p ps where t: "map_text float_text m = pieces ((''{'' @ line 4) # head_pieces float_text m @ p # ps)"
    "list_all no_quote ((''{'' @ line 4) # head_pieces float_text m @ p # ps)"
    using map_text_split [OF assms] by metis
  obtain h where strings: "map_id m = ''maze_'' @ str_int (map_seed m)"
    "blocked_bitmap_encoding m = ''row-major-u8-0-open-1-blocked''" "blocked_bitmap_hex m = CHR ''0'' # h"
    using assms(2) by (auto simp: plain_strings_def)
  have keys: "no_quote ''blocked_bitmap_encoding''" "no_quote ''blocked_bitmap_hex''" by (simp_all add: dq_def)
  obtain b bs where "behind ''map_id'' (head_pieces float_text m @ p # ps) = '': '' # map_id m # b # bs"
    by (cases "bounds m") (simp add: head_pieces_def strings)
  from read_id_pieces [OF t(2) this] show "read_id (map_text float_text m) = Some (map_id m)" unfolding t(1) .
  obtain b bs where "behind ''blocked_bitmap_encoding'' (head_pieces float_text m @ p # ps) = '': '' # blocked_bitmap_encoding m # b # bs"
    by (cases "bounds m") (simp add: head_pieces_def strings point_pieces_def)
  from find_string_pieces [OF keys(1) t(2) this]
  show "find_string (map_text float_text m) ''blocked_bitmap_encoding'' = ''row-major-u8-0-open-1-blocked''" 
    unfolding t(1) by (simp add: strings(2))
  obtain b bs where "behind ''blocked_bitmap_hex'' (head_pieces float_text m @ p # ps) = '': '' # blocked_bitmap_hex m # b # bs"
    by (cases "bounds m") (simp add: head_pieces_def strings point_pieces_def)
  from find_string_pieces [OF keys(2) t(2) this]
  show "find_string (map_text float_text m) ''blocked_bitmap_hex'' = blocked_bitmap_hex m" unfolding t(1) .
qed

lemma head_positions_found:
  assumes "plain_floats float_text m" and "plain_strings m"
    and "0 \<le> fst (start_pos m)" "0 \<le> snd (start_pos m)" "0 \<le> fst (end_pos m)" "0 \<le> snd (end_pos m)"
  shows "read_position (map_text float_text m) ''start_pos'' = Some (single (fst (start_pos m)), single (snd (start_pos m)))"
    and "read_position (map_text float_text m) ''end_pos'' = Some (single (fst (end_pos m)), single (snd (end_pos m)))"
proof -
  obtain p ps where t: "map_text float_text m = pieces ((''{'' @ line 4) # head_pieces float_text m @ p # ps)"
    "list_all no_quote ((''{'' @ line 4) # head_pieces float_text m @ p # ps)"
    using map_text_split [OF assms(1,2)] by metis
  have floats: "reads_back (float_text (fst (start_pos m))) (fst (start_pos m))" "reads_back (float_text (snd (start_pos m))) (snd (start_pos m))"
    "reads_back (float_text (fst (end_pos m))) (fst (end_pos m))" "reads_back (float_text (snd (end_pos m))) (snd (end_pos m))"
    using assms(1) by (simp_all add: plain_floats_def map_floats_def)
  have keys: "no_quote ''start_pos''" "no_quote ''end_pos''" by (simp_all add: dq_def)
  obtain others where "behind ''start_pos'' (head_pieces float_text m @ p # ps) =
      point_pieces 4 (float_text (fst (start_pos m))) (float_text (snd (start_pos m))) @ others"
    using assms(2) by (cases "bounds m") (simp add: head_pieces_def plain_strings_def)
  from position_found [OF keys(1) t(2) this _ floats(1,2) assms(3,4)]
  show "read_position (map_text float_text m) ''start_pos'' = Some (single (fst (start_pos m)), single (snd (start_pos m)))" unfolding t(1) by simp
  obtain others where "behind ''end_pos'' (head_pieces float_text m @ p # ps) =
      point_pieces 4 (float_text (fst (end_pos m))) (float_text (snd (end_pos m))) @ others"
    using assms(2) by (cases "bounds m") (simp add: head_pieces_def plain_strings_def point_pieces_def)
  from position_found [OF keys(2) t(2) this _ floats(3,4) assms(5,6)]
  show "read_position (map_text float_text m) ''end_pos'' = Some (single (fst (end_pos m)), single (snd (end_pos m)))" unfolding t(1) by simp
qed

lemma head_cells_found:
  assumes "plain_floats float_text m" and "plain_strings m"
    and "0 \<le> fst (start_grid m)" "0 \<le> snd (start_grid m)" "0 \<le> fst (goal_grid m)" "0 \<le> snd (goal_grid m)"
    and "fst (start_grid m) < 2 ^ 24" "snd (start_grid m) < 2 ^ 24" "fst (goal_grid m) < 2 ^ 24" "snd (goal_grid m) < 2 ^ 24"
  shows "read_grid_point (map_text float_text m) ''start_grid'' = Some (start_grid m)"
    and "read_grid_point (map_text float_text m) ''goal_grid'' = Some (goal_grid m)"
    and "find_text (quoted ''walls'') (map_text float_text m) = Some (dq # ''walls'' @ dq # walls_text float_text (map_walls m))"
proof -
  obtain p ps where t: "map_text float_text m = pieces ((''{'' @ line 4) # head_pieces float_text m @ p # ps)"
    "list_all no_quote ((''{'' @ line 4) # head_pieces float_text m @ p # ps)"
    "pieces (p # ps) = walls_text float_text (map_walls m)"
    using map_text_split [OF assms(1,2)] by metis
  obtain h where strings: "map_id m = ''maze_'' @ str_int (map_seed m)"
    "blocked_bitmap_encoding m = ''row-major-u8-0-open-1-blocked''" "blocked_bitmap_hex m = CHR ''0'' # h"
    using assms(2) by (auto simp: plain_strings_def)
  have keys: "no_quote ''start_grid''" "no_quote ''goal_grid''" "no_quote ''walls''" by (simp_all add: dq_def)
  obtain others where "behind ''start_grid'' (head_pieces float_text m @ p # ps) =
      point_pieces 4 (str_int (fst (start_grid m))) (str_int (snd (start_grid m))) @ others"
    by (cases "bounds m") (simp add: head_pieces_def strings point_pieces_def)
  from grid_point_found [OF keys(1) t(2) this _ assms(3,4,7,8)]
  show "read_grid_point (map_text float_text m) ''start_grid'' = Some (start_grid m)" unfolding t(1) by simp
  obtain others where "behind ''goal_grid'' (head_pieces float_text m @ p # ps) =
      point_pieces 4 (str_int (fst (goal_grid m))) (str_int (snd (goal_grid m))) @ others"
    by (cases "bounds m") (simp add: head_pieces_def strings point_pieces_def)
  from grid_point_found [OF keys(2) t(2) this _ assms(5,6,9,10)]
  show "read_grid_point (map_text float_text m) ''goal_grid'' = Some (goal_grid m)" unfolding t(1) by simp
  have "behind ''walls'' (head_pieces float_text m @ p # ps) = p # ps"
    by (cases "bounds m") (simp add: head_pieces_def strings point_pieces_def)
  then show "find_text (quoted ''walls'') (map_text float_text m) = Some (dq # ''walls'' @ dq # walls_text float_text (map_walls m))"
    using find_quoted [OF keys(3) t(2)] unfolding t(1) t(3) [symmetric] by simp
qed

end
