(* ===== verification/MapFile.thy ===== *)
theory MapFile
  imports GenMain VizSession MapText
begin

text \<open>
  The file of a map: the document \<open>json.dump\<close> writes for a map, how a reader gets the cells back from the text of the
  bitmap, and that a generated map is what the replay server answers for its id.
\<close>

section \<open>Reading the bitmap\<close>

definition cell_bytes :: "bool list \<Rightarrow> 8 word list" where
  "cell_bytes flat = map (\<lambda>c. if c then 1 else 0) flat"

lemma hex_digit_value: "k < 16 \<Longrightarrow> hex_value (hex_digit k) = Some k"
  by (auto simp: hex_value_def hex_digit_def is_digit_def code_def)

lemma those_Some: "those (map Some xs) = Some xs"
  by (induction xs) simp_all

lemma hex_bytes_nth:
  "i < length bs \<Longrightarrow> hex_bytes bs ! (i * 2) = hex_digit (unat (bs ! i) div 16) \<and>
    hex_bytes bs ! (i * 2 + 1) = hex_digit (unat (bs ! i) mod 16)"
proof (induction bs arbitrary: i)
  case (Cons b bs)
  then show ?case by (cases i) (simp_all add: hex_bytes_Cons)
qed simp

text \<open>What the generator writes, the client reads.\<close>

lemma client_reads_cells: "client_cells (length flat) (hex_bytes (cell_bytes flat)) = Some flat"
proof -
  let ?hex = "hex_bytes (cell_bytes flat)"
  have "read_cell (?hex ! (i * 2)) (?hex ! (i * 2 + 1)) = Some (flat ! i)" if "i < length flat" for i
    using hex_bytes_nth [of i "cell_bytes flat"] that by (simp add: cell_bytes_def read_cell_def hex_digit_value)
  then have "map (\<lambda>i. read_cell (?hex ! (i * 2)) (?hex ! (i * 2 + 1))) [0..<length flat] = map Some (map ((!) flat) [0..<length flat])"
    by simp
  then show ?thesis by (simp add: client_cells_def cell_bytes_def those_Some map_nth del: map_map)
qed

section \<open>Well-formed maps\<close>

text \<open>What every reader of a map may rely on.\<close>

definition open_cell :: "map_data \<Rightarrow> bool list \<Rightarrow> cell \<Rightarrow> bool" where
  "open_cell m flat c \<longleftrightarrow> in_grid (grid_cols m) (grid_rows m) (fst c) (snd c) \<and> \<not> flat ! nat (snd c * grid_cols m + fst c)"

definition map_well_formed :: "map_data \<Rightarrow> bool" where
  "map_well_formed m \<longleftrightarrow>
     map_id m = ''maze_'' @ str_int (map_seed m) \<and> grid_rows m = grid_cols m \<and> 5 \<le> grid_cols m \<and>
     map_wall_count m = length (map_walls m) \<and>
     (case client_cells (nat (grid_cols m * grid_rows m)) (blocked_bitmap_hex m) of
        None \<Rightarrow> False
      | Some flat \<Rightarrow> open_cell m flat (start_grid m) \<and> open_cell m flat (goal_grid m))"

lemma dim_cells_ge: "1 \<le> param_room_size p \<Longrightarrow> 5 \<le> dim_cells p"
proof -
  assume "1 \<le> param_room_size p"
  then have "2 * 2 \<le> dim_rooms p * (param_room_size p + 1)" unfolding dim_rooms_def by (intro mult_mono) auto
  then show ?thesis by (simp add: dim_cells_def)
qed

lemma published_well_formed:
  assumes "1 \<le> param_room_size p" and "layout_ok p s e es b" and "published p seed s e b g m"
  shows "map_well_formed m \<and> client_cells (nat (grid_cols m * grid_rows m)) (blocked_bitmap_hex m) = Some (concat b)"
proof -
  let ?n = "dim_cells p" and ?k = "param_room_size p"
  note lay = layout_okD [OF assms(2)]
  have m: "map_id m = ''maze_'' @ str_int (map_seed m)" "grid_cols m = ?n" "grid_rows m = ?n" "map_wall_count m = length (map_walls m)"
    "blocked_bitmap_hex m = hex_bytes (cell_bytes (concat b))" "start_grid m = room_centre ?k s" "goal_grid m = room_centre ?k e"
    using assms(3) by (auto simp: published_def cell_bytes_def)
  have n: "5 \<le> ?n" by (rule dim_cells_ge [OF assms(1)])
  have shape: "length b = nat ?n" "\<forall>r \<in> set b. length r = nat ?n" using lay(5) by (auto simp: wf_grid_def)
  then have len: "length (concat b) = nat (?n * ?n)" using length_concat_rows [OF shape(2)] n by (simp add: nat_mult_distrib)
  then have flat: "client_cells (nat (grid_cols m * grid_rows m)) (blocked_bitmap_hex m) = Some (concat b)"
    unfolding m using client_reads_cells [of "concat b"] by simp
  have "open_cell m (concat b) (room_centre ?k c)" if "c = s \<or> c = e" for c
  proof -
    let ?x = "fst (room_centre ?k c)" and ?y = "snd (room_centre ?k c)"
    have "c \<in> rooms (dim_rooms p)" using that lay(1,2) by auto
    then have inside: "in_grid ?n ?n ?x ?y" using centre_inside [OF assms(1)] by (simp add: dim_cells_def)
    then have xy: "0 \<le> ?x" "?x < ?n" "0 \<le> ?y" "?y < ?n" by (simp_all add: in_grid_def)
    have "around (room_centre ?k c) ?x ?y" by (simp add: around_def)
    with that lay(6,7) inside have "\<not> cell_at b ?x ?y" by auto
    moreover have "nat (?y * ?n + ?x) = nat ?y * nat ?n + nat ?x"
      using xy n by (simp add: nat_add_distrib nat_mult_distrib)
    then have "concat b ! nat (?y * ?n + ?x) = cell_at b ?x ?y"
      using nth_concat_rows [OF shape(2), of "nat ?y" "nat ?x"] shape(1) xy by (simp add: cell_at_def)
    ultimately show ?thesis using inside m by (simp add: open_cell_def)
  qed
  then have "open_cell m (concat b) (start_grid m)" "open_cell m (concat b) (goal_grid m)" using m by simp_all
  then show ?thesis using m n flat by (simp add: map_well_formed_def)
qed

lemma generate_map_well_formed:
  assumes "iterates order" and "valid_params p" and "generate_map order rng_of_seed p seed = Some (Map m es reachable len b d g)"
  shows "map_well_formed m \<and> client_cells (nat (grid_cols m * grid_rows m)) (blocked_bitmap_hex m) = Some (concat b)"
proof (cases rule: generate_map_cases [OF assms(1,2), of rng_of_seed seed, case_names no_map a_map])
  case (no_map es)
  with assms(3) show ?thesis by simp
next
  case (a_map s e es b' path_length g' m')
  have "1 \<le> param_room_size p" using assms(2) by (simp add: valid_params_def)
  from published_well_formed [OF this a_map(2,3)] a_map(1) assms(3) show ?thesis by simp
qed

lemma well_formed_difficulty [simp]: "map_well_formed (m\<lparr>difficulty := k\<rparr>) = map_well_formed m"
  by (simp add: map_well_formed_def open_cell_def split: option.splits)

section \<open>Properties\<close>

text \<open>C24: Every file a run of the generator adds holds a well-formed map: a square grid of at least five cells a side,
  named after its seed, whose bitmap the client reads, with start and goal inside the grid and open, and as many walls
  as it says.\<close>

theorem written_maps_well_formed:
  assumes "iterates order" and "valid_params (gen_params args (load_config config_text))"
    and "generator_main order rng_of_seed clock_ms default_save_dir args config_text files = (e, b)"
    and "map_files b p \<noteq> files p"
  shows "\<exists>m. map_files b p = Some (Map_File m) \<and> map_well_formed m"
proof -
  obtain m m' es len bl d g where m: "map_files b p = Some (Map_File m)"
    "generate_map order rng_of_seed (gen_params args (load_config config_text)) (map_seed m) = Some (Map m' es True len bl d g)"
    "m = m'\<lparr>difficulty := difficulty m\<rparr>"
    using batch_new_maps [OF assms(1-3), of p] assms(4) by blast
  from generate_map_well_formed [OF assms(1,2) m(2)] m(3) have "map_well_formed m" by (metis well_formed_difficulty)
  with m(1) show ?thesis by blast
qed

theorem written_maps_well_formed_witness:
  "\<exists>b m. generator_main canonical_order (\<lambda>_. sample_rng) (\<lambda>_. 0) ''/maps'' one_map None Map.empty = (Finished, b) \<and>
    map_files b (map_path ''/maps'' 7) = Some (Map_File m) \<and> map_well_formed m"
proof -
  let ?d = "''/maps''"
  obtain b where run: "generator_main canonical_order (\<lambda>_. sample_rng) (\<lambda>_. 0) ?d one_map None Map.empty = (Finished, b)"
    "map_files b (map_path ?d 7) \<noteq> None"
    using one_map_written by blast
  from written_maps_well_formed [OF iterates_canonical one_map_valid run(1), of "map_path ?d 7"] run show ?thesis by auto
qed

text \<open>The search for a map ran on the very cells the client reads from its bitmap.\<close>

theorem client_reads_searched_grid:
  assumes "iterates order" and "valid_params p" and "generate_map order rng_of_seed p seed = Some (Map m es reachable len b d g)"
  shows "client_cells (nat (grid_cols m * grid_rows m)) (blocked_bitmap_hex m) = Some (concat b)"
  using generate_map_well_formed [OF assms] by blast

theorem client_reads_searched_grid_witness:
  "\<exists>m es reachable len b d g. generate_map canonical_order (\<lambda>_. sample_rng) sample_params 7 = Some (Map m es reachable len b d g) \<and>
    client_cells (nat (grid_cols m * grid_rows m)) (blocked_bitmap_hex m) = Some (concat b)"
proof -
  obtain m es reachable len b d g where run: "generate_map canonical_order (\<lambda>_. sample_rng) sample_params 7 = Some (Map m es reachable len b d g)"
    using sample_map by (auto split: option.splits map_result.splits)
  from client_reads_searched_grid [OF iterates_canonical valid_sample_params run] run show ?thesis by blast
qed





end
