(* ===== verification/MapWalls.thy ===== *)
theory MapWalls
  imports MapText
begin

text \<open>
  The walls in the text of a map, and the client's reading of the whole text.
\<close>

section \<open>The walls of the file\<close>

definition wall_body :: "(rat \<Rightarrow> string) \<Rightarrow> wall_segment \<Rightarrow> string" where
  "wall_body float_text w =
     pieces [line 12, ''x1'', '': '' @ float_text (seg_x1 w) @ '','' @ line 12, ''y1'', '': '' @ float_text (seg_y1 w) @ '','' @ line 12,
       ''x2'', '': '' @ float_text (seg_x2 w) @ '','' @ line 12, ''y2'', '': '' @ float_text (seg_y2 w) @ '','' @ line 12,
       ''thickness'', '': '' @ str_int (thickness w) @ line 8]"

definition wall_text :: "(rat \<Rightarrow> string) \<Rightarrow> wall_segment \<Rightarrow> string" where
  "wall_text float_text w = CHR ''{'' # wall_body float_text w @ ''}''"

lemma dump_wall: "dump_json pretty_style float_text 2 (segment_json w) = wall_text float_text w"
  by (simp add: segment_json_def wall_text_def wall_body_def quote_key unescaped_char new_line_pretty pretty_fields Let_def)

text \<open>What the client keeps of a wall.\<close>

definition client_wall_of :: "wall_segment \<Rightarrow> client_wall" where
  "client_wall_of w = \<lparr>cw_x1 = single (seg_x1 w), cw_y1 = single (seg_y1 w), cw_x2 = single (seg_x2 w), cw_y2 = single (seg_y2 w),
     cw_thickness = (if thickness w < 0 then 10 else single (of_int (thickness w)))\<rparr>"

definition wall_ok :: "(rat \<Rightarrow> string) \<Rightarrow> wall_segment \<Rightarrow> bool" where
  "wall_ok float_text w \<longleftrightarrow> list_all (\<lambda>q. reads_back (float_text q) q \<and> 0 \<le> q) (wall_floats w)"

lemma read_wall_text:
  assumes "wall_ok float_text w"
  shows "read_wall (wall_text float_text w) = [client_wall_of w]" and "CHR ''}'' \<notin> set (wall_body float_text w)"
proof -
  note f = assms [unfolded wall_ok_def wall_floats_def, simplified]
  have clean: "no_quote (float_text q) \<and> CHR ''}'' \<notin> set (float_text q)" if "q \<in> set (wall_floats w)" for q
    using f that numeric_clean by (auto simp: wall_floats_def)
  show "CHR ''}'' \<notin> set (wall_body float_text w)"
    using clean by (simp add: wall_body_def wall_floats_def dq_def)
  let ?x1 = "float_text (seg_x1 w)" and ?y1 = "float_text (seg_y1 w)" and ?x2 = "float_text (seg_x2 w)" and ?y2 = "float_text (seg_y2 w)"
  define ss where "ss = [''x1'', '': '' @ ?x1 @ '','' @ line 12, ''y1'', '': '' @ ?y1 @ '','' @ line 12,
    ''x2'', '': '' @ ?x2 @ '','' @ line 12, ''y2'', '': '' @ ?y2 @ '','' @ line 12,
    ''thickness'', '': '' @ str_int (thickness w) @ line 8 @ ''}'']"
  have plain: "list_all no_quote ((''{'' @ line 12) # ss)" using clean by (simp add: ss_def wall_floats_def dq_def)
  have wt: "wall_text float_text w = pieces ((''{'' @ line 12) # ss)" by (simp add: wall_text_def wall_body_def ss_def)
  have keys: "no_quote ''x1''" "no_quote ''y1''" "no_quote ''x2''" "no_quote ''y2''" "no_quote ''thickness''" by (simp_all add: dq_def)
  have b: "behind ''x1'' ss = ('': '' @ ?x1 @ '','' @ line 12) # tl (behind ''x1'' ss)"
    "behind ''y1'' ss = ('': '' @ ?y1 @ '','' @ line 12) # tl (behind ''y1'' ss)"
    "behind ''x2'' ss = ('': '' @ ?x2 @ '','' @ line 12) # tl (behind ''x2'' ss)"
    "behind ''y2'' ss = ('': '' @ ?y2 @ '','' @ line 12) # tl (behind ''y2'' ss)"
    by (simp_all add: ss_def)
  have "find_double (wall_text float_text w) ''x1'' = seg_x1 w" "find_double (wall_text float_text w) ''y1'' = seg_y1 w"
    "find_double (wall_text float_text w) ''x2'' = seg_x2 w" "find_double (wall_text float_text w) ''y2'' = seg_y2 w"
    unfolding wt
    using found_number [OF keys(1) plain b(1)] found_number [OF keys(2) plain b(2)] found_number [OF keys(3) plain b(3)]
      found_number [OF keys(4) plain b(4)] f by blast+
  moreover have "str_int (thickness w) @ line 8 @ ''}'' = str_int (thickness w) @ CHR 0x0A # replicate 8 (CHR '' '') @ ''}''"
    by (simp add: line_def)
  then have "find_double (wall_text float_text w) ''thickness'' = of_int (thickness w)"
    unfolding wt
    by (intro find_double_pieces [OF keys(5) plain _ int_reads_back, where c = "CHR 0x0A" and r = "replicate 8 (CHR '' '') @ ''}''"])
      (simp_all add: ss_def)
  ultimately show "read_wall (wall_text float_text w) = [client_wall_of w]"
    using f by (simp add: read_wall_def find_number_def client_wall_of_def Let_def)
qed

lemma read_walls_stop: "CHR ''{'' \<notin> set s \<Longrightarrow> read_walls s = []"
proof -
  assume "CHR ''{'' \<notin> set s"
  then have "from_char (CHR ''{'') s = None" by (induction s) (auto simp: from_char_def)
  then show ?thesis by (subst read_walls.simps) simp
qed

lemma read_walls_step:
  assumes "CHR ''{'' \<notin> set pre" and "CHR '']'' \<notin> set pre" and "CHR ''}'' \<notin> set mid"
  shows "read_walls (pre @ CHR ''{'' # mid @ CHR ''}'' # rest) = read_wall (CHR ''{'' # mid @ ''}'') @ read_walls rest"
proof -
  have "CHR ''}'' \<notin> set (CHR ''{'' # mid)" using assms(3) by simp
  from from_char_skip [OF this] takeWhile_skip [OF this]
  have "from_char (CHR ''}'') (CHR ''{'' # mid @ CHR ''}'' # rest) = Some (CHR ''}'' # rest)"
    "takeWhile (\<lambda>c. c \<noteq> CHR ''}'') (CHR ''{'' # mid @ CHR ''}'' # rest) = CHR ''{'' # mid"
    by simp_all
  with assms(1,2) show ?thesis
    by (subst read_walls.simps) (simp add: from_char_skip takeWhile_skip del: takeWhile.simps)
qed

definition walls_end :: string where
  "walls_end = line 4 @ '']'' @ line 0 @ ''}''"

lemma read_walls_text:
  assumes "CHR ''{'' \<notin> set pre" and "CHR '']'' \<notin> set pre" and "list_all (wall_ok float_text) ws" and "ws \<noteq> []"
  shows "read_walls (pre @ join_text ('','' @ line 8) (map (wall_text float_text) ws) @ walls_end) = map client_wall_of ws"
  using assms
proof (induction ws arbitrary: pre)
  case (Cons w ws)
  note step = read_walls_step [OF Cons.prems(1,2), of "wall_body float_text w"] and w = read_wall_text [of float_text w]
  show ?case
  proof (cases "ws = []")
    case True
    have "CHR ''{'' \<notin> set walls_end" by (simp add: walls_end_def)
    with True Cons.prems(3) step [of walls_end] w show ?thesis by (simp add: wall_text_def read_walls_stop)
  next
    case False
    let ?rest = "('','' @ line 8) @ join_text ('','' @ line 8) (map (wall_text float_text) ws) @ walls_end"
    have "join_text ('','' @ line 8) (map (wall_text float_text) (w # ws)) @ walls_end = CHR ''{'' # wall_body float_text w @ CHR ''}'' # ?rest"
      using False by (cases ws) (simp_all add: wall_text_def)
    then have eq: "pre @ join_text ('','' @ line 8) (map (wall_text float_text) (w # ws)) @ walls_end =
        pre @ CHR ''{'' # wall_body float_text w @ CHR ''}'' # ?rest" by (simp only:)
    have "read_walls ?rest = map client_wall_of ws" using Cons.prems(3) False by (intro Cons.IH) simp_all
    moreover have "wall_ok float_text w" using Cons.prems(3) by simp
    note w [OF this]
    ultimately show ?thesis unfolding eq using step [of ?rest] by (simp add: wall_text_def)
  qed
qed simp

lemma walls_found:
  assumes "list_all (wall_ok float_text) ws" and "ws \<noteq> []"
  shows "\<exists>arr. from_char (CHR ''['') (dq # ''walls'' @ dq # walls_text float_text ws) = Some arr \<and> read_walls arr = map client_wall_of ws"
proof -
  have "walls_text float_text ws = '': '' @ CHR ''['' # line 8 @ join_text ('','' @ line 8) (map (wall_text float_text) ws) @ walls_end"
    using assms(2) dump_wall
    by (simp add: walls_text_def walls_end_def new_line_pretty pretty_fields numeral_2_eq_2 [symmetric] comp_def)
  then have "dq # ''walls'' @ dq # walls_text float_text ws =
      (dq # ''walls'' @ dq # '': '') @ CHR ''['' # (line 8 @ join_text ('','' @ line 8) (map (wall_text float_text) ws) @ walls_end)"
    by simp
  moreover have "CHR ''['' \<notin> set (dq # ''walls'' @ dq # '': '')" by (simp add: dq_def)
  ultimately have "from_char (CHR ''['') (dq # ''walls'' @ dq # walls_text float_text ws) =
      Some (CHR ''['' # line 8 @ join_text ('','' @ line 8) (map (wall_text float_text) ws) @ walls_end)"
    by (simp only: from_char_skip not_False_eq_True)
  moreover have "read_walls ((CHR ''['' # line 8) @ join_text ('','' @ line 8) (map (wall_text float_text) ws) @ walls_end) = map client_wall_of ws"
    by (rule read_walls_text [OF _ _ assms]) simp_all
  ultimately show ?thesis by simp
qed

section \<open>The bounds\<close>

definition bounds_block :: "int \<Rightarrow> int \<Rightarrow> int \<Rightarrow> int \<Rightarrow> string" where
  "bounds_block x_min x_max y_min y_max =
     pieces [''{'' @ line 8, ''x_min'', '': '' @ str_int x_min @ '','' @ line 8, ''x_max'', '': '' @ str_int x_max @ '','' @ line 8,
       ''y_min'', '': '' @ str_int y_min @ '','' @ line 8, ''y_max'', '': '' @ str_int y_max @ line 4 @ ''}'']"

lemma bounds_doubles:
  "find_double (bounds_block x_min x_max y_min y_max) ''x_max'' = of_int x_max"
  "find_double (bounds_block x_min x_max y_min y_max) ''y_max'' = of_int y_max"
proof -
  let ?ss = "[''x_min'', '': '' @ str_int x_min @ '','' @ line 8, ''x_max'', '': '' @ str_int x_max @ '','' @ line 8,
    ''y_min'', '': '' @ str_int y_min @ '','' @ line 8, ''y_max'', '': '' @ str_int y_max @ line 4 @ ''}'']"
  have plain: "list_all no_quote ((''{'' @ line 8) # ?ss)" by (simp add: dq_def)
  have "behind ''x_max'' ?ss = ('': '' @ str_int x_max @ '','' @ line 8) # tl (behind ''x_max'' ?ss)" by simp
  from found_number [OF _ plain this int_reads_back]
  show "find_double (bounds_block x_min x_max y_min y_max) ''x_max'' = of_int x_max" unfolding bounds_block_def by (simp add: dq_def)
  have "str_int y_max @ line 4 @ ''}'' = str_int y_max @ CHR 0x0A # replicate 4 (CHR '' '') @ ''}''" by (simp add: line_def)
  then show "find_double (bounds_block x_min x_max y_min y_max) ''y_max'' = of_int y_max"
    unfolding bounds_block_def
    by (intro find_double_pieces [OF _ plain _ int_reads_back, where c = "CHR 0x0A" and r = "replicate 4 (CHR '' '') @ ''}''"])
      (simp_all add: dq_def)
qed

lemma bounds_found:
  assumes "plain_floats float_text m" and "plain_strings m" and "bounds m = (x_min, x_max, y_min, y_max)"
  shows "read_bound (map_text float_text m) ''x_max'' = (if 0 < x_max then Some (single (of_int x_max)) else None)"
    and "read_bound (map_text float_text m) ''y_max'' = (if 0 < y_max then Some (single (of_int y_max)) else None)"
proof -
  obtain p ps where t: "map_text float_text m = pieces ((''{'' @ line 4) # head_pieces float_text m @ p # ps)"
    "list_all no_quote ((''{'' @ line 4) # head_pieces float_text m @ p # ps)"
    using map_text_split [OF assms(1,2)] by metis
  let ?mid = "line 8 @ concat (map ((#) dq) [''x_min'', '': '' @ str_int x_min @ '','' @ line 8, ''x_max'',
      '': '' @ str_int x_max @ '','' @ line 8, ''y_min'', '': '' @ str_int y_min @ '','' @ line 8, ''y_max'',
      '': '' @ str_int y_max @ line 4])"
  obtain b others where behind: "behind ''bounds'' (head_pieces float_text m @ p # ps) = b # others"
    "pieces (b # others) = '': '' @ CHR ''{'' # ?mid @ CHR ''}'' # CHR '','' # line 4 @ concat (map ((#) dq) (drop 8 others))"
    using assms(2) by (simp add: head_pieces_def assms(3) plain_strings_def)
  have "CHR ''}'' \<notin> set ?mid" by (simp add: dq_def)
  then have "find_block (map_text float_text m) ''bounds'' = Some (bounds_block x_min x_max y_min y_max)"
    unfolding t(1)
    using find_block_pieces [OF _ t(2), of "''bounds''" "'': ''" ?mid] behind by (simp add: bounds_block_def dq_def)
  then show "read_bound (map_text float_text m) ''x_max'' = (if 0 < x_max then Some (single (of_int x_max)) else None)"
    "read_bound (map_text float_text m) ''y_max'' = (if 0 < y_max then Some (single (of_int y_max)) else None)"
    by (simp_all add: read_bound_def find_number_def bounds_doubles)
qed

section \<open>The whole file\<close>

text \<open>The maps the client loads: its floats are written plainly, no coordinate is negative, every whole number is a \<open>float\<close>, the
  size of a cell has a whole number of millionths, and there is a wall.\<close>

definition small_cell :: "cell \<Rightarrow> bool" where
  "small_cell c \<longleftrightarrow> 0 \<le> fst c \<and> fst c < 2 ^ 24 \<and> 0 \<le> snd c \<and> snd c < 2 ^ 24"

definition loadable :: "map_data \<Rightarrow> bool" where
  "loadable m \<longleftrightarrow> plain_strings m \<and> list_all (\<lambda>q. 0 \<le> q) (map_floats m) \<and>
     small_cell (start_grid m) \<and> small_cell (goal_grid m) \<and> small_cell (grid_cols m, grid_rows m) \<and>
     0 < grid_cols m \<and> 0 < grid_rows m \<and> map_walls m \<noteq> [] \<and>
     0 < grid_size m \<and> 0 < round_away (grid_size m * 1000000) \<and> round_away (grid_size m * 1000000) \<le> 2 ^ 32 - 1"

text \<open>What the client keeps of a map.\<close>

definition client_view :: "map_data \<Rightarrow> bool list \<Rightarrow> loaded_map" where
  "client_view m flat = (case bounds m of (x_min, x_max, y_min, y_max) \<Rightarrow>
     \<lparr>lm_start_pos = Some (single (fst (start_pos m)), single (snd (start_pos m))),
      lm_end_pos = Some (single (fst (end_pos m)), single (snd (end_pos m))), lm_id = Some (map_id m),
      lm_microunits = round_away (grid_size m * 1000000), lm_grid_size = single (grid_size m),
      lm_cols = grid_cols m, lm_rows = grid_rows m,
      lm_width = (if 0 < x_max then Some (single (of_int x_max)) else None),
      lm_height = (if 0 < y_max then Some (single (of_int y_max)) else None),
      lm_start = start_grid m, lm_goal = goal_grid m, lm_blocked = flat, lm_walls = map client_wall_of (map_walls m)\<rparr>)"

lemma load_map_text_view:
  assumes "loadable m" and "plain_floats float_text m"
    and "client_cells (nat (grid_cols m * grid_rows m)) (blocked_bitmap_hex m) = Some flat"
  shows "load_map_text (map_text float_text m) = Some (client_view m flat)"
proof -
  obtain x_min x_max y_min y_max where b: "bounds m = (x_min, x_max, y_min, y_max)" by (cases "bounds m")
  note l = assms(1) [unfolded loadable_def small_cell_def fst_conv snd_conv]
  have strings: "plain_strings m" using l by blast
  have nonneg: "0 \<le> fst (start_pos m)" "0 \<le> snd (start_pos m)" "0 \<le> fst (end_pos m)" "0 \<le> snd (end_pos m)"
    using l by (simp_all add: map_floats_def)
  have walls: "list_all (wall_ok float_text) (map_walls m)" "map_walls m \<noteq> []"
    using l assms(2) by (auto simp: wall_ok_def plain_floats_def map_floats_def list_all_iff)
  have ints: "single (of_int (grid_cols m)) = of_int (grid_cols m)" "single (of_int (grid_rows m)) = of_int (grid_rows m)"
    by (rule single_int, use l in simp)+
  obtain arr where arr: "from_char (CHR ''['') (dq # ''walls'' @ dq # walls_text float_text (map_walls m)) = Some arr"
    "read_walls arr = map client_wall_of (map_walls m)"
    using walls_found [OF walls] by blast
  note found = head_strings_found [OF assms(2) strings] head_numbers_found [OF assms(2) strings] bounds_found [OF assms(2) strings b]
    head_positions_found [OF assms(2) strings nonneg]
  have cells: "read_grid_point (map_text float_text m) ''start_grid'' = Some (start_grid m)"
    "read_grid_point (map_text float_text m) ''goal_grid'' = Some (goal_grid m)"
    "find_text (quoted ''walls'') (map_text float_text m) = Some (dq # ''walls'' @ dq # walls_text float_text (map_walls m))"
    by (rule head_cells_found [OF assms(2) strings]; use l in blast)+
  have "py_int (find_number (map_text float_text m) ''grid_cols'') = grid_cols m"
    "py_int (find_number (map_text float_text m) ''grid_rows'') = grid_rows m"
    unfolding found ints using l by (simp_all add: py_int_def)
  then show ?thesis
    using l walls(2) arr assms(3)
    by (simp add: load_map_text_def found(1-4,7-10) cells client_view_def b not_le Let_def)
qed

end
