(* ===== verification/MazeEnv.thy ===== *)
theory MazeEnv
  imports ActionSearch
begin

text \<open>
  The environment of the C++ client (\<open>src/maze/environment\<close>): the grid of a loaded map, agents that move one cell per
  action, the frame counter, and the client's own search for the least number of actions. Cells are held in one vector,
  row by row. An index outside a vector is undefined in C++ and \<open>None\<close> here; an \<open>int\<close> does not overflow.
\<close>

section \<open>State\<close>

datatype termination_reason = Active | Goal_Reached | Time_Limit

record agent_info =
  agent_x :: int
  agent_y :: int
  agent_done :: bool
  last_move_blocked :: bool
  agent_reason :: termination_reason

text \<open>The fields of \<open>MazeEnv\<close>; \<open>agents\<close> are numbered by their place.\<close>

record maze_env =
  env_cols :: int
  env_rows :: int
  env_blocked :: "bool list"
  env_start :: cell
  env_goal :: cell
  env_max_steps :: int
  env_frame :: int
  agents :: "agent_info list"
  env_shortest :: int

text \<open>\<open>kGridActionDirs\<close>\<close>

definition kGridActionDirs :: "(int \<times> int) list" where
  "kGridActionDirs =
     [(0, 0), (0, 1), (1, 1), (1, 0), (1, - 1), (0, - 1), (- 1, - 1), (- 1, 0), (- 1, 1)]"

definition vget :: "'a list \<Rightarrow> int \<Rightarrow> 'a option" where
  "vget xs i = (if 0 \<le> i \<and> i < int (length xs) then Some (xs ! nat i) else None)"

definition vset :: "'a list \<Rightarrow> int \<Rightarrow> 'a \<Rightarrow> 'a list option" where
  "vset xs i v = (if 0 \<le> i \<and> i < int (length xs) then Some (xs[nat i := v]) else None)"

section \<open>Moves\<close>

definition is_walkable :: "maze_env \<Rightarrow> int \<Rightarrow> int \<Rightarrow> bool" where
  "is_walkable e gx gy =
     (if gx < 0 \<or> gx \<ge> env_cols e \<or> gy < 0 \<or> gy \<ge> env_rows e then False
      else \<not> env_blocked e ! nat (gy * env_cols e + gx))"

definition is_action_available :: "maze_env \<Rightarrow> agent_info \<Rightarrow> int \<Rightarrow> bool" where
  "is_action_available e a action_id =
     (if agent_done a \<or> action_id < 0 \<or> action_id \<ge> 9 then False
      else
        let (dx, dy) = kGridActionDirs ! nat action_id in
        if \<not> is_walkable e (agent_x a + dx) (agent_y a + dy) then False
        else if dx \<noteq> 0 \<and> dy \<noteq> 0 \<and>
          (\<not> is_walkable e (agent_x a + dx) (agent_y a) \<or> \<not> is_walkable e (agent_x a) (agent_y a + dy)) then False
        else True)"

definition check_goal_reached :: "maze_env \<Rightarrow> agent_info \<Rightarrow> bool" where
  "check_goal_reached e a \<longleftrightarrow> agent_x a = fst (env_goal e) \<and> agent_y a = snd (env_goal e)"

definition check_timeout :: "maze_env \<Rightarrow> bool" where
  "check_timeout e \<longleftrightarrow> env_frame e + 1 \<ge> env_max_steps e"

text \<open>The move and the end of one agent: the part of \<open>Step\<close> after its checks.\<close>

definition move_agent :: "maze_env \<Rightarrow> int \<Rightarrow> agent_info \<Rightarrow> agent_info" where
  "move_agent e action_id a =
     (let (dx, dy) = kGridActionDirs ! nat action_id;
          can_move = is_action_available e a action_id;
          a = (if can_move then a\<lparr>agent_x := agent_x a + dx, agent_y := agent_y a + dy\<rparr> else a);
          a = a\<lparr>last_move_blocked := action_id \<noteq> 0 \<and> \<not> can_move\<rparr> in
      if check_goal_reached e a then a\<lparr>agent_done := True, agent_reason := Goal_Reached\<rparr>
      else if check_timeout e then a\<lparr>agent_done := True, agent_reason := Time_Limit\<rparr>
      else a)"

datatype step_error = Agent_Outside | Terminal_Agent | Action_Outside

definition maze_step :: "int \<Rightarrow> int \<Rightarrow> maze_env \<Rightarrow> step_error + maze_env" where
  "maze_step agent_id action_id e =
     (if agent_id < 0 \<or> agent_id \<ge> int (length (agents e)) then Inl Agent_Outside
      else
        let a = agents e ! nat agent_id in
        if agent_done a then Inl Terminal_Agent
        else if action_id < 0 \<or> action_id > 8 then Inl Action_Outside
        else Inr (e\<lparr>agents := (agents e)[nat agent_id := move_agent e action_id a]\<rparr>))"

definition advance_frame :: "maze_env \<Rightarrow> maze_env" where
  "advance_frame e = e\<lparr>env_frame := env_frame e + 1\<rparr>"

definition all_done :: "maze_env \<Rightarrow> bool" where
  "all_done e \<longleftrightarrow> list_all agent_done (agents e)"

definition reset_agent :: "maze_env \<Rightarrow> agent_info \<Rightarrow> agent_info" where
  "reset_agent e a = a\<lparr>agent_x := fst (env_start e), agent_y := snd (env_start e), agent_done := False,
     last_move_blocked := False, agent_reason := Active\<rparr>"

definition reset :: "maze_env \<Rightarrow> maze_env" where
  "reset e = e\<lparr>agents := map (reset_agent e) (agents e), env_frame := 0\<rparr>"

definition set_max_steps :: "int \<Rightarrow> maze_env \<Rightarrow> maze_env" where
  "set_max_steps n e = (if n > 0 then e\<lparr>env_max_steps := n\<rparr> else e)"

definition get_action_mask :: "maze_env \<Rightarrow> int \<Rightarrow> bool list" where
  "get_action_mask e agent_id =
     (if agent_id < 0 \<or> agent_id \<ge> int (length (agents e)) then replicate 9 False
      else map (is_action_available e (agents e ! nat agent_id)) (py_range 0 9))"

section \<open>Rays\<close>

text \<open>The steps of a ray, from \<open>step\<close> on with \<open>n\<close> left.\<close>

primrec cast_ray :: "maze_env \<Rightarrow> int \<Rightarrow> int \<Rightarrow> int \<times> int \<Rightarrow> nat \<Rightarrow> int \<Rightarrow> int \<Rightarrow> int" where
  "cast_ray e gx gy d 0 step ray_dist = ray_dist"
| "cast_ray e gx gy d (Suc n) step ray_dist =
     (if \<not> is_walkable e (gx + fst d * step) (gy + snd d * step) then ray_dist
      else cast_ray e gx gy d n (step + 1) step)"

definition RAY_DIRS :: "(int \<times> int) list" where
  "RAY_DIRS = [(0, 1), (1, 1), (1, 0), (1, - 1), (0, - 1), (- 1, - 1), (- 1, 0), (- 1, 1)]"

definition cast_rays :: "maze_env \<Rightarrow> int \<Rightarrow> int \<Rightarrow> int \<Rightarrow> rat list" where
  "cast_rays e gx gy max_range =
     map (\<lambda>d. of_int (cast_ray e gx gy d (nat max_range) 1 0) / of_int max_range) RAY_DIRS"

section \<open>The search of the client\<close>

text \<open>The body of the loop over the actions; \<open>walk\<close> is \<open>IsWalkable\<close>.\<close>

definition client_visit ::
    "(int \<Rightarrow> int \<Rightarrow> bool) \<Rightarrow> int \<Rightarrow> int \<Rightarrow> int \<Rightarrow> int list \<times> int list \<Rightarrow> (int list \<times> int list) option" where
  "client_visit walk cols current action = (\<lambda>(distance, queue).
     let gx = current mod cols; gy = current div cols;
         (dx, dy) = kGridActionDirs ! nat action; nx = gx + dx; ny = gy + dy in
     if \<not> walk nx ny then Some (distance, queue)
     else if dx \<noteq> 0 \<and> dy \<noteq> 0 \<and> (\<not> walk (gx + dx) gy \<or> \<not> walk gx (gy + dy)) then Some (distance, queue)
     else do {
       let next_index = ny * cols + nx;
       seen \<leftarrow> vget distance next_index;
       if seen \<ge> 0 then Some (distance, queue)
       else do {
         here \<leftarrow> vget distance current;
         distance' \<leftarrow> vset distance next_index (here + 1);
         Some (distance', queue @ [next_index])
       }
     })"

partial_function (option) client_loop ::
    "(int \<Rightarrow> int \<Rightarrow> bool) \<Rightarrow> int \<Rightarrow> int \<Rightarrow> int list \<Rightarrow> int list \<Rightarrow> int option" where
  "client_loop walk cols goal distance queue =
     (case queue of [] \<Rightarrow> Some (- 1)
      | current # queue' \<Rightarrow>
          if current = goal then vget distance current
          else do {
            (distance', queue'') \<leftarrow> for_each (py_range 1 9) (client_visit walk cols current) (distance, queue');
            client_loop walk cols goal distance' queue''
          })"

declare client_loop.simps [code]

definition compute_shortest_action_steps :: "maze_env \<Rightarrow> int option" where
  "compute_shortest_action_steps e =
     (if env_cols e \<le> 0 \<or> env_rows e \<le> 0 then Some (- 1)
      else do {
        let start = snd (env_start e) * env_cols e + fst (env_start e);
        let goal = snd (env_goal e) * env_cols e + fst (env_goal e);
        distance \<leftarrow> vset (replicate (nat (env_cols e * env_rows e)) (- 1)) start 0;
        client_loop (is_walkable e) (env_cols e) goal distance [start]
      })"

section \<open>Moves on the grid\<close>

definition open_at :: "maze_env \<Rightarrow> cell \<Rightarrow> bool" where
  "open_at e c \<longleftrightarrow> is_walkable e (fst c) (snd c)"

lemma directions: "kGridActionDirs = (0, 0) # ACTION_DIRECTIONS"
  by (simp add: kGridActionDirs_def ACTION_DIRECTIONS_def)

lemma directions_actions: "ACTION_DIRECTIONS = map (\<lambda>k. kGridActionDirs ! nat k) (py_range 1 9)"
  by code_simp

lemma actions_direction: "d \<in> set ACTION_DIRECTIONS \<longleftrightarrow> (\<exists>k. 1 \<le> k \<and> k \<le> 8 \<and> d = kGridActionDirs ! nat k)"
  unfolding directions_actions by force

text \<open>An active agent on an open cell may stay, or make a legal move.\<close>

lemma available_iff:
  assumes "\<not> agent_done a" and "open_at e (agent_x a, agent_y a)"
  shows "is_action_available e a k \<longleftrightarrow>
    k = 0 \<or> 1 \<le> k \<and> k \<le> 8 \<and> legal_move (open_at e) (agent_x a, agent_y a) (kGridActionDirs ! nat k)"
proof (cases "1 \<le> k \<and> k \<le> 8")
  case True
  then show ?thesis
    using assms(1) by (auto simp: is_action_available_def legal_move_def open_at_def case_prod_beta Let_def)
next
  case False
  then show ?thesis
    using assms by (auto simp: is_action_available_def open_at_def kGridActionDirs_def)
qed

section \<open>The search agrees with the search of the generator\<close>

lemma vget_in [simp]: "0 \<le> i \<Longrightarrow> i < int (length xs) \<Longrightarrow> vget xs i = lget xs i"
  by (simp add: vget_def)

lemma vset_in [simp]: "0 \<le> i \<Longrightarrow> i < int (length xs) \<Longrightarrow> vset xs i v = lset xs i v"
  by (simp add: vset_def)

lemma for_each_map: "for_each (map g xs) f s = for_each xs (\<lambda>x. f (g x)) s"
  by (induction xs arbitrary: s) (simp_all cong: Option.bind_cong)

text \<open>Two loops whose bodies agree where an invariant holds.\<close>

lemma for_each_agree:
  assumes "I s" and "\<And>x s. x \<in> set xs \<Longrightarrow> I s \<Longrightarrow> f x s = g x s"
    and "\<And>x s s'. x \<in> set xs \<Longrightarrow> I s \<Longrightarrow> g x s = Some s' \<Longrightarrow> I s'"
  shows "for_each xs f s = for_each xs g s" and "for_each xs g s = Some s' \<Longrightarrow> I s'"
proof -
  have "for_each ys f s = for_each ys g s \<and> (\<forall>s'. for_each ys g s = Some s' \<longrightarrow> I s')" if "set ys \<subseteq> set xs" "I s" for ys s
    using that
  proof (induction ys arbitrary: s)
    case (Cons y ys)
    have y: "y \<in> set xs" "set ys \<subseteq> set xs" using Cons.prems(1) by simp_all
    show ?case
    proof (cases "g y s")
      case None
      with assms(2) [OF y(1) Cons.prems(2)] show ?thesis by simp
    next
      case (Some t)
      from Cons.IH [OF y(2) assms(3) [OF y(1) Cons.prems(2) Some]] assms(2) [OF y(1) Cons.prems(2)] Some show ?thesis by simp
    qed
  qed simp
  from this [of xs s] assms(1) have "for_each xs f s = for_each xs g s \<and> (\<forall>s'. for_each xs g s = Some s' \<longrightarrow> I s')" by simp
  then show "for_each xs f s = for_each xs g s" "for_each xs g s = Some s' \<Longrightarrow> I s'" by blast+
qed

text \<open>The table has an entry for each cell; the queue holds cells.\<close>

definition indexes :: "int \<Rightarrow> int \<Rightarrow> int \<Rightarrow> bool" where
  "indexes cols rows i \<longleftrightarrow> (\<exists>x y. in_grid cols rows x y \<and> i = cell_index cols (x, y))"

definition table_ok :: "int \<Rightarrow> int \<Rightarrow> int list \<times> int list \<Rightarrow> bool" where
  "table_ok cols rows dq \<longleftrightarrow> length (fst dq) = nat (cols * rows) \<and>
     (\<forall>i \<in> set (snd dq). indexes cols rows i)"

lemma table_index:
  "length distance = nat (cols * rows) \<Longrightarrow> in_grid cols rows x y \<Longrightarrow>
    0 \<le> cell_index cols (x, y) \<and> cell_index cols (x, y) < int (length distance)"
  using cell_index_range [of cols rows x y] by simp

lemma client_visit_agrees:
  assumes "wf_grid cols rows b" and "\<And>x y. walk x y = free_cell b cols rows (x, y)"
    and "in_grid cols rows x y" and "table_ok cols rows dq"
  shows "client_visit walk cols (cell_index cols (x, y)) k dq =
    action_visit b cols rows (cell_index cols (x, y)) (kGridActionDirs ! nat k) dq"
proof -
  obtain distance queue where dq: "dq = (distance, queue)" by (cases dq)
  obtain dx dy where d: "kGridActionDirs ! nat k = (dx, dy)" by (cases "kGridActionDirs ! nat k")
  have len: "length distance = nat (cols * rows)" using assms(4) dq by (simp add: table_ok_def)
  have next_index: "(y + dy) * cols + (x + dx) = cell_index cols (x + dx, y + dy)" by (simp add: cell_index_def)
  show ?thesis
  proof (cases "legal_move (free_cell b cols rows) (x, y) (dx, dy)")
    case True
    then have "in_grid cols rows (x + dx) (y + dy)" by (simp add: legal_move_def free_cell_def)
    note i = table_index [OF len this] table_index [OF len assms(3)]
    from True have "walk (x + dx) (y + dy)" "\<not> (dx \<noteq> 0 \<and> dy \<noteq> 0 \<and> (\<not> walk (x + dx) y \<or> \<not> walk x (y + dy)))"
      by (auto simp: assms(2) legal_move_def)
    with True i show ?thesis
      unfolding dq d action_visit_eq [OF assms(1,3)] client_visit_def prod.case cell_index_decode [OF assms(3)] Let_def next_index
      by (simp only: not_not if_True if_False simp_thms vget_in vset_in)
  next
    case False
    then show ?thesis
      unfolding dq d action_visit_eq [OF assms(1,3)] client_visit_def prod.case cell_index_decode [OF assms(3)] Let_def next_index
      by (auto simp: assms(2) legal_move_def)
  qed
qed

lemma action_visit_table:
  assumes "wf_grid cols rows b" and "in_grid cols rows x y" and "table_ok cols rows dq"
    and "action_visit b cols rows (cell_index cols (x, y)) d dq = Some dq'"
  shows "table_ok cols rows dq'"
proof -
  obtain distance queue where dq: "dq = (distance, queue)" by (cases dq)
  obtain dx dy where d: "d = (dx, dy)" by (cases d)
  show ?thesis
  proof (cases "legal_move (free_cell b cols rows) (x, y) (dx, dy)")
    case True
    then have "indexes cols rows (cell_index cols (x + dx, y + dy))"
      by (auto simp: indexes_def legal_move_def free_cell_def)
    then show ?thesis
      using assms(3,4) True unfolding dq d action_visit_eq [OF assms(1,2)]
      by (auto simp: table_ok_def lset_def split: if_splits bind_splits option.splits)
  next
    case False
    then show ?thesis using assms(3,4) unfolding dq d action_visit_eq [OF assms(1,2)] by simp
  qed
qed

text \<open>A run of the generator's loop is a run of the client's.\<close>

lemma action_loop_induct [consumes 1, case_names empty found step]:
  assumes run: "action_loop b cols rows goal distance queue = Some r"
    and empty: "\<And>distance. P distance [] (- 1)"
    and found: "\<And>distance queue r. lget distance goal = Some r \<Longrightarrow> P distance (goal # queue) r"
    and step: "\<And>distance current queue distance' queue' r. current \<noteq> goal \<Longrightarrow>
      for_each ACTION_DIRECTIONS (action_visit b cols rows current) (distance, queue) = Some (distance', queue') \<Longrightarrow>
      P distance' queue' r \<Longrightarrow> P distance (current # queue) r"
  shows "P distance queue r"
proof -
  have "b = b \<and> cols = cols \<and> rows = rows \<and> goal = goal \<longrightarrow> P distance queue r"
  proof (rule action_loop.raw_induct [where P = "\<lambda>b' c' r' g' d q k. b' = b \<and> c' = cols \<and> r' = rows \<and> g' = goal \<longrightarrow> P d q k", OF _ run])
    fix f b' c' r' g' d q k
    assume IH: "\<And>b' c' r' g' d q k. f b' c' r' g' d q = Some k \<Longrightarrow> b' = b \<and> c' = cols \<and> r' = rows \<and> g' = goal \<longrightarrow> P d q k"
      and eq: "(case q of [] \<Rightarrow> Some (- 1)
        | current # queue' \<Rightarrow>
            if current = g' then lget d current
            else do {
              (distance', queue'') \<leftarrow> for_each ACTION_DIRECTIONS (action_visit b' c' r' current) (d, queue');
              f b' c' r' g' distance' queue'' }) = Some k"
    show "b' = b \<and> c' = cols \<and> r' = rows \<and> g' = goal \<longrightarrow> P d q k"
    proof (intro impI, cases q)
      case Nil
      with eq empty show "P d q k" by simp
    next
      case (Cons current q')
      assume same: "b' = b \<and> c' = cols \<and> r' = rows \<and> g' = goal"
      show "P d q k"
      proof (cases "current = goal")
        case True
        with eq Cons same found show ?thesis by simp
      next
        case False
        with eq Cons same obtain d' q'' where n:
          "for_each ACTION_DIRECTIONS (action_visit b cols rows current) (d, q') = Some (d', q'')" "f b cols rows goal d' q'' = Some k"
          by (auto split: bind_splits)
        from step [OF False n(1)] IH [OF n(2)] Cons show ?thesis by simp
      qed
    qed
  qed
  then show ?thesis by simp
qed

lemma client_loop_agrees:
  assumes "action_loop b cols rows goal distance queue = Some r"
    and wf: "wf_grid cols rows b" and walk: "\<And>x y. walk x y = free_cell b cols rows (x, y)"
    and "table_ok cols rows (distance, queue)"
  shows "client_loop walk cols goal distance queue = Some r"
  using assms(1,4)
proof (induction rule: action_loop_induct)
  case (empty distance)
  show ?case by (simp add: client_loop.simps)
next
  case (found distance queue r)
  then obtain x y where "in_grid cols rows x y" "goal = cell_index cols (x, y)" "length distance = nat (cols * rows)"
    by (auto simp: table_ok_def indexes_def)
  with table_index [of distance cols rows x y] found.hyps show ?case by (simp add: client_loop.simps)
next
  case (step distance current queue distance' queue' r)
  then obtain x y where c: "in_grid cols rows x y" "current = cell_index cols (x, y)"
    by (auto simp: table_ok_def indexes_def)
  have start: "table_ok cols rows (distance, queue)" using step.prems by (simp add: table_ok_def)
  let ?f = "\<lambda>k. action_visit b cols rows current (kGridActionDirs ! nat k)"
  have same: "client_visit walk cols current k dq = ?f k dq" if "table_ok cols rows dq" for k dq
    using client_visit_agrees [OF wf walk c(1) that] c(2) by simp
  have kept: "table_ok cols rows dq'" if "table_ok cols rows dq" "?f k dq = Some dq'" for k dq dq'
    using action_visit_table [OF wf c(1) that(1)] that(2) c(2) by blast
  have run: "for_each (py_range 1 9) ?f (distance, queue) = Some (distance', queue')"
    using step.hyps(2) unfolding directions_actions for_each_map .
  have "for_each (py_range 1 9) (client_visit walk cols current) (distance, queue) = Some (distance', queue')"
    using for_each_agree(1) [where I = "table_ok cols rows" and f = "client_visit walk cols current" and g = ?f, OF start same kept] run
    by simp
  moreover have "table_ok cols rows (distance', queue')"
    by (rule for_each_agree(2) [where I = "table_ok cols rows" and f = ?f and g = ?f, OF start refl _ run]) (rule kept)
  ultimately show ?case using step.IH step.hyps(1) by (subst client_loop.simps) simp
qed

text \<open>\<open>e\<close> holds the cells of \<open>b\<close>.\<close>

definition holds_grid :: "maze_env \<Rightarrow> bool grid \<Rightarrow> bool" where
  "holds_grid e b \<longleftrightarrow> wf_grid (env_cols e) (env_rows e) b \<and> env_blocked e = concat b"

lemma is_walkable_grid:
  assumes "holds_grid e b"
  shows "is_walkable e x y = free_cell b (env_cols e) (env_rows e) (x, y)"
proof (cases "in_grid (env_cols e) (env_rows e) x y")
  case True
  then have xy: "0 \<le> x" "x < env_cols e" "0 \<le> y" "y < env_rows e" by (simp_all add: in_grid_def)
  then have "nat (y * env_cols e + x) = nat y * nat (env_cols e) + nat x" by (simp add: nat_add_distrib nat_mult_distrib)
  then have "env_blocked e ! nat (y * env_cols e + x) = cell_at b x y"
    using nth_concat_rows [of b "nat (env_cols e)" "nat y" "nat x"] assms xy by (auto simp: holds_grid_def wf_grid_def cell_at_def)
  then show ?thesis using True xy by (simp add: is_walkable_def free_cell_def)
qed (auto simp: is_walkable_def free_cell_def in_grid_def)

lemma client_search_result:
  assumes grid: "holds_grid e b" and "env_start e = (sx, sy)" and "env_goal e = (gx, gy)"
    and "is_walkable e sx sy" and "is_walkable e gx gy"
  shows "compute_shortest_action_steps e = shortest_action_steps b (env_cols e) (env_rows e) sx sy gx gy"
proof -
  let ?c = "env_cols e" and ?r = "env_rows e"
  have wf: "wf_grid ?c ?r b" using grid by (simp add: holds_grid_def)
  note walk = is_walkable_grid [OF grid]
  have free: "free_cell b ?c ?r (sx, sy)" "free_cell b ?c ?r (gx, gy)" using assms(4,5) walk by simp_all
  then have inside: "in_grid ?c ?r sx sy" by (simp add: free_cell_def)
  then have pos: "0 < ?c" "0 < ?r" by (auto simp: in_grid_def)
  let ?d0 = "replicate (nat (?c * ?r)) (- 1 :: int)" and ?s = "cell_index ?c (sx, sy)"
  obtain k where k: "shortest_action_steps b ?c ?r sx sy gx gy = Some k"
    using shortest_action_steps_total [OF wf] by metis
  then obtain distance where run: "lset ?d0 ?s 0 = Some distance"
    "action_loop b ?c ?r (cell_index ?c (gx, gy)) distance [?s] = Some k"
    using free wf by (auto simp: shortest_action_steps_def cell_index_def Let_def split: bind_splits if_splits)
  have "table_ok ?c ?r (distance, [?s])"
    using run(1) inside by (auto simp: table_ok_def indexes_def lset_def)
  from client_loop_agrees [OF run(2) wf walk this] have "client_loop (is_walkable e) ?c (cell_index ?c (gx, gy)) distance [?s] = Some k" .
  moreover have "vset ?d0 ?s 0 = Some distance"
    using run(1) table_index [OF _ inside, of ?d0] by simp
  ultimately show ?thesis
    using k pos assms(2,3) by (simp add: compute_shortest_action_steps_def cell_index_def)
qed

end
