(* ===== verification/MazePlay.thy ===== *)
theory MazePlay
  imports MazeEnv
begin

text \<open>
  Episodes in the environment of the client: what an action does to an agent, frames of actions, the end of an episode,
  and how the number the client computes for a map relates to the frames agents need. The rays of the observation.
\<close>

section \<open>Agents\<close>

definition position :: "agent_info \<Rightarrow> cell" where
  "position a = (agent_x a, agent_y a)"

definition agent_ok :: "maze_env \<Rightarrow> agent_info \<Rightarrow> bool" where
  "agent_ok e a \<longleftrightarrow> open_at e (position a) \<and> (agent_done a \<longleftrightarrow> agent_reason a \<noteq> Active) \<and>
     (agent_reason a = Goal_Reached \<longrightarrow> position a = env_goal e)"

definition env_ok :: "maze_env \<Rightarrow> bool" where
  "env_ok e \<longleftrightarrow> open_at e (env_start e) \<and> list_all (agent_ok e) (agents e)"

text \<open>Nothing but the agents and the frame changes.\<close>

lemma same_map [simp]:
  "is_walkable (e\<lparr>agents := xs\<rparr>) = is_walkable e" "is_walkable (e\<lparr>env_frame := n\<rparr>) = is_walkable e"
  "is_walkable (e\<lparr>env_max_steps := n\<rparr>) = is_walkable e"
  by (simp_all add: is_walkable_def fun_eq_iff)

lemma same_open [simp]:
  "open_at (e\<lparr>agents := xs\<rparr>) = open_at e" "open_at (e\<lparr>env_frame := n\<rparr>) = open_at e" "open_at (e\<lparr>env_max_steps := n\<rparr>) = open_at e"
  by (simp_all add: open_at_def fun_eq_iff)

lemma same_agent_ok [simp]:
  "agent_ok (e\<lparr>agents := xs\<rparr>) = agent_ok e" "agent_ok (e\<lparr>env_frame := n\<rparr>) = agent_ok e" "agent_ok (e\<lparr>env_max_steps := n\<rparr>) = agent_ok e"
  by (simp_all add: agent_ok_def fun_eq_iff)

text \<open>Where an action takes an agent.\<close>

definition target :: "maze_env \<Rightarrow> int \<Rightarrow> agent_info \<Rightarrow> cell" where
  "target e k a = (if is_action_available e a k
     then (agent_x a + fst (kGridActionDirs ! nat k), agent_y a + snd (kGridActionDirs ! nat k)) else position a)"

lemma move_agent_fields:
  "position (move_agent e k a) = target e k a"
  "last_move_blocked (move_agent e k a) \<longleftrightarrow> k \<noteq> 0 \<and> \<not> is_action_available e a k"
  by (auto simp: move_agent_def Let_def target_def position_def case_prod_beta)

lemma move_agent_reason:
  "agent_reason (move_agent e k a) =
    (if target e k a = env_goal e then Goal_Reached else if check_timeout e then Time_Limit else agent_reason a)"
  "agent_done (move_agent e k a) \<longleftrightarrow> target e k a = env_goal e \<or> check_timeout e \<or> agent_done a"
  by (auto simp: move_agent_def Let_def target_def position_def check_goal_reached_def case_prod_beta prod_eq_iff)

definition moved :: "maze_env \<Rightarrow> agent_info \<Rightarrow> agent_info \<Rightarrow> bool" where
  "moved e a a' \<longleftrightarrow> position a' = position a \<or> position a' \<in> set (action_moves (open_at e) (position a))"

lemma target_moves:
  assumes "agent_ok e a" and "\<not> agent_done a"
  shows "target e k a = position a \<or> target e k a \<in> set (action_moves (open_at e) (position a))"
proof (cases "is_action_available e a k")
  case True
  have "open_at e (agent_x a, agent_y a)" using assms(1) by (simp add: agent_ok_def position_def)
  from True [unfolded available_iff [OF assms(2) this]] True show ?thesis
    by (auto simp: target_def position_def kGridActionDirs_def action_moves_def actions_direction)
qed (simp add: target_def)

lemma legal_action:
  assumes "agent_ok e a" and "\<not> agent_done a" and "c \<in> set (action_moves (open_at e) (position a))"
  shows "\<exists>k. 1 \<le> k \<and> k \<le> 8 \<and> target e k a = c"
proof -
  have "open_at e (agent_x a, agent_y a)" using assms(1) by (simp add: agent_ok_def position_def)
  note iff = available_iff [OF assms(2) this]
  obtain d where d: "d \<in> set ACTION_DIRECTIONS" "legal_move (open_at e) (agent_x a, agent_y a) d"
    "c = (agent_x a + fst d, agent_y a + snd d)"
    using assms(3) by (auto simp: action_moves_def position_def)
  then obtain k where k: "1 \<le> k" "k \<le> 8" "d = kGridActionDirs ! nat k" using actions_direction by blast
  with d iff have "target e k a = c" by (simp add: target_def)
  with k show ?thesis by blast
qed

lemma move_agent_ok:
  assumes "agent_ok e a" and "\<not> agent_done a"
  shows "agent_ok e (move_agent e k a) \<and> moved e a (move_agent e k a)"
proof -
  have "open_at e (target e k a)"
    using target_moves [OF assms, of k] action_moves_free [of "target e k a" "open_at e" "position a"] assms(1)
    by (auto simp: agent_ok_def)
  moreover have "agent_reason a = Active" using assms by (simp add: agent_ok_def)
  ultimately show ?thesis
    using target_moves [OF assms, of k] assms(2) by (auto simp: agent_ok_def moved_def move_agent_fields move_agent_reason)
qed

section \<open>Frames\<close>

text \<open>The actions of one reply are executed one after the other, then the frame counter advances.\<close>

primrec run_actions :: "(int \<times> int) list \<Rightarrow> maze_env \<Rightarrow> step_error + maze_env" where
  "run_actions [] e = Inr e"
| "run_actions (act # acts) e =
     (case maze_step (fst act) (snd act) e of Inl err \<Rightarrow> Inl err | Inr e' \<Rightarrow> run_actions acts e')"

definition play_frame :: "(int \<times> int) list \<Rightarrow> maze_env \<Rightarrow> step_error + maze_env" where
  "play_frame acts e = (case run_actions acts e of Inl err \<Rightarrow> Inl err | Inr e' \<Rightarrow> Inr (advance_frame e'))"

primrec play :: "(int \<times> int) list list \<Rightarrow> maze_env \<Rightarrow> step_error + maze_env" where
  "play [] e = Inr e"
| "play (acts # frames) e = (case play_frame acts e of Inl err \<Rightarrow> Inl err | Inr e' \<Rightarrow> play frames e')"

lemma maze_step_Inr:
  "maze_step i k e = Inr e' \<longleftrightarrow>
    0 \<le> i \<and> i < int (length (agents e)) \<and> \<not> agent_done (agents e ! nat i) \<and> 0 \<le> k \<and> k \<le> 8 \<and>
    e' = e\<lparr>agents := (agents e)[nat i := move_agent e k (agents e ! nat i)]\<rparr>"
  by (auto simp: maze_step_def Let_def)

lemma env_ok_agent: "env_ok e \<Longrightarrow> i < length (agents e) \<Longrightarrow> agent_ok e (agents e ! i)"
  by (simp add: env_ok_def list_all_length)

lemma maze_step_ok:
  assumes "env_ok e" and "maze_step i k e = Inr e'"
  shows "env_ok e'"
proof -
  let ?a = "agents e ! nat i"
  from assms(2) have e': "nat i < length (agents e)" "\<not> agent_done ?a" "e' = e\<lparr>agents := (agents e)[nat i := move_agent e k ?a]\<rparr>"
    by (auto simp: maze_step_Inr)
  have "agent_ok e (move_agent e k ?a)" using move_agent_ok env_ok_agent [OF assms(1) e'(1)] e'(2) by blast
  with assms(1) e'(1,3) show ?thesis by (auto simp: env_ok_def list_all_length nth_list_update)
qed

lemma advance_frame_ok [simp]: "env_ok (advance_frame e) = env_ok e"
  by (simp add: env_ok_def advance_frame_def)

text \<open>An agent moves once in a frame, if at all.\<close>

lemma run_actions_moved:
  assumes "env_ok e" and "run_actions acts e = Inr e'" and "distinct (map fst acts)"
  shows "e' = e\<lparr>agents := agents e'\<rparr> \<and> length (agents e') = length (agents e) \<and> env_ok e' \<and>
    (\<forall>i < length (agents e). (int i \<notin> fst ` set acts \<longrightarrow> agents e' ! i = agents e ! i) \<and>
      moved e (agents e ! i) (agents e' ! i))"
  using assms
proof (induction acts arbitrary: e)
  case Nil
  then show ?case by (simp add: moved_def)
next
  case (Cons act acts)
  obtain j k where act: "act = (j, k)" by (cases act)
  from Cons.prems(2) act obtain e1 where e1: "maze_step j k e = Inr e1" "run_actions acts e1 = Inr e'"
    by (auto split: sum.splits)
  let ?a = "agents e ! nat j"
  from e1(1) have j: "0 \<le> j" "nat j < length (agents e)" "\<not> agent_done ?a"
    and e1': "e1 = e\<lparr>agents := (agents e)[nat j := move_agent e k ?a]\<rparr>"
    by (auto simp: maze_step_Inr)
  have rest: "j \<notin> fst ` set acts" "distinct (map fst acts)" using Cons.prems(3) act by auto
  note IH = Cons.IH [OF maze_step_ok [OF Cons.prems(1) e1(1)] e1(2) rest(2)]
  have mv: "moved e ?a (move_agent e k ?a)"
    using move_agent_ok [OF env_ok_agent [OF Cons.prems(1) j(2)] j(3)] by blast
  have same: "moved e1 = moved e" using e1' by (simp add: moved_def fun_eq_iff)
  have "(int i \<notin> fst ` set (act # acts) \<longrightarrow> agents e' ! i = agents e ! i) \<and> moved e (agents e ! i) (agents e' ! i)"
    if i: "i < length (agents e)" for i
  proof (cases "i = nat j")
    case True
    then have "agents e' ! i = move_agent e k ?a" using IH rest(1) e1' j(1,2) by auto
    with mv True act j(1) show ?thesis by auto
  next
    case False
    then have "agents e1 ! i = agents e ! i" using e1' by simp
    with IH i e1' act same show ?thesis by auto
  qed
  with IH e1' show ?case by simp
qed

lemma reset_ok: "open_at e (env_start e) \<Longrightarrow> env_ok (reset e)"
  by (auto simp: env_ok_def reset_def reset_agent_def agent_ok_def position_def list_all_iff)

lemma play_frame_Inr:
  assumes "env_ok e" and "play_frame acts e = Inr e'" and "distinct (map fst acts)"
  shows "e' = e\<lparr>agents := agents e', env_frame := env_frame e + 1\<rparr>" and "length (agents e') = length (agents e)" and "env_ok e'"
    and "i < length (agents e) \<Longrightarrow> moved e (agents e ! i) (agents e' ! i)"
proof -
  obtain e1 where e1: "run_actions acts e = Inr e1" "e' = advance_frame e1"
    using assms(2) by (auto simp: play_frame_def split: sum.splits)
  note r = run_actions_moved [OF assms(1) e1(1) assms(3)]
  have "e1 = e\<lparr>agents := agents e1\<rparr>" using r by blast
  then obtain xs where xs: "e1 = e\<lparr>agents := xs\<rparr>" by blast
  then have e': "e' = e\<lparr>agents := xs, env_frame := env_frame e + 1\<rparr>" using e1(2) by (simp add: advance_frame_def)
  show "env_ok e'" using r e1(2) by simp
  show "e' = e\<lparr>agents := agents e', env_frame := env_frame e + 1\<rparr>" using e' by simp
  show "length (agents e') = length (agents e)" "i < length (agents e) \<Longrightarrow> moved e (agents e ! i) (agents e' ! i)"
    using r xs e' by simp_all
qed

section \<open>No agent is faster than the shortest path\<close>

abbreviation steps_of :: "maze_env \<Rightarrow> (cell \<times> cell) set" where
  "steps_of e \<equiv> step_rel (action_moves (open_at e))"

definition soon :: "maze_env \<Rightarrow> nat \<Rightarrow> cell \<Rightarrow> bool" where
  "soon e n c \<longleftrightarrow> (\<exists>j \<le> n. (env_start e, c) \<in> steps_of e ^^ j)"

lemma soon_moved: "moved e a a' \<Longrightarrow> soon e n (position a) \<Longrightarrow> soon e (Suc n) (position a')"
  unfolding moved_def soon_def by (metis le_SucI Suc_le_mono relpow_Suc_I step_rel_def case_prodI mem_Collect_eq)

lemma play_soon:
  assumes "env_ok e" and "play frames e = Inr e'" and "\<forall>acts \<in> set frames. distinct (map fst acts)"
    and "\<forall>i < length (agents e). soon e n (position (agents e ! i))"
  shows "env_ok e' \<and> env_goal e' = env_goal e \<and> length (agents e') = length (agents e) \<and>
    (\<forall>i < length (agents e). soon e (n + length frames) (position (agents e' ! i)))"
  using assms
proof (induction frames arbitrary: e n)
  case (Cons acts frames)
  obtain e1 where e1: "play_frame acts e = Inr e1" "play frames e1 = Inr e'"
    using Cons.prems(2) by (auto split: sum.splits)
  note f = play_frame_Inr [OF Cons.prems(1) e1(1)]
  have d: "distinct (map fst acts)" using Cons.prems(3) by simp
  have eqs: "open_at e1 = open_at e" "env_start e1 = env_start e" "env_goal e1 = env_goal e"
    using arg_cong [OF f(1) [OF d], of open_at] arg_cong [OF f(1) [OF d], of env_start] arg_cong [OF f(1) [OF d], of env_goal]
    by simp_all
  have same: "soon e1 = soon e" by (intro ext) (simp only: soon_def eqs)
  note same = this eqs(3)
  have "\<forall>i < length (agents e1). soon e1 (Suc n) (position (agents e1 ! i))"
    using soon_moved f(2,4) [OF d] Cons.prems(4) same(1) by metis
  from Cons.IH [OF f(3) [OF d] e1(2) _ this] Cons.prems(3) same f(2) [OF d] show ?case by simp
qed simp

lemma reset_fields [simp]:
  "is_walkable (reset e) = is_walkable e" "open_at (reset e) = open_at e" "env_start (reset e) = env_start e"
  "env_goal (reset e) = env_goal e" "length (agents (reset e)) = length (agents e)" "env_frame (reset e) = 0"
  "env_max_steps (reset e) = env_max_steps e"
  by (simp_all add: reset_def open_at_def is_walkable_def fun_eq_iff)

lemma reset_agents: "i < length (agents e) \<Longrightarrow> agents (reset e) ! i = reset_agent e (agents e ! i)"
  by (simp add: reset_def)

section \<open>An agent that follows a shortest path\<close>

lemma shortest_Suc:
  assumes "shortest succs s t (Suc m)"
  obtains u where "u \<in> set (succs s)" "shortest succs u t m"
proof -
  obtain u where u: "(s, u) \<in> step_rel succs" "(u, t) \<in> step_rel succs ^^ m"
    using assms unfolding shortest_def by (meson relpow_Suc_D2)
  have "(u, t) \<notin> step_rel succs ^^ j" if "j < m" for j
  proof
    assume "(u, t) \<in> step_rel succs ^^ j"
    with u(1) have "(s, t) \<in> step_rel succs ^^ Suc j" by (rule relpow_Suc_I2)
    moreover have "Suc j < Suc m" using that by simp
    ultimately show False using assms unfolding shortest_def by blast
  qed
  with u that show ?thesis by (auto simp: shortest_def step_rel_def)
qed

lemma shortest_self [simp]: "shortest succs s t 0 \<longleftrightarrow> s = t"
  by (simp add: shortest_def)

text \<open>One action of an agent alone.\<close>

lemma play_frame_single:
  assumes "i < length (agents e)" and "\<not> agent_done (agents e ! i)" and "0 \<le> k" and "k \<le> 8"
  shows "play_frame [(int i, k)] e =
    Inr (e\<lparr>agents := (agents e)[i := move_agent e k (agents e ! i)], env_frame := env_frame e + 1\<rparr>)"
  using assms by (simp add: play_frame_def maze_step_def advance_frame_def)

lemma follow_shortest:
  assumes "env_ok e" and "i < length (agents e)" and "\<not> agent_done (agents e ! i)"
    and "shortest (action_moves (open_at e)) (position (agents e ! i)) (env_goal e) (Suc m)"
    and "env_frame e + int (Suc m) \<le> env_max_steps e"
  shows "\<exists>ks e'. length ks = Suc m \<and> set ks \<subseteq> {1..8} \<and> play (map (\<lambda>k. [(int i, k)]) ks) e = Inr e' \<and>
    agent_reason (agents e' ! i) = Goal_Reached \<and> env_frame e' = env_frame e + int (Suc m)"
  using assms
proof (induction m arbitrary: e)
  case (0 e)
  let ?a = "agents e ! i"
  obtain u where u: "u \<in> set (action_moves (open_at e) (position ?a))" "u = env_goal e"
    using shortest_Suc [OF 0(4)] by auto
  from legal_action [OF env_ok_agent [OF 0(1,2)] 0(3) u(1)] obtain k where k: "1 \<le> k" "k \<le> 8" "target e k ?a = u" by blast
  show ?case
    using play_frame_single [OF 0(2,3), of k] k u(2) 0(2)
    by (intro exI [of _ "[k]"]) (simp add: move_agent_reason)
next
  case (Suc m e)
  let ?a = "agents e ! i"
  obtain u where u: "u \<in> set (action_moves (open_at e) (position ?a))" "shortest (action_moves (open_at e)) u (env_goal e) (Suc m)"
    using shortest_Suc [OF Suc.prems(4)] by blast
  from legal_action [OF env_ok_agent [OF Suc.prems(1,2)] Suc.prems(3) u(1)] obtain k where k: "1 \<le> k" "k \<le> 8" "target e k ?a = u" by blast
  let ?e1 = "e\<lparr>agents := (agents e)[i := move_agent e k ?a], env_frame := env_frame e + 1\<rparr>"
  have "u \<noteq> env_goal e" using u(2) shortest_unique [of "action_moves (open_at e)" u u 0 "Suc m"] by auto
  then have active: "\<not> agent_done (move_agent e k ?a)"
    using k(3) Suc.prems(3,5) by (simp add: move_agent_reason check_timeout_def)
  have run: "play_frame [(int i, k)] e = Inr ?e1" using play_frame_single [OF Suc.prems(2,3)] k(1,2) by simp
  have "env_ok ?e1" by (rule play_frame_Inr(3) [OF Suc.prems(1) run]) simp
  then have "\<exists>ks e'. length ks = Suc m \<and> set ks \<subseteq> {1..8} \<and> play (map (\<lambda>k. [(int i, k)]) ks) ?e1 = Inr e' \<and>
      agent_reason (agents e' ! i) = Goal_Reached \<and> env_frame e' = env_frame ?e1 + int (Suc m)"
    by (rule Suc.IH) (use Suc.prems(2,5) active u(2) k(3) in \<open>simp_all add: move_agent_fields\<close>)
  then obtain ks e' where "length ks = Suc m" "set ks \<subseteq> {1..8}" "play (map (\<lambda>k. [(int i, k)]) ks) ?e1 = Inr e'"
    "agent_reason (agents e' ! i) = Goal_Reached" "env_frame e' = env_frame ?e1 + int (Suc m)" by blast
  then show ?case using run k(1,2) by (intro exI [of _ "k # ks"] exI [of _ e']) simp
qed

section \<open>The end of an episode\<close>

text \<open>A reply with an action for every active agent, and one only.\<close>

definition covers :: "maze_env \<Rightarrow> (int \<times> int) list \<Rightarrow> bool" where
  "covers e acts \<longleftrightarrow> distinct (map fst acts) \<and>
     (\<forall>i < length (agents e). \<not> agent_done (agents e ! i) \<longrightarrow> int i \<in> fst ` set acts)"

primrec complete :: "(int \<times> int) list list \<Rightarrow> maze_env \<Rightarrow> bool" where
  "complete [] e \<longleftrightarrow> True"
| "complete (acts # frames) e \<longleftrightarrow> covers e acts \<and> (case play_frame acts e of Inl err \<Rightarrow> False | Inr e' \<Rightarrow> complete frames e')"

lemma run_actions_done:
  assumes "run_actions acts e = Inr e'" and "distinct (map fst acts)" and "check_timeout e" and "i < length (agents e)"
    and "agent_done (agents e ! i) \<or> int i \<in> fst ` set acts"
  shows "agent_done (agents e' ! i)"
  using assms
proof (induction acts arbitrary: e)
  case (Cons act acts)
  obtain j k where act: "act = (j, k)" by (cases act)
  from Cons.prems(1) act obtain e1 where e1: "maze_step j k e = Inr e1" "run_actions acts e1 = Inr e'"
    by (auto split: sum.splits)
  then have j: "0 \<le> j" "nat j < length (agents e)"
    and e1': "e1 = e\<lparr>agents := (agents e)[nat j := move_agent e k (agents e ! nat j)]\<rparr>"
    by (auto simp: maze_step_Inr)
  have "check_timeout e1" using Cons.prems(3) e1' by (simp add: check_timeout_def)
  moreover have "agent_done (move_agent e k (agents e ! nat j))" using Cons.prems(3) by (simp add: move_agent_reason)
  then have "agent_done (agents e1 ! i) \<or> int i \<in> fst ` set acts"
    using Cons.prems(4,5) e1' j act by (cases "i = nat j") auto
  ultimately show ?case using Cons.IH [OF e1(2)] Cons.prems(2,4) e1' act by simp
qed simp

text \<open>After the frame that reaches the limit nobody is active.\<close>

lemma frame_at_limit:
  assumes "play_frame acts e = Inr e'" and "env_ok e" and "covers e acts" and "env_max_steps e \<le> env_frame e'"
  shows "all_done e'"
proof -
  obtain e1 where e1: "run_actions acts e = Inr e1" "e' = advance_frame e1"
    using assms(1) by (auto simp: play_frame_def split: sum.splits)
  have d: "distinct (map fst acts)" using assms(3) by (simp add: covers_def)
  note r = run_actions_moved [OF assms(2) e1(1) d]
  then obtain xs where "e1 = e\<lparr>agents := xs\<rparr>" by blast
  then have "check_timeout e" using assms(4) e1(2) by (simp add: check_timeout_def advance_frame_def)
  then have "agent_done (agents e1 ! i)" if "i < length (agents e)" for i
    using run_actions_done [OF e1(1) d _ that] assms(3) that by (auto simp: covers_def)
  then show ?thesis using r e1(2) by (simp add: all_done_def advance_frame_def list_all_length)
qed

lemma complete_play:
  assumes "complete frames e" and "env_ok e" and "env_max_steps e \<le> env_frame e \<longrightarrow> all_done e"
    and "env_max_steps e \<le> env_frame e + int (length frames)"
  shows "\<exists>e'. play frames e = Inr e' \<and> all_done e'"
  using assms
proof (induction frames arbitrary: e)
  case (Cons acts frames)
  then obtain e1 where e1: "play_frame acts e = Inr e1" "complete frames e1" and cov: "covers e acts"
    by (auto split: sum.splits)
  have d: "distinct (map fst acts)" using cov by (simp add: covers_def)
  note f = play_frame_Inr [OF Cons.prems(2) e1(1) d]
  have e1_fields: "env_max_steps e1 = env_max_steps e" "env_frame e1 = env_frame e + 1"
    using arg_cong [OF f(1), of env_max_steps] arg_cong [OF f(1), of env_frame] by simp_all
  have "env_max_steps e1 \<le> env_frame e1 \<longrightarrow> all_done e1"
    using frame_at_limit [OF e1(1) Cons.prems(2) cov] e1_fields by simp
  from Cons.IH [OF e1(2) f(3) this] e1_fields Cons.prems(4) e1(1) show ?case by simp
qed simp

section \<open>Rays\<close>

lemma length_ray_dirs: "length RAY_DIRS = 8"
  by (simp add: RAY_DIRS_def)

lemma cast_ray_spec:
  assumes "\<forall>j. 1 \<le> j \<and> j < step \<longrightarrow> is_walkable e (gx + fst d * j) (gy + snd d * j)" and "1 \<le> step"
  shows "let r = cast_ray e gx gy d n step (step - 1) in
    step - 1 \<le> r \<and> r < step + int n \<and> (\<forall>j. 1 \<le> j \<and> j \<le> r \<longrightarrow> is_walkable e (gx + fst d * j) (gy + snd d * j)) \<and>
    (r < step + int n - 1 \<longrightarrow> \<not> is_walkable e (gx + fst d * (r + 1)) (gy + snd d * (r + 1)))"
  using assms
proof (induction n arbitrary: step)
  case 0
  then show ?case by (simp add: Let_def)
next
  case (Suc n)
  show ?case
  proof (cases "is_walkable e (gx + fst d * step) (gy + snd d * step)")
    case True
    have "is_walkable e (gx + fst d * j) (gy + snd d * j)" if "1 \<le> j \<and> j < step + 1" for j
      using Suc.prems(1) True that by (cases "j = step") auto
    then have "\<forall>j. 1 \<le> j \<and> j < step + 1 \<longrightarrow> is_walkable e (gx + fst d * j) (gy + snd d * j)" by blast
    from Suc.IH [OF this] Suc.prems(2) True show ?thesis by (simp add: Let_def algebra_simps)
  next
    case False
    then show ?thesis using Suc.prems by (simp add: Let_def)
  qed
qed

section \<open>Properties\<close>

lemma open_at_grid: "holds_grid e b \<Longrightarrow> open_at e = free_cell b (env_cols e) (env_rows e)"
  by (simp add: open_at_def is_walkable_grid fun_eq_iff)

lemma client_shortest:
  assumes "holds_grid e b" and "open_at e (env_start e)" and "open_at e (env_goal e)"
  obtains k where "compute_shortest_action_steps e = Some k"
    "0 \<le> k \<and> shortest (action_moves (open_at e)) (env_start e) (env_goal e) (nat k) \<or>
     k = - 1 \<and> (env_start e, env_goal e) \<notin> (steps_of e)\<^sup>*"
proof -
  obtain sx sy gx gy where ends: "env_start e = (sx, sy)" "env_goal e = (gx, gy)" by (cases "env_start e", cases "env_goal e")
  have wf: "wf_grid (env_cols e) (env_rows e) b" using assms(1) by (simp add: holds_grid_def)
  have walk: "is_walkable e sx sy" "is_walkable e gx gy" using assms(2,3) ends by (simp_all add: open_at_def)
  show ?thesis
  proof (rule shortest_action_steps_total [OF wf, of sx sy gx gy], fold open_at_grid [OF assms(1)])
    fix k
    assume k: "shortest_action_steps b (env_cols e) (env_rows e) sx sy gx gy = Some k" "- 1 \<le> k"
      "0 \<le> k \<Longrightarrow> open_at e (sx, sy) \<and> open_at e (gx, gy) \<and> shortest (action_moves (open_at e)) (sx, sy) (gx, gy) (nat k)"
      "k = - 1 \<Longrightarrow> \<not> open_at e (sx, sy) \<or> \<not> open_at e (gx, gy) \<or> ((sx, sy), (gx, gy)) \<notin> (steps_of e)\<^sup>*"
    from k(2) have "0 \<le> k \<or> k = - 1" by arith
    with k(3,4) assms(2,3) ends
    show thesis by (intro that [of k]) (auto simp: client_search_result [OF assms(1) ends walk] k(1))
  qed
qed

lemma client_shortestD:
  assumes "holds_grid e b" and "open_at e (env_start e)" and "open_at e (env_goal e)" and "compute_shortest_action_steps e = Some k"
  shows "0 \<le> k \<Longrightarrow> shortest (action_moves (open_at e)) (env_start e) (env_goal e) (nat k)"
    and "k < 0 \<Longrightarrow> (env_start e, env_goal e) \<notin> (steps_of e)\<^sup>*"
  using client_shortest [OF assms(1-3)] assms(4) by (metis option.inject not_less zero_less_one neg_less_0_iff_less)+

text \<open>A ring of eight cells around a blocked one, with one agent.\<close>

definition sample_maze :: maze_env where
  "sample_maze = \<lparr>env_cols = 3, env_rows = 3, env_blocked = [False, False, False, False, True, False, False, False, False],
     env_start = (0, 0), env_goal = (2, 2), env_max_steps = 9, env_frame = 0,
     agents = [\<lparr>agent_x = 0, agent_y = 0, agent_done = False, last_move_blocked = False, agent_reason = Active\<rparr>],
     env_shortest = 4\<rparr>"

definition sample_ring :: "bool grid" where
  "sample_ring = [[False, False, False], [False, True, False], [False, False, False]]"

lemma sample_maze_holds: "holds_grid sample_maze sample_ring"
  by (simp add: holds_grid_def sample_maze_def sample_ring_def wf_grid_def)

lemma sample_maze_ends: "open_at sample_maze (env_start sample_maze)" "open_at sample_maze (env_goal sample_maze)"
  by (simp_all add: open_at_def is_walkable_def sample_maze_def)

lemma sample_maze_steps: "compute_shortest_action_steps sample_maze = Some 4"
  by code_simp

text \<open>C15: The search of the client gives the same number as the search of the generator, for every grid with open start
  and goal.\<close>

theorem client_search_agrees:
  assumes "holds_grid e b" and "env_start e = (sx, sy)" and "env_goal e = (gx, gy)"
    and "is_walkable e sx sy" and "is_walkable e gx gy"
  shows "compute_shortest_action_steps e = shortest_action_steps b (env_cols e) (env_rows e) sx sy gx gy"
  by (rule client_search_result [OF assms])

theorem client_search_agrees_witness:
  "compute_shortest_action_steps sample_maze = shortest_action_steps sample_ring 3 3 0 0 2 2"
  using client_search_agrees [OF sample_maze_holds, of 0 0 2 2] by (simp add: sample_maze_def is_walkable_def)

text \<open>C16: However the agents move, none of them reaches the goal in fewer frames than the number the client computes.\<close>

theorem no_agent_faster:
  assumes "holds_grid e b" and "open_at e (env_start e)" and "open_at e (env_goal e)"
    and "compute_shortest_action_steps e = Some k"
    and "play frames (reset e) = Inr e'" and "\<forall>acts \<in> set frames. distinct (map fst acts)"
    and "i < length (agents e)" and "agent_reason (agents e' ! i) = Goal_Reached"
  shows "0 \<le> k \<and> k \<le> int (length frames)"
proof -
  have start: "\<forall>i < length (agents (reset e)). soon (reset e) 0 (position (agents (reset e) ! i))"
    by (auto simp: reset_agents reset_agent_def position_def soon_def)
  note p = play_soon [OF reset_ok [OF assms(2)] assms(5,6) start]
  have "position (agents e' ! i) = env_goal e"
    using env_ok_agent [of e' i] p assms(7,8) by (simp add: agent_ok_def)
  then obtain j where j: "j \<le> length frames" "(env_start e, env_goal e) \<in> steps_of e ^^ j"
    using p assms(7) by (auto simp: soon_def)
  then have "(env_start e, env_goal e) \<in> (steps_of e)\<^sup>*" by (simp add: relpow_imp_rtrancl)
  then have "0 \<le> k" using client_shortestD(2) [OF assms(1-4)] by force
  moreover have "nat k \<le> j" using client_shortestD(1) [OF assms(1-4) \<open>0 \<le> k\<close>] j(2) by (auto simp: shortest_def not_less [symmetric])
  ultimately show ?thesis using j(1) by simp
qed

theorem no_agent_faster_witness:
  "(case play [[(0, 3)], [(0, 3)], [(0, 1)], [(0, 1)]] (reset sample_maze) of
      Inl _ \<Rightarrow> False
    | Inr e' \<Rightarrow> agent_reason (agents e' ! 0) = Goal_Reached \<and>
        (\<exists>k. compute_shortest_action_steps sample_maze = Some k \<and> 0 \<le> k \<and> k \<le> 4))"
proof -
  let ?frames = "[[(0, 3)], [(0, 3)], [(0, 1)], [(0, 1)]] :: (int \<times> int) list list"
  obtain e' where run: "play ?frames (reset sample_maze) = Inr e'" "agent_reason (agents e' ! 0) = Goal_Reached"
    by (simp add: play_frame_def maze_step_def move_agent_def is_action_available_def is_walkable_def reset_def reset_agent_def
        sample_maze_def kGridActionDirs_def check_goal_reached_def check_timeout_def advance_frame_def Let_def)
  have "0 \<le> (4 :: int) \<and> (4 :: int) \<le> int (length ?frames)"
    by (rule no_agent_faster [OF sample_maze_holds sample_maze_ends sample_maze_steps run(1) _ _ run(2)]) (simp_all add: sample_maze_def)
  with run sample_maze_steps show ?thesis by simp
qed

lemma playable:
  assumes "holds_grid e b" and "open_at e (env_start e)" and "open_at e (env_goal e)"
    and "compute_shortest_action_steps e = Some k" and "0 < k" and "k \<le> env_max_steps e" and "i < length (agents e)"
  shows "\<exists>ks e'. int (length ks) = k \<and> set ks \<subseteq> {1..8} \<and> play (map (\<lambda>a. [(int i, a)]) ks) (reset e) = Inr e' \<and>
    agent_reason (agents e' ! i) = Goal_Reached \<and> env_frame e' = k"
proof -
  obtain m where m: "nat k = Suc m" using assms(5) by (cases "nat k") auto
  have a: "\<not> agent_done (agents (reset e) ! i)" "position (agents (reset e) ! i) = env_start e"
    using assms(7) by (simp_all add: reset_agents reset_agent_def position_def)
  have "\<exists>ks e'. length ks = Suc m \<and> set ks \<subseteq> {1..8} \<and> play (map (\<lambda>a. [(int i, a)]) ks) (reset e) = Inr e' \<and>
      agent_reason (agents e' ! i) = Goal_Reached \<and> env_frame e' = env_frame (reset e) + int (Suc m)"
    using reset_ok [OF assms(2)] assms(5-7) a client_shortestD(1) [OF assms(1-4)] m by (intro follow_shortest) auto
  moreover have "k = int (Suc m)" using m assms(5) by simp
  ultimately show ?thesis by (simp only: reset_fields add_0 of_nat_eq_iff)
qed

text \<open>When the limit of frames allows it, an agent can reach the goal in exactly the number of frames the client
  computes, and never needs to stay.\<close>

theorem shortest_path_playable:
  assumes "holds_grid e b" and "open_at e (env_start e)" and "open_at e (env_goal e)"
    and "compute_shortest_action_steps e = Some k" and "0 < k" and "k \<le> env_max_steps e" and "i < length (agents e)"
  shows "\<exists>ks e'. int (length ks) = k \<and> set ks \<subseteq> {1..8} \<and> play (map (\<lambda>a. [(int i, a)]) ks) (reset e) = Inr e' \<and>
    agent_reason (agents e' ! i) = Goal_Reached \<and> env_frame e' = k"
  by (rule playable [OF assms])

theorem shortest_path_playable_witness:
  "\<exists>ks e'. int (length ks) = 4 \<and> set ks \<subseteq> {1..8} \<and> play (map (\<lambda>a. [(0, a)]) ks) (reset sample_maze) = Inr e' \<and>
    agent_reason (agents e' ! 0) = Goal_Reached \<and> env_frame e' = 4"
  using shortest_path_playable [OF sample_maze_holds sample_maze_ends sample_maze_steps, of 0] by (simp add: sample_maze_def)

text \<open>An episode whose replies hold one action for every active agent is over after the limit of frames: every action
  is accepted and every agent ends.\<close>

theorem episode_ends:
  assumes "open_at e (env_start e)" and "0 < env_max_steps e" and "complete frames (reset e)"
    and "env_max_steps e \<le> int (length frames)"
  shows "\<exists>e'. play frames (reset e) = Inr e' \<and> all_done e'"
  using complete_play [OF assms(3) reset_ok [OF assms(1)]] assms(2,4) by simp

theorem episode_ends_witness:
  "\<exists>e'. play [[(0, 2)], [(0, 0)]] (reset (set_max_steps 2 sample_maze)) = Inr e' \<and> all_done e'"
proof (rule episode_ends)
  show "complete [[(0, 2)], [(0, 0)]] (reset (set_max_steps 2 sample_maze))"
    by (simp add: covers_def play_frame_def maze_step_def move_agent_def is_action_available_def is_walkable_def reset_def
        reset_agent_def sample_maze_def kGridActionDirs_def check_goal_reached_def check_timeout_def advance_frame_def
        set_max_steps_def Let_def)
qed (simp_all add: set_max_steps_def sample_maze_def open_at_def is_walkable_def)

text \<open>The mask of an active agent holds exactly the actions that Step carries out: the others are accepted, leave the
  agent where it is and mark its move as blocked.\<close>

theorem mask_is_exact:
  assumes "env_ok e" and "i < length (agents e)" and "\<not> agent_done (agents e ! i)" and "0 \<le> k" and "k \<le> 8"
  shows "\<exists>e'. maze_step (int i) k e = Inr e' \<and>
    (get_action_mask e (int i) ! nat k \<longleftrightarrow> \<not> last_move_blocked (agents e' ! i)) \<and>
    position (agents e' ! i) = (if get_action_mask e (int i) ! nat k
      then (agent_x (agents e ! i) + fst (kGridActionDirs ! nat k), agent_y (agents e ! i) + snd (kGridActionDirs ! nat k))
      else position (agents e ! i))"
proof -
  let ?a = "agents e ! i"
  have "open_at e (agent_x ?a, agent_y ?a)"
    using env_ok_agent [OF assms(1,2)] by (simp add: agent_ok_def position_def)
  note avail = available_iff [OF assms(3) this, of k]
  have "get_action_mask e (int i) ! nat k = is_action_available e ?a k"
    using assms(2,4,5) by (simp add: get_action_mask_def nth_py_range)
  then show ?thesis
    using avail assms(2-5) by (auto simp: maze_step_Inr move_agent_fields target_def)
qed

theorem mask_is_exact_witness:
  "\<exists>e'. maze_step 0 2 sample_maze = Inr e' \<and>
    (get_action_mask sample_maze 0 ! 2 \<longleftrightarrow> \<not> last_move_blocked (agents e' ! 0)) \<and> position (agents e' ! 0) = (0, 0)"
proof -
  have "env_ok sample_maze" by (simp add: env_ok_def sample_maze_def agent_ok_def open_at_def is_walkable_def position_def)
  moreover have "get_action_mask sample_maze 0 ! 2 = False"
    by code_simp
  ultimately show ?thesis using mask_is_exact [of sample_maze 0 2] by (simp add: sample_maze_def position_def)
qed

text \<open>Whatever actions are sent, every agent stays on an open cell, ends exactly with a reason, and ends at the goal when
  that is its reason.\<close>

lemma run_actions_ok: "run_actions acts e = Inr e' \<Longrightarrow> env_ok e \<Longrightarrow> env_ok e'"
  by (induction acts arbitrary: e) (auto dest: maze_step_ok split: sum.splits)

lemma play_ok: "play frames e = Inr e' \<Longrightarrow> env_ok e \<Longrightarrow> env_ok e'"
  by (induction frames arbitrary: e) (auto simp: play_frame_def dest: run_actions_ok split: sum.splits)

theorem play_keeps_env_ok:
  assumes "open_at e (env_start e)" and "play frames (reset e) = Inr e'"
  shows "env_ok e'"
  by (rule play_ok [OF assms(2) reset_ok [OF assms(1)]])

text \<open>A ray ends at the first cell that is not walkable, or at its range.\<close>

theorem rays_exact:
  assumes "0 < max_range" and "k < 8" and "RAY_DIRS ! k = (dx, dy)"
  shows "\<exists>r. cast_rays e gx gy max_range ! k = of_int r / of_int max_range \<and> 0 \<le> r \<and> r \<le> max_range \<and>
    (\<forall>j. 1 \<le> j \<and> j \<le> r \<longrightarrow> is_walkable e (gx + dx * j) (gy + dy * j)) \<and>
    (r < max_range \<longrightarrow> \<not> is_walkable e (gx + dx * (r + 1)) (gy + dy * (r + 1)))"
proof -
  let ?r = "cast_ray e gx gy (dx, dy) (nat max_range) 1 0"
  have "cast_rays e gx gy max_range ! k = of_int ?r / of_int max_range"
    using assms(2,3) by (simp add: cast_rays_def length_ray_dirs)
  moreover have "\<forall>j. 1 \<le> j \<and> j < (1 :: int) \<longrightarrow> is_walkable e (gx + fst (dx, dy) * j) (gy + snd (dx, dy) * j)" by auto
  note cast_ray_spec [OF this, of "nat max_range"]
  ultimately show ?thesis using assms(1) by (intro exI [of _ ?r]) (simp add: Let_def)
qed

theorem rays_exact_witness:
  "cast_rays sample_maze 0 0 10 = [1 / 5, 0, 1 / 5, 0, 0, 0, 0, 0] \<and>
   (\<exists>r. cast_rays sample_maze 0 0 10 ! 0 = of_int r / 10 \<and> 0 \<le> r \<and> r \<le> 10 \<and> (r < 10 \<longrightarrow> \<not> is_walkable sample_maze 0 (r + 1)))"
proof -
  have "cast_rays sample_maze 0 0 10 = [1 / 5, 0, 1 / 5, 0, 0, 0, 0, 0]"
    by (simp add: cast_rays_def RAY_DIRS_def sample_maze_def is_walkable_def numeral_eq_Suc)
  moreover from rays_exact [of 10 0 0 1 sample_maze 0 0]
  have "\<exists>r. cast_rays sample_maze 0 0 10 ! 0 = of_int r / 10 \<and> 0 \<le> r \<and> r \<le> 10 \<and> (r < 10 \<longrightarrow> \<not> is_walkable sample_maze 0 (r + 1))"
    by (auto simp: RAY_DIRS_def)
  ultimately show ?thesis by blast
qed

end
