(* ===== verification/ClientStart.thy ===== *)
theory ClientStart
  imports MapWalls MazePlay
begin

text \<open>
  How the client starts (\<open>MazeEnv::Init\<close>): it loads the map, checks that start and goal are the cells of the positions in
  the map, that both can be walked on and that the goal can be reached, and puts its agents at the start.
\<close>

section \<open>Definitions\<close>

text \<open>The part of \<open>ClientConfig\<close> the start depends on; width, height and cell size of the configuration are always
  replaced by those of the map.\<close>

record client_config =
  cfg_map_file :: string
  agent_num :: int
  cfg_max_steps :: int
  cfg_start :: "rat \<times> rat"
  cfg_end :: "rat \<times> rat"

text \<open>\<open>ToGridX\<close> and \<open>ToGridY\<close>\<close>

definition to_grid :: "int \<Rightarrow> rat \<Rightarrow> rat \<Rightarrow> int" where
  "to_grid side extent x = max 0 (min (side - 1) \<lfloor>single (x / extent)\<rfloor>)"

definition position_cell :: "loaded_map \<Rightarrow> rat \<times> rat \<Rightarrow> cell" where
  "position_cell lm q = (to_grid (lm_cols lm) (lm_grid_size lm) (fst q), to_grid (lm_rows lm) (lm_grid_size lm) (snd q))"

definition start_agent :: "cell \<Rightarrow> agent_info" where
  "start_agent c = \<lparr>agent_x = fst c, agent_y = snd c, agent_done = False, last_move_blocked = False, agent_reason = Active\<rparr>"

definition loaded_env :: "client_config \<Rightarrow> loaded_map \<Rightarrow> maze_env" where
  "loaded_env config lm =
     \<lparr>env_cols = lm_cols lm, env_rows = lm_rows lm, env_blocked = lm_blocked lm, env_start = lm_start lm, env_goal = lm_goal lm,
      env_max_steps = cfg_max_steps config, env_frame = 0, agents = replicate (nat (agent_num config)) (start_agent (lm_start lm)),
      env_shortest = - 1\<rparr>"

text \<open>\<open>None\<close> stands for the result \<open>false\<close>; a file that cannot be opened is one without text.\<close>

definition client_init :: "(string \<Rightarrow> string option) \<Rightarrow> client_config \<Rightarrow> maze_env option" where
  "client_init read_file config =
     (if cfg_map_file config = [] \<or> agent_num config \<le> 0 then None
      else do {
        content \<leftarrow> read_file (cfg_map_file config);
        lm \<leftarrow> load_map_text content;
        let start_pos = (case lm_start_pos lm of None \<Rightarrow> cfg_start config | Some q \<Rightarrow> q);
        let end_pos = (case lm_end_pos lm of None \<Rightarrow> cfg_end config | Some q \<Rightarrow> q);
        if lm_start lm \<noteq> position_cell lm start_pos \<or> lm_goal lm \<noteq> position_cell lm end_pos then None
        else
          let e = loaded_env config lm in
          if \<not> open_at e (env_start e) \<or> \<not> open_at e (env_goal e) then None
          else do {
            computed_shortest \<leftarrow> compute_shortest_action_steps e;
            if computed_shortest \<le> 0 then None else Some (e\<lparr>env_shortest := computed_shortest\<rparr>)
          }
      })"

section \<open>The centre of a cell is found in that cell\<close>

lemma round2_error: "\<bar>round2 q - q\<bar> \<le> 1 / 200"
proof -
  have eq: "round2 q - q = (of_int (round_half_even (q * 100)) - q * 100) / 100" by (simp add: round2_def field_simps)
  show ?thesis unfolding eq abs_divide using round_half_even_error [of "q * 100"] by simp
qed

lemma round2_nonneg: "0 \<le> q \<Longrightarrow> 0 \<le> round2 q"
  by (simp add: round2_def round_half_even_def Let_def)

lemma quotient_single:
  assumes "0 \<le> x" and "0 < y"
  shows "x / y * (1 - 1 / 2 ^ 22) \<le> single (single x / single y)" and "single (single x / single y) \<le> x / y * (1 + 1 / 2 ^ 22)"
proof -
  define u :: rat where "u = 1 / 2 ^ 24"
  have u: "0 < u" "u < 1" by (simp_all add: u_def)
  have X: "x * (1 - u) \<le> single x" "single x \<le> x * (1 + u)" using single_bounds [OF assms(1)] by (simp_all add: u_def)
  have Y: "y * (1 - u) \<le> single y" "single y \<le> y * (1 + u)" using single_bounds [of y] assms(2) by (simp_all add: u_def)
  have Y0: "0 < single y" "0 < y * (1 - u)" "0 < y * (1 + u)" using assms(2) u by simp_all
  have x0: "0 \<le> single x" "0 \<le> x * (1 - u)" using assms(1) u by simp_all
  have "x * (1 - u) / (y * (1 + u)) \<le> single x / single y" using X(1) Y(2) x0 Y0 by (intro frac_le) simp_all
  then have "x / y * ((1 - u) / (1 + u)) \<le> single x / single y" by simp
  then have "x / y * ((1 - u) / (1 + u)) * (1 - u) \<le> single x / single y * (1 - u)" using u by (intro mult_right_mono) simp_all
  also have "\<dots> \<le> single (single x / single y)" using single_bounds [of "single x / single y"] x0 Y0 by (simp add: u_def)
  finally have low: "x / y * ((1 - u) / (1 + u) * (1 - u)) \<le> single (single x / single y)" by (simp add: mult.assoc)
  have "single x / single y \<le> x * (1 + u) / (y * (1 - u))" using X(2) Y(1) x0 Y0 assms(1) u by (intro frac_le) simp_all
  then have "single x / single y * (1 + u) \<le> x / y * ((1 + u) / (1 - u)) * (1 + u)" using u by (intro mult_right_mono) simp_all
  moreover have "single (single x / single y) \<le> single x / single y * (1 + u)"
    using single_bounds [of "single x / single y"] x0 Y0 by (simp add: u_def)
  ultimately have high: "single (single x / single y) \<le> x / y * ((1 + u) / (1 - u) * (1 + u))" by (simp add: mult.assoc)
  have q: "0 \<le> x / y" using assms by simp
  have "1 - 1 / 2 ^ 22 \<le> (1 - u) / (1 + u) * (1 - u)" "(1 + u) / (1 - u) * (1 + u) \<le> 1 + 1 / 2 ^ 22" by (simp_all add: u_def)
  from mult_left_mono [OF this(1) q] mult_left_mono [OF this(2) q] low high
  show "x / y * (1 - 1 / 2 ^ 22) \<le> single (single x / single y)" "single (single x / single y) \<le> x / y * (1 + 1 / 2 ^ 22)"
    by linarith+
qed

text \<open>A grid of at most \<open>2 ^ 19\<close> cells a side, each of at least a fiftieth of the number of cells.\<close>

lemma to_grid_centre:
  assumes "0 \<le> i" and "i + 2 \<le> n" and "n \<le> 2 ^ 19" and "of_int n \<le> 50 * g" and "1 / 10 \<le> g"
  shows "to_grid n (single (round2 g)) (single (centre g i)) = i"
proof -
  define c where "c = centre g i"
  define h where "h = round2 g"
  define j :: rat where "j = of_int i"
  define w :: rat where "w = 1 / 2 ^ 22"
  have j: "0 \<le> j" "j + 2 \<le> 50 * g" "j + 2 \<le> 2 ^ 19"
  proof -
    show "0 \<le> j" using assms(1) by (simp add: j_def)
    have "(of_int (i + 2) :: rat) \<le> of_int n" using assms(2) by (simp only: of_int_le_iff)
    then have "j + 2 \<le> of_int n" by (simp add: j_def)
    moreover have "(of_int n :: rat) \<le> of_int (2 ^ 19)" using assms(3) by (simp only: of_int_le_iff)
    then have "of_int n \<le> (2 ^ 19 :: rat)" by simp
    ultimately show "j + 2 \<le> 50 * g" "j + 2 \<le> 2 ^ 19" using assms(4) by linarith+
  qed
  have c: "(j + 1 / 2) * g - 1 / 200 \<le> c" "c \<le> (j + 1 / 2) * g + 1 / 200"
    using round2_error [of "(j + 1 / 2) * g"] unfolding c_def centre_def j_def [symmetric] abs_le_iff by linarith+
  have h: "g - 1 / 200 \<le> h" "h \<le> g + 1 / 200" "0 < h"
    using round2_error [of g] assms(5) unfolding h_def abs_le_iff by linarith+
  have jg: "0 \<le> j * g" using j assms(5) by simp
  have c0: "0 \<le> c" using c(1) jg assms(5) by (simp add: algebra_simps)
  have jh: "j * h \<le> j * g + j / 200" using mult_left_mono [OF h(2) j(1)] by (simp add: algebra_simps)
  have jh': "j * g - j / 200 \<le> j * h" using mult_left_mono [OF h(1) j(1)] by (simp add: algebra_simps)
  have "j * g \<le> 2 ^ 19 * g" using mult_right_mono [OF j(3), of g] assms(5) by (simp add: algebra_simps)
  moreover have "c \<le> j * g + g / 2 + 1 / 200" using c(2) by (simp add: algebra_simps)
  ultimately have "c \<le> 524288 * g + g / 2 + 1 / 200" by simp
  then have cw: "c * w \<le> g / 7" using assms(5) by (simp add: w_def)
  have "j * h \<le> c * (1 - w)" using jh c(1) cw j(2) assms(5) by (simp add: algebra_simps)
  then have low: "j \<le> c / h * (1 - w)" using h(3) by (simp add: pos_le_divide_eq)
  have "c * (1 + w) < (j + 1) * h" using jh' c(2) cw j(2) h(1) assms(5) by (simp add: algebra_simps)
  then have high: "c / h * (1 + w) < j + 1" using h(3) by (simp add: pos_divide_less_eq)
  have "j \<le> single (single c / single h)" "single (single c / single h) < j + 1"
    using quotient_single [OF c0 h(3)] low high unfolding w_def by linarith+
  then have "\<lfloor>single (single c / single h)\<rfloor> = i" unfolding j_def by (simp add: floor_eq_iff)
  then show ?thesis using assms(1,2) unfolding to_grid_def c_def h_def by simp
qed

text \<open>Cells of less than a centimetre: the size is rounded to \<open>1.00\<close>, and the last room lies one cell too low.\<close>

lemma to_grid_small_cells: "to_grid 401 (single (round2 (400 / 401))) (single (centre (400 / 401) 399)) = 398"
proof -
  have r: "round2 (400 / 401) = 1" "centre (400 / 401) 399 = 797 / 2"
    by code_simp+
  have "398 \<le> single (single (797 / 2) / single 1)" "single (single (797 / 2) / single 1) < 399"
    using quotient_single [of "797 / 2" 1] by simp_all
  then have "\<lfloor>single (single (797 / 2) / single 1)\<rfloor> = 398" by (simp add: floor_eq_iff)
  then show ?thesis by (simp add: to_grid_def r)
qed

section \<open>Two decimals\<close>

text \<open>What the client needs of the writer of floats: it writes a number of hundredths plainly, up to a bound that is far
  below the \<open>1e16\<close> from which \<open>repr\<close> writes an exponent.\<close>

definition plain_cents :: "(rat \<Rightarrow> string) \<Rightarrow> bool" where
  "plain_cents float_text \<longleftrightarrow> (\<forall>k :: int. 0 \<le> k \<and> k \<le> 10 ^ 14 \<longrightarrow> reads_back (float_text (of_int k / 100)) (of_int k / 100))"

lemma plain_round2:
  assumes "plain_cents float_text" and "0 \<le> q" and "q \<le> 10 ^ 11"
  shows "reads_back (float_text (round2 q)) (round2 q)"
proof -
  let ?k = "round_half_even (q * 100)"
  have "0 \<le> ?k" using round2_nonneg [OF assms(2)] by (simp add: round2_def)
  have "of_int ?k \<le> q * 100 + 1 / 2" using round_half_even_error [of "q * 100"] unfolding abs_le_iff by linarith
  moreover have "q * 100 + 1 / 2 \<le> of_int (10 ^ 14)" using assms(3) by simp
  ultimately have "(of_int ?k :: rat) \<le> of_int (10 ^ 14)" by (rule order_trans)
  then have "?k \<le> 10 ^ 14" by (simp only: of_int_le_iff)
  with assms(1) \<open>0 \<le> ?k\<close> show ?thesis by (simp add: plain_cents_def round2_def)
qed

text \<open>A writer that does.\<close>

definition cents_text :: "rat \<Rightarrow> string" where
  "cents_text q =
     (let k = nat (round_half_even (q * 100)) in str_nat (k div 100) @ ''.'' @ str_nat (k mod 100 div 10) @ str_nat (k mod 10))"

lemma group_two: "is_digit a \<Longrightarrow> is_digit b \<Longrightarrow> group_digits [a, b] = Some [a, b]"
  by (rule group_digits_digits) auto

lemma val_digits_two: "val_digits (w @ [a, b]) = (val_digits w * 10 + digit_val a) * 10 + digit_val b"
  by (simp add: val_digits_def)

lemma parse_cents:
  assumes w: "\<And>c. c \<in> set w \<Longrightarrow> is_digit c" "w \<noteq> []" and "is_digit a" "is_digit b"
  shows "parse_float (w @ ''.'' @ [a, b]) = Some (of_nat (val_digits (w @ [a, b])) / 100)"
    and "list_all numeric (w @ ''.'' @ [a, b])"
proof -
  let ?s = "w @ ''.'' @ [a, b]"
  have num: "numeric c" if "c \<in> set ?s" for c using that assms by (auto simp: numeric_def)
  then show "list_all numeric ?s" by (simp only: list_all_iff) blast
  have "c \<noteq> CHR ''e'' \<and> c \<noteq> CHR ''E''" if "numeric c" for c using that by (auto simp: numeric_def is_digit_def code_def)
  with num have "c \<noteq> CHR ''e'' \<and> c \<noteq> CHR ''E''" if "c \<in> set ?s" for c using that by blast
  then have e: "takeWhile (\<lambda>c. \<not> (c = CHR ''e'' \<or> c = CHR ''E'')) ?s = ?s" "dropWhile (\<lambda>c. \<not> (c = CHR ''e'' \<or> c = CHR ''E'')) ?s = []"
    by (simp_all only: takeWhile_eq_all_conv dropWhile_eq_Nil_conv) blast+
  have "CHR ''.'' \<notin> set w" using w(1) [of "CHR ''.''"] by (auto simp: is_digit_def code_def)
  then have point: "takeWhile (\<lambda>c. c \<noteq> CHR ''.'') ?s = w" "dropWhile (\<lambda>c. c \<noteq> CHR ''.'') ?s = ''.'' @ [a, b]"
    by (simp_all add: takeWhile_append dropWhile_append)
  have "parse_mantissa ?s = Some (of_nat (val_digits (w @ [a, b])) / 100)"
    unfolding parse_mantissa_def point Let_def
    using w(2) group_digits_digits [OF w(2) w(1)] group_two [OF assms(3,4)] by (simp add: digits_or_none_def numeral_2_eq_2)
  then have "parse_unsigned ?s = Some (of_nat (val_digits (w @ [a, b])) / 100)"
    unfolding parse_unsigned_def Let_def e by (simp add: scale10_def)
  moreover obtain c t where ct: "w = c # t" using w(2) by (cases w) auto
  then have "c \<noteq> CHR ''-'' \<and> c \<noteq> CHR ''+''" using w(1) [of c] by (auto simp: is_digit_def code_def)
  moreover have "strip ?s = ?s" using num by (intro strip_numeric) (simp only: list_all_iff, blast)
  ultimately show "parse_float ?s = Some (of_nat (val_digits (w @ [a, b])) / 100)"
    unfolding parse_float_def by (simp add: ct)
qed

lemma cents_text_reads_back: "0 \<le> k \<Longrightarrow> reads_back (cents_text (of_int k / 100)) (of_int k / 100)"
proof -
  assume "0 \<le> k"
  define n where "n = nat k"
  have k: "of_int k = (of_nat n :: rat)" using \<open>0 \<le> k\<close> by (simp add: n_def)
  have digit: "str_nat m = [digit_char m] \<and> is_digit (digit_char m) \<and> digit_val (digit_char m) = m" if "m < 10" for m
  proof -
    have one: "str_nat m = [digit_char m]" using that by (subst str_nat.simps) simp
    with str_nat_digits [of "digit_char m" m] val_str_nat [of m] show ?thesis by (simp only: one val_digits_def) simp
  qed
  let ?w = "str_nat (n div 100)" and ?a = "digit_char (n mod 100 div 10)" and ?b = "digit_char (n mod 10)"
  have "n mod 100 div 10 < 10" "n mod 10 < 10" by auto
  note ab = digit [OF this(1)] digit [OF this(2)]
  have w: "?w \<noteq> []" "\<And>c. c \<in> set ?w \<Longrightarrow> is_digit c" using str_nat_digits by auto
  have "round_half_even (of_int k / 100 * 100) = k" by simp
  then have written: "cents_text (of_int k / 100) = ?w @ ''.'' @ [?a, ?b]"
    using ab by (simp add: cents_text_def n_def Let_def)
  have "n mod 100 mod 10 = n mod 10" by (rule mod_mod_cancel) simp
  then have "n div 100 * 100 + n mod 100 div 10 * 10 + n mod 10 = n"
    using div_mult_mod_eq [of n 100] div_mult_mod_eq [of "n mod 100" 10] by linarith
  then have "val_digits (?w @ [?a, ?b]) = n" using ab by (simp add: val_digits_two algebra_simps)
  then show ?thesis
    using parse_cents [OF w(2,1), of ?a ?b] ab written k by (simp add: reads_back_def)
qed

lemma plain_cents_text: "plain_cents cents_text"
  by (simp add: plain_cents_def cents_text_reads_back)

end
