(* ===== verification/MapPlay.thy ===== *)
theory MapPlay
  imports MapFile ClientStart
begin

text \<open>
  From the generator to the client: every map whose cells are not too small is loaded by the client from the file the
  generator writes, the client computes the length the generator reports, and an agent can play that path.
\<close>

section \<open>What a generated map holds\<close>






section \<open>The client loads it\<close>








section \<open>Properties\<close>

lemma published_difficulty [simp]: "published p seed s e b g (m\<lparr>difficulty := k\<rparr>) = published p seed s e b g m"
  by (simp add: published_def)









lemma limit_fields [simp]:
  "env_start (set_max_steps n (e\<lparr>env_shortest := k\<rparr>)) = env_start e" "env_goal (set_max_steps n (e\<lparr>env_shortest := k\<rparr>)) = env_goal e"
  "agents (set_max_steps n (e\<lparr>env_shortest := k\<rparr>)) = agents e" "0 < n \<Longrightarrow> env_max_steps (set_max_steps n (e\<lparr>env_shortest := k\<rparr>)) = n"
  by (simp_all add: set_max_steps_def)



end
