(* ===== verification/ClientSession.thy ===== *)
theory ClientSession
  imports Prelude "HOL-Library.Word"
begin

text \<open>
  The session of the client with its server (\<open>rl_sdk/session.h\<close>): the cursor with the number of the next command, what
  a reply proves about a command, the exchange of one command with its retries, and the order of the operations of a
  session and of an episode. Sequence numbers are words of 64 bits. What the operations do is a parameter.
\<close>

section \<open>Replies\<close>

definition COMMAND_RESULT_APPLIED :: int where "COMMAND_RESULT_APPLIED = 1"
definition COMMAND_RESULT_ALREADY_APPLIED :: int where "COMMAND_RESULT_ALREADY_APPLIED = 2"
definition COMMAND_RESULT_WAIT :: int where "COMMAND_RESULT_WAIT = 3"
definition COMMAND_RESULT_REJECTED :: int where "COMMAND_RESULT_REJECTED = 4"
definition COMMAND_ERROR_CODE_UNSPECIFIED :: int where "COMMAND_ERROR_CODE_UNSPECIFIED = 0"
definition SESSION_PHASE_OPEN :: int where "SESSION_PHASE_OPEN = 1"
definition SESSION_PHASE_EPISODE_RUNNING :: int where "SESSION_PHASE_EPISODE_RUNNING = 3"
definition SESSION_PHASE_EPISODE_TERMINAL :: int where "SESSION_PHASE_EPISODE_TERMINAL = 4"
definition SESSION_PHASE_ABORTED :: int where "SESSION_PHASE_ABORTED = 7"

lemmas session_constants =
  COMMAND_RESULT_APPLIED_def COMMAND_RESULT_ALREADY_APPLIED_def COMMAND_RESULT_WAIT_def COMMAND_RESULT_REJECTED_def
  COMMAND_ERROR_CODE_UNSPECIFIED_def SESSION_PHASE_OPEN_def SESSION_PHASE_EPISODE_RUNNING_def
  SESSION_PHASE_EPISODE_TERMINAL_def SESSION_PHASE_ABORTED_def

record command_reply =
  reply_result :: int
  reply_error :: int
  applied_sequence :: "64 word"
  reply_phase :: int

record lifecycle_cursor =
  session_id :: string
  episode_id :: string
  session_epoch :: "64 word"
  next_sequence :: "64 word"
  cursor_phase :: int

record command_identity =
  command_session :: string
  command_epoch :: "64 word"
  command_sequence :: "64 word"
  command_episode :: string

definition update_cursor :: "lifecycle_cursor \<Rightarrow> command_reply \<Rightarrow> lifecycle_cursor" where
  "update_cursor c r = c\<lparr>cursor_phase := reply_phase r\<rparr>"

definition fill_command :: "lifecycle_cursor \<Rightarrow> command_identity" where
  "fill_command c = \<lparr>command_session = session_id c, command_epoch = session_epoch c, command_sequence = next_sequence c,
     command_episode = episode_id c\<rparr>"

definition has_concrete_phase :: "command_reply \<Rightarrow> bool" where
  "has_concrete_phase r \<longleftrightarrow> SESSION_PHASE_OPEN \<le> reply_phase r \<and> reply_phase r \<le> SESSION_PHASE_ABORTED"

definition command_accepted :: "command_reply \<Rightarrow> bool" where
  "command_accepted r \<longleftrightarrow>
     (reply_result r = COMMAND_RESULT_APPLIED \<or> reply_result r = COMMAND_RESULT_ALREADY_APPLIED) \<and>
     reply_error r = COMMAND_ERROR_CODE_UNSPECIFIED"

text \<open>\<open>None\<close> stands for \<open>false\<close>, which leaves the cursor as it is.\<close>

definition accept_command_reply :: "lifecycle_cursor \<Rightarrow> command_reply \<Rightarrow> lifecycle_cursor option" where
  "accept_command_reply c r =
     (let expected_sequence = next_sequence c in
      if \<not> command_accepted r \<or> applied_sequence r \<noteq> expected_sequence \<or> \<not> has_concrete_phase r then None
      else Some ((update_cursor c r)\<lparr>next_sequence := expected_sequence + 1\<rparr>))"

definition is_command_wait :: "lifecycle_cursor \<Rightarrow> command_reply \<Rightarrow> bool" where
  "is_command_wait c r \<longleftrightarrow>
     next_sequence c > 0 \<and> reply_result r = COMMAND_RESULT_WAIT \<and> reply_error r = COMMAND_ERROR_CODE_UNSPECIFIED \<and>
     applied_sequence r = next_sequence c - 1 \<and> has_concrete_phase r \<and> reply_phase r = cursor_phase c"

definition is_conclusive_rejected :: "lifecycle_cursor \<Rightarrow> command_reply \<Rightarrow> bool" where
  "is_conclusive_rejected c r \<longleftrightarrow>
     next_sequence c > 0 \<and> reply_result r = COMMAND_RESULT_REJECTED \<and> reply_error r \<noteq> COMMAND_ERROR_CODE_UNSPECIFIED \<and>
     applied_sequence r = next_sequence c - 1 \<and> has_concrete_phase r \<and> reply_phase r = cursor_phase c"

definition bind_session :: "string \<Rightarrow> 64 word \<Rightarrow> command_reply \<Rightarrow> lifecycle_cursor \<Rightarrow> lifecycle_cursor" where
  "bind_session sid epoch r c =
     update_cursor (c\<lparr>session_id := sid, session_epoch := epoch, next_sequence := applied_sequence r + 1\<rparr>) r"

definition set_episode :: "string \<Rightarrow> lifecycle_cursor \<Rightarrow> lifecycle_cursor" where
  "set_episode eid c = c\<lparr>episode_id := eid\<rparr>"

section \<open>One command\<close>

datatype command_outcome = Applied | Rejected | Unknown | Stopped | Wait_Expired

text \<open>
  What \<open>Session::Exchange\<close> is given: whether the caller wants to stop, whether the budget of time is spent, the call of
  the server (without a reply when the transport fails), the delay a reply asks for, the reply in a response, the check of
  the payload, and the sleep. The world \<open>'w\<close> holds whatever they look at and change.
\<close>

record ('q, 'r, 'w) link =
  stopped_now :: "'w \<Rightarrow> bool"
  budget_spent :: "'w \<Rightarrow> bool"
  invoke :: "'q \<Rightarrow> 'w \<Rightarrow> 'r option \<times> 'w"
  wait_delay :: "'r \<Rightarrow> int"
  response_reply :: "'r \<Rightarrow> command_reply"
  payload_ok :: "'q \<Rightarrow> 'r \<Rightarrow> bool"
  sleep_for :: "int \<Rightarrow> 'w \<Rightarrow> 'w"

text \<open>What a response that is no proper \<open>WAIT\<close> leads to.\<close>

definition judge :: "('q, 'r, 'w) link \<Rightarrow> 'q \<Rightarrow> lifecycle_cursor \<Rightarrow> 'r \<Rightarrow> command_outcome \<times> lifecycle_cursor" where
  "judge l q c r =
     (let refused = (if is_conclusive_rejected c (response_reply l r) then Rejected else Unknown, c) in
      if wait_delay l r = 0 \<and> payload_ok l q r
      then (case accept_command_reply c (response_reply l r) of Some c' \<Rightarrow> (Applied, c') | None \<Rightarrow> refused)
      else refused)"

partial_function (option) exchange ::
    "('q, 'r, 'w) link \<Rightarrow> 'q \<Rightarrow> lifecycle_cursor \<times> 'w \<Rightarrow> (command_outcome \<times> 'r option \<times> lifecycle_cursor \<times> 'w) option" where
  "exchange l q s =
     (let (c, w) = s in
      if stopped_now l w then Some (Stopped, None, c, w)
      else if budget_spent l w then Some (Wait_Expired, None, c, w)
      else case invoke l q w of
          (None, w') \<Rightarrow> Some (Unknown, None, c, w')
        | (Some r, w') \<Rightarrow>
            if wait_delay l r > 0 \<and> is_command_wait c (response_reply l r)
            then exchange l q (c, sleep_for l (wait_delay l r) w')
            else let (result, c') = judge l q c r in Some (result, Some r, c', w'))"

declare exchange.simps [code]

section \<open>The order of operations\<close>

text \<open>\<open>RunEpisode\<close>: the state is reported, then checked for its end, then moved on. \<open>observe\<close> and \<open>exchange\<close> of the code
  are one operation here.\<close>

partial_function (option) run_episode ::
    "('s \<Rightarrow> bool) \<Rightarrow> ('s \<Rightarrow> bool) \<Rightarrow> ('s \<Rightarrow> (command_outcome \<times> 's) option) \<Rightarrow> ('s \<Rightarrow> 's option) \<Rightarrow> 's \<Rightarrow>
     (command_outcome \<times> 's) option" where
  "run_episode stopped terminal report apply_reply s =
     (if stopped s then Some (Stopped, s)
      else
        let final_result = terminal s in do {
          (result, s') \<leftarrow> report s;
          if result \<noteq> Applied then Some (result, s')
          else if final_result then Some (Applied, s')
          else case apply_reply s' of
              None \<Rightarrow> Some (Rejected, s')
            | Some s'' \<Rightarrow> run_episode stopped terminal report apply_reply s''
        })"

declare run_episode.simps [code]

text \<open>The operations of a session.\<close>

record 's binding =
  b_open :: "'s \<Rightarrow> command_outcome \<times> 's"
  b_initialize :: "'s \<Rightarrow> command_outcome \<times> 's"
  b_begin :: "'s \<Rightarrow> command_outcome \<times> 's"
  b_episode :: "'s \<Rightarrow> command_outcome \<times> 's"
  b_end :: "'s \<Rightarrow> command_outcome \<times> 's"
  b_abort :: "'s \<Rightarrow> command_outcome \<times> 's"
  b_close :: "'s \<Rightarrow> command_outcome \<times> 's"
  b_active :: "'s \<Rightarrow> bool"
  b_can_close :: "'s \<Rightarrow> bool"
  b_complete :: "'s \<Rightarrow> bool"
  b_stopped :: "'s \<Rightarrow> bool"

text \<open>The lambda \<open>finish\<close> of \<open>RunSession\<close>, in two parts.\<close>

definition finish_close :: "'s binding \<Rightarrow> command_outcome \<Rightarrow> bool \<Rightarrow> 's \<Rightarrow> command_outcome \<times> 's" where
  "finish_close b outcome failed s =
     (if b_can_close b s then
        let (closed, s') = b_close b s in
        if closed \<noteq> Applied then (if failed then outcome else closed, s') else (outcome, s')
      else (outcome, s))"

definition finish :: "'s binding \<Rightarrow> command_outcome \<Rightarrow> 's \<Rightarrow> command_outcome \<times> 's" where
  "finish b outcome s =
     (if outcome = Unknown then (outcome, s)
      else
        let failed = (outcome = Rejected \<or> outcome = Wait_Expired) in
        if b_active b s then
          let (aborted, s') = b_abort b s in
          if aborted \<noteq> Applied then (if failed then outcome else aborted, s') else finish_close b outcome failed s'
        else finish_close b outcome failed s)"

partial_function (option) session_loop :: "'s binding \<Rightarrow> 's \<Rightarrow> (command_outcome \<times> 's) option" where
  "session_loop b s =
     (if b_stopped b s then Some (finish b Stopped s)
      else
        let (begun, s1) = b_begin b s in
        if begun \<noteq> Applied then Some (finish b begun s1)
        else if b_complete b s1 then Some (finish b Applied s1)
        else
          let (played, s2) = b_episode b s1 in
          if played \<noteq> Applied then Some (finish b played s2)
          else
            let (ended, s3) = b_end b s2 in
            if ended \<noteq> Applied then Some (finish b ended s3) else session_loop b s3)"

declare session_loop.simps [code]

definition run_session :: "'s binding \<Rightarrow> 's \<Rightarrow> (command_outcome \<times> 's) option" where
  "run_session b s =
     (let (opened, s1) = b_open b s in
      if opened \<noteq> Applied then Some (opened, s1)
      else
        let (initialized, s2) = b_initialize b s1 in
        if initialized \<noteq> Applied then Some (finish b initialized s2) else session_loop b s2)"

section \<open>An exchange\<close>

text \<open>What an exchange may end with: the cursor moves exactly when the reply is accepted and its payload is.\<close>

definition exchange_fine :: "('q, 'r, 'w) link \<Rightarrow> 'q \<Rightarrow> lifecycle_cursor \<Rightarrow> command_outcome \<times> 'r option \<times> lifecycle_cursor \<times> 'w \<Rightarrow> bool" where
  "exchange_fine l q c = (\<lambda>(result, r, c', w').
     if result = Applied then
       (\<exists>rsp. r = Some rsp \<and> payload_ok l q rsp \<and> wait_delay l rsp = 0 \<and> accept_command_reply c (response_reply l rsp) = Some c')
     else c' = c \<and> (result = Rejected \<longrightarrow> (\<exists>rsp. r = Some rsp \<and> is_conclusive_rejected c (response_reply l rsp))))"

lemma judge_fine: "judge l q c r = (result, c') \<Longrightarrow> exchange_fine l q c (result, Some r, c', w')"
  by (auto simp: judge_def exchange_fine_def Let_def split: if_splits option.splits)

lemma exchange_result:
  fixes l :: "('q, 'r, 'w) link"
  assumes "exchange l q (c, w) = Some res"
  shows "exchange_fine l q c res"
proof -
  have "exchange_fine l q (fst (c, w)) res"
  proof (rule exchange.raw_induct [where P = "\<lambda>l q s res. exchange_fine l q (fst s) res", OF _ assms])
    fix f and l :: "('q, 'r, 'w) link" and q s res
    assume IH: "\<And>(l :: ('q, 'r, 'w) link) q s res. f l q s = Some res \<Longrightarrow> exchange_fine l q (fst s) res"
      and eq: "(let (c, w) = s in
        if stopped_now l w then Some (Stopped, None, c, w)
        else if budget_spent l w then Some (Wait_Expired, None, c, w)
        else case invoke l q w of
            (None, w') \<Rightarrow> Some (Unknown, None, c, w')
          | (Some r, w') \<Rightarrow>
              if wait_delay l r > 0 \<and> is_command_wait c (response_reply l r)
              then f l q (c, sleep_for l (wait_delay l r) w')
              else let (result, c') = judge l q c r in Some (result, Some r, c', w')) = Some res"
    obtain c w where s: "s = (c, w)" by (cases s)
    have "exchange_fine l q c (Stopped, None, c, w)" "exchange_fine l q c (Wait_Expired, None, c, w)"
      "exchange_fine l q c (Unknown, None, c, w')" for w'
      by (simp_all add: exchange_fine_def)
    then show "exchange_fine l q (fst s) res"
      using eq IH [of l q "(c, w')" for w'] judge_fine [of l q c]
      by (auto simp: s split: if_splits prod.splits option.splits)
  qed
  then show ?thesis by simp
qed

text \<open>An exchange ends when the server lets the client wait only finitely often: \<open>n\<close> bounds the number of replies to come
  that ask to wait.\<close>

primrec waits :: "('q, 'r, 'w) link \<Rightarrow> 'q \<Rightarrow> lifecycle_cursor \<Rightarrow> nat \<Rightarrow> 'w \<Rightarrow> bool" where
  "waits l q c 0 w = False"
| "waits l q c (Suc n) w =
     (case invoke l q w of
        (None, w') \<Rightarrow> True
      | (Some r, w') \<Rightarrow> \<not> (wait_delay l r > 0 \<and> is_command_wait c (response_reply l r)) \<or>
          waits l q c n (sleep_for l (wait_delay l r) w'))"

lemma exchange_returns: "waits l q c n w \<Longrightarrow> \<exists>res. exchange l q (c, w) = Some res"
proof (induction n arbitrary: w)
  case (Suc n)
  then show ?case by (subst exchange.simps) (auto simp: Let_def split: prod.splits option.splits)
qed simp

section \<open>An episode\<close>

text \<open>What holds of an episode that has returned.\<close>

lemma run_episode_rule:
  fixes stopped :: "'s \<Rightarrow> bool"
  assumes run: "run_episode stopped terminal report apply_reply s = Some (result, s')" and "I s"
    and stop: "\<And>s. I s \<Longrightarrow> stopped s \<Longrightarrow> Q Stopped s"
    and refused: "\<And>s r s1. I s \<Longrightarrow> report s = Some (r, s1) \<Longrightarrow> r \<noteq> Applied \<Longrightarrow> Q r s1"
    and final: "\<And>s s1. I s \<Longrightarrow> report s = Some (Applied, s1) \<Longrightarrow> terminal s \<Longrightarrow> Q Applied s1"
    and failed: "\<And>s s1. I s \<Longrightarrow> report s = Some (Applied, s1) \<Longrightarrow> \<not> terminal s \<Longrightarrow> apply_reply s1 = None \<Longrightarrow> Q Rejected s1"
    and step: "\<And>s s1 s2. I s \<Longrightarrow> report s = Some (Applied, s1) \<Longrightarrow> \<not> terminal s \<Longrightarrow> apply_reply s1 = Some s2 \<Longrightarrow> I s2"
  shows "Q result s'"
proof -
  let ?fixed = "\<lambda>st te re ap. st = stopped \<and> te = terminal \<and> re = report \<and> ap = apply_reply"
  have "?fixed stopped terminal report apply_reply \<longrightarrow> I s \<longrightarrow> Q (fst (result, s')) (snd (result, s'))"
  proof (rule run_episode.raw_induct [where P = "\<lambda>st te re ap s res. ?fixed st te re ap \<longrightarrow> I s \<longrightarrow> Q (fst res) (snd res)", OF _ run])
    fix f st te re ap s and res :: "command_outcome \<times> 's"
    assume IH: "\<And>st te re ap s res. f st te re ap s = Some res \<Longrightarrow> ?fixed st te re ap \<longrightarrow> I s \<longrightarrow> Q (fst res) (snd res)"
      and eq: "(if st s then Some (Stopped, s)
        else
          let final_result = te s in do {
            (result, s') \<leftarrow> re s;
            if result \<noteq> Applied then Some (result, s')
            else if final_result then Some (Applied, s')
            else case ap s' of None \<Rightarrow> Some (Rejected, s') | Some s'' \<Rightarrow> f st te re ap s''
          }) = Some res"
    show "?fixed st te re ap \<longrightarrow> I s \<longrightarrow> Q (fst res) (snd res)"
    proof (intro impI)
      assume fixed: "?fixed st te re ap" and "I s"
      then have eqs: "st = stopped" "te = terminal" "re = report" "ap = apply_reply" by simp_all
      show "Q (fst res) (snd res)"
      proof (cases "stopped s")
        case True
        with eq fixed stop [OF \<open>I s\<close>] show ?thesis by auto
      next
        case False
        with eq fixed obtain r s1 where rep: "report s = Some (r, s1)" by (cases "report s") auto
        from False eq fixed rep have rest: "(if r \<noteq> Applied then Some (r, s1) else if terminal s then Some (Applied, s1)
            else case apply_reply s1 of None \<Rightarrow> Some (Rejected, s1) | Some s'' \<Rightarrow> f st te re ap s'') = Some res"
          unfolding eqs by simp
        consider "r \<noteq> Applied" | "r = Applied" "terminal s" | "r = Applied" "\<not> terminal s" "apply_reply s1 = None"
          | s2 where "r = Applied" "\<not> terminal s" "apply_reply s1 = Some s2"
          by (cases "apply_reply s1") auto
        then show ?thesis
        proof cases
          case 4
          with rest have "f st te re ap s2 = Some res" by simp
          from IH [OF this] fixed step [OF \<open>I s\<close> rep [unfolded 4(1)] 4(2,3)] show ?thesis by blast
        qed (use rest rep refused [OF \<open>I s\<close>] final [OF \<open>I s\<close>] failed [OF \<open>I s\<close>] in auto)
      qed
    qed
  qed
  with \<open>I s\<close> show ?thesis by simp
qed

text \<open>An episode returns when every report does and something decreases.\<close>

lemma run_episode_returns:
  fixes m :: "'s \<Rightarrow> nat"
  assumes "I s" and total: "\<And>s. I s \<Longrightarrow> \<exists>r s1. report s = Some (r, s1)"
    and step: "\<And>s s1 s2. I s \<Longrightarrow> report s = Some (Applied, s1) \<Longrightarrow> \<not> terminal s \<Longrightarrow> apply_reply s1 = Some s2 \<Longrightarrow> I s2 \<and> m s2 < m s"
  shows "\<exists>res. run_episode stopped terminal report apply_reply s = Some res"
  using assms(1)
proof (induction "m s" arbitrary: s rule: less_induct)
  case less
  obtain r s1 where rep: "report s = Some (r, s1)" using total [OF less.prems] by blast
  show ?case
  proof (cases "r = Applied \<and> \<not> terminal s \<and> \<not> stopped s")
    case True
    then show ?thesis
      using rep step [OF less.prems] less.hyps by (subst run_episode.simps) (auto split: option.splits)
  next
    case False
    then show ?thesis using rep by (subst run_episode.simps) auto
  qed
qed

section \<open>A session\<close>

definition operations :: "'s binding \<Rightarrow> ('s \<Rightarrow> command_outcome \<times> 's) set" where
  "operations b = {b_open b, b_initialize b, b_begin b, b_episode b, b_end b, b_abort b, b_close b}"

text \<open>The last thing that has happened is an operation with the outcome \<open>Unknown\<close>.\<close>

definition left_unknown :: "'s binding \<Rightarrow> 's \<Rightarrow> bool" where
  "left_unknown b s' \<longleftrightarrow> (\<exists>operate \<in> operations b. \<exists>s. operate s = (Unknown, s'))"

lemma left_unknownI: "operate s = (Unknown, s') \<Longrightarrow> operate \<in> operations b \<Longrightarrow> left_unknown b s'"
  unfolding left_unknown_def by blast

lemma operations_in [simp]:
  "b_open b \<in> operations b" "b_initialize b \<in> operations b" "b_begin b \<in> operations b" "b_episode b \<in> operations b"
  "b_end b \<in> operations b" "b_abort b \<in> operations b" "b_close b \<in> operations b"
  by (simp_all add: operations_def)

lemma finish_unknown:
  assumes "finish b outcome s = (Unknown, s')" and "outcome = Unknown \<Longrightarrow> left_unknown b s"
  shows "left_unknown b s'"
proof (cases "outcome = Unknown")
  case True
  with assms show ?thesis by (simp add: finish_def)
next
  case False
  have close: "left_unknown b s'" if "finish_close b outcome failed t = (Unknown, s')" for failed t
    using that False left_unknownI [of "b_close b" t s' b] by (auto simp: finish_close_def split: if_splits prod.splits)
  show ?thesis
    using assms(1) False left_unknownI [of "b_abort b" s s' b] close
    by (auto simp: finish_def Let_def split: if_splits prod.splits)
qed

text \<open>Behind any operation, and behind none.\<close>

lemma finish_after:
  assumes "operate \<in> operations b" and "operate s0 = (outcome, s)" and "finish b outcome s = (Unknown, s')"
  shows "left_unknown b s'"
proof (rule finish_unknown [OF assms(3)])
  assume "outcome = Unknown"
  with assms(2) have "operate s0 = (Unknown, s)" by simp
  from left_unknownI [OF this assms(1)] show "left_unknown b s" .
qed

lemmas finish_behind = finish_after [OF operations_in(2)] finish_after [OF operations_in(3)] finish_after [OF operations_in(4)]
  finish_after [OF operations_in(5)]

lemma finish_known: "finish b outcome s = (Unknown, s') \<Longrightarrow> outcome \<noteq> Unknown \<Longrightarrow> left_unknown b s'"
  by (erule finish_unknown) simp

lemma session_loop_unknown:
  assumes "session_loop b s = Some (outcome, s')" and "outcome = Unknown"
  shows "left_unknown b s'"
proof -
  have "fst (outcome, s') = Unknown \<longrightarrow> left_unknown b (snd (outcome, s'))"
  proof (rule session_loop.raw_induct [where P = "\<lambda>b s res. fst res = Unknown \<longrightarrow> left_unknown b (snd res)", OF _ assms(1)])
    fix f and b :: "'a binding" and s res
    assume IH: "\<And>(b :: 'a binding) s res. f b s = Some res \<Longrightarrow> fst res = Unknown \<longrightarrow> left_unknown b (snd res)"
      and eq: "(if b_stopped b s then Some (finish b Stopped s)
        else
          let (begun, s1) = b_begin b s in
          if begun \<noteq> Applied then Some (finish b begun s1)
          else if b_complete b s1 then Some (finish b Applied s1)
          else
            let (played, s2) = b_episode b s1 in
            if played \<noteq> Applied then Some (finish b played s2)
            else
              let (ended, s3) = b_end b s2 in
              if ended \<noteq> Applied then Some (finish b ended s3) else f b s3) = Some res"
    show "fst res = Unknown \<longrightarrow> left_unknown b (snd res)"
    proof
      assume "fst res = Unknown"
      then obtain s' where res: "res = (Unknown, s')" by (cases res) simp
      show "left_unknown b (snd res)"
        using eq IH [of b _ res]
        by (auto simp: res Let_def dest: finish_behind finish_known split: if_splits prod.splits)
    qed
  qed
  with assms(2) show ?thesis by simp
qed

section \<open>Properties\<close>

text \<open>C13: An exchange moves the cursor by exactly one command, and only when the server has proved, for this very sequence
  number and with a payload that is accepted, that the command is applied; whatever else happens, the cursor stays.\<close>

theorem command_committed_once:
  assumes "exchange l q (c, w) = Some (result, r, c', w')"
  shows "if result = Applied
    then next_sequence c' = next_sequence c + 1 \<and>
      (\<exists>rsp. r = Some rsp \<and> payload_ok l q rsp \<and> command_accepted (response_reply l rsp) \<and>
        applied_sequence (response_reply l rsp) = next_sequence c \<and> cursor_phase c' = reply_phase (response_reply l rsp))
    else c' = c"
  using exchange_result [OF assms]
  by (auto simp: exchange_fine_def accept_command_reply_def update_cursor_def Let_def split: if_splits)

text \<open>A server that lets the client wait once.\<close>

definition sample_cursor :: lifecycle_cursor where
  "sample_cursor = \<lparr>session_id = ''s'', episode_id = ''e'', session_epoch = 1, next_sequence = 7, cursor_phase = 3\<rparr>"

definition sample_link :: "(unit, command_reply, nat) link" where
  "sample_link = \<lparr>stopped_now = (\<lambda>_. False), budget_spent = (\<lambda>_. False),
     invoke = (\<lambda>_ n. (Some (if n = 0 then \<lparr>reply_result = 3, reply_error = 0, applied_sequence = 6, reply_phase = 3\<rparr>
       else \<lparr>reply_result = 1, reply_error = 0, applied_sequence = 7, reply_phase = 4\<rparr>), Suc n)),
     wait_delay = (\<lambda>r. if reply_result r = 3 then 100 else 0), response_reply = (\<lambda>r. r), payload_ok = (\<lambda>_ _. True),
     sleep_for = (\<lambda>_ n. n)\<rparr>"

lemma sample_exchange:
  "exchange sample_link () (sample_cursor, 0) =
    Some (Applied, Some \<lparr>reply_result = 1, reply_error = 0, applied_sequence = 7, reply_phase = 4\<rparr>,
      sample_cursor\<lparr>next_sequence := 8, cursor_phase := 4\<rparr>, 2)"
  by (simp add: exchange.simps sample_link_def sample_cursor_def is_command_wait_def judge_def accept_command_reply_def
      command_accepted_def has_concrete_phase_def update_cursor_def session_constants Let_def)

theorem command_committed_once_witness:
  "\<exists>c' w'. exchange sample_link () (sample_cursor, 0) =
    Some (Applied, Some \<lparr>reply_result = 1, reply_error = 0, applied_sequence = 7, reply_phase = 4\<rparr>, c', w') \<and>
    next_sequence c' = next_sequence sample_cursor + 1 \<and> w' = 2"
  using command_committed_once [OF sample_exchange] sample_exchange by simp

text \<open>C27: A session whose outcome is unknown has ended right behind the operation that left it unknown: the client neither
  aborts nor closes, and tries no other command in its place.\<close>

theorem unknown_ends_session:
  assumes "run_session b s = Some (Unknown, s')"
  shows "\<exists>operate \<in> operations b. \<exists>s1. operate s1 = (Unknown, s')"
proof -
  have "left_unknown b s'"
    using assms left_unknownI [of "b_open b" _ _ b] session_loop_unknown [of b _ Unknown s']
    by (auto simp: run_session_def Let_def dest: finish_behind split: if_splits prod.splits)
  then show ?thesis by (simp add: left_unknown_def)
qed

definition sample_binding :: "nat binding" where
  "sample_binding = \<lparr>b_open = (\<lambda>n. (Applied, n + 1)), b_initialize = (\<lambda>n. (Applied, n + 1)), b_begin = (\<lambda>n. (Applied, n + 1)),
     b_episode = (\<lambda>n. (Unknown, n + 10)), b_end = (\<lambda>n. (Applied, n + 1)), b_abort = (\<lambda>n. (Applied, n + 100)),
     b_close = (\<lambda>n. (Applied, n + 100)), b_active = (\<lambda>_. True), b_can_close = (\<lambda>_. True), b_complete = (\<lambda>_. False),
     b_stopped = (\<lambda>_. False)\<rparr>"

lemma sample_session: "run_session sample_binding 0 = Some (Unknown, 13)"
proof -
  have "session_loop sample_binding 2 = Some (Unknown, 13)"
    by (subst session_loop.simps) (simp add: sample_binding_def finish_def)
  moreover have "b_open sample_binding 0 = (Applied, 1)" "b_initialize sample_binding 1 = (Applied, 2)"
    by (simp_all add: sample_binding_def)
  ultimately show ?thesis by (simp add: run_session_def)
qed

theorem unknown_ends_session_witness:
  "run_session sample_binding 0 = Some (Unknown, 13) \<and> (\<exists>operate \<in> operations sample_binding. \<exists>s1. operate s1 = (Unknown, 13))"
  using unknown_ends_session [OF sample_session] sample_session by blast

end
