(* ===== verification/ClientEpisode.thy ===== *)
theory ClientEpisode
  imports MazePlay ClientSession
begin

text \<open>
  An episode of the client against its server (\<open>action_receipt.h\<close>, and \<open>RunEpisode\<close> of \<open>client_adapter.cpp\<close>): each round
  reports the agents with a receipt of the action they have executed, takes the actions of the reply when the whole reply
  fits the report, and executes them. The server is a parameter.
\<close>

section \<open>Messages\<close>

record execution_cursor =
  retired :: bool
  last_executed :: "int option"

record agent_state =
  state_id :: nat
  state_cell :: cell
  state_done :: bool
  state_reason :: termination_reason
  state_blocked :: bool
  state_mask :: "bool list"
  state_executed :: "int option"

record update_req =
  req_frame :: int
  req_agents :: "agent_state list"

datatype update_control = No_Control | Action_Batch "(nat \<times> int) list" | Wait_Control int

record update_rsp =
  rsp_reply :: command_reply
  rsp_control :: update_control

section \<open>Receipts\<close>

definition is_maze_action :: "int \<Rightarrow> bool" where
  "is_maze_action k \<longleftrightarrow> 0 \<le> k \<and> k \<le> 8"

definition active_agent_count :: "execution_cursor list \<Rightarrow> nat" where
  "active_agent_count cs = length (filter (\<lambda>c. \<not> retired c) cs)"

definition attach_receipt :: "int \<Rightarrow> execution_cursor \<Rightarrow> agent_state \<Rightarrow> agent_state option" where
  "attach_receipt frame c st =
     (if retired c then None
      else if frame = 0 then (if last_executed c = None then Some st else None)
      else case last_executed c of
          None \<Rightarrow> None
        | Some k \<Rightarrow> if is_maze_action k then Some (st\<lparr>state_executed := Some k\<rparr>) else None)"

definition record_executed :: "execution_cursor \<Rightarrow> int \<Rightarrow> execution_cursor option" where
  "record_executed c k =
     (if retired c \<or> last_executed c \<noteq> None \<or> \<not> is_maze_action k then None else Some (c\<lparr>last_executed := Some k\<rparr>))"

text \<open>The environment has taken the step before the receipt is recorded; \<open>None\<close> ends the episode.\<close>

definition execute_assigned ::
    "maze_env \<times> execution_cursor list \<Rightarrow> nat \<times> int \<Rightarrow> (maze_env \<times> execution_cursor list) option" where
  "execute_assigned s act =
     (case maze_step (int (fst act)) (snd act) (fst s) of
        Inl err \<Rightarrow> None
      | Inr e \<Rightarrow> map_option (\<lambda>c. (e, (snd s)[fst act := c])) (record_executed (snd s ! fst act) (snd act)))"

section \<open>The check of a reply\<close>

definition receipt_matches :: "int \<Rightarrow> agent_state \<Rightarrow> execution_cursor \<Rightarrow> bool" where
  "receipt_matches frame st c \<longleftrightarrow>
     (if frame = 0 then state_executed st = None \<and> last_executed c = None
      else case (state_executed st, last_executed c) of
          (Some k, Some l) \<Rightarrow> is_maze_action k \<and> k = l
        | _ \<Rightarrow> False)"

text \<open>The loop over the reported agents: each once and not retired, with its receipt; the result is who gets an action.\<close>

primrec check_states ::
    "int \<Rightarrow> execution_cursor list \<Rightarrow> agent_state list \<Rightarrow> nat list \<Rightarrow> nat list \<Rightarrow> nat list option" where
  "check_states frame current [] reported expected = Some expected"
| "check_states frame current (st # sts) reported expected =
     (let i = state_id st in
      if i \<ge> length current \<or> retired (current ! i) \<or> i \<in> set reported then None
      else if \<not> receipt_matches frame st (current ! i) then None
      else check_states frame current sts (i # reported) (if state_done st then expected else i # expected))"

text \<open>The first report of the agent with a mask decides.\<close>

definition mask_allows :: "agent_state list \<Rightarrow> nat \<times> int \<Rightarrow> bool" where
  "mask_allows sts act =
     (case find (\<lambda>st. state_id st = fst act \<and> state_mask st \<noteq> []) sts of
        None \<Rightarrow> True
      | Some st \<Rightarrow> nat (snd act) < length (state_mask st) \<and> state_mask st ! nat (snd act))"

primrec check_actions :: "agent_state list \<Rightarrow> nat list \<Rightarrow> (nat \<times> int) list \<Rightarrow> nat list \<Rightarrow> bool" where
  "check_actions sts expected [] returned = True"
| "check_actions sts expected (act # acts) returned =
     (if \<not> is_maze_action (snd act) \<or> fst act \<notin> set expected \<or> fst act \<in> set returned then False
      else if \<not> mask_allows sts act then False
      else check_actions sts expected acts (fst act # returned))"

definition commit_state :: "agent_state \<Rightarrow> execution_cursor list \<Rightarrow> execution_cursor list" where
  "commit_state st cs = cs[state_id st := (cs ! state_id st)\<lparr>last_executed := None,
     retired := state_done st \<or> retired (cs ! state_id st)\<rparr>]"

definition prepare_update :: "update_req \<Rightarrow> update_rsp \<Rightarrow> execution_cursor list \<Rightarrow> execution_cursor list option" where
  "prepare_update request response current =
     (case rsp_control response of
        Action_Batch actions \<Rightarrow>
          if current = [] \<or> \<not> command_accepted (rsp_reply response) \<or>
            length (req_agents request) \<noteq> active_agent_count current then None
          else do {
            expected \<leftarrow> check_states (req_frame request) current (req_agents request) [] [];
            if length actions \<noteq> length expected \<or> \<not> check_actions (req_agents request) expected actions [] then None
            else Some (fold commit_state (req_agents request) current)
          }
      | _ \<Rightarrow> None)"

section \<open>A round\<close>

definition report_agent :: "bool \<Rightarrow> maze_env \<Rightarrow> nat \<Rightarrow> agent_state" where
  "report_agent masked e i =
     (let a = agents e ! i in
      \<lparr>state_id = i, state_cell = (agent_x a, agent_y a), state_done = agent_done a, state_reason = agent_reason a,
       state_blocked = last_move_blocked a,
       state_mask = (if \<not> agent_done a \<and> masked then get_action_mask e (int i) else []), state_executed = None\<rparr>)"

text \<open>\<open>None\<close> when a receipt cannot be made.\<close>

definition observe :: "bool \<Rightarrow> maze_env \<Rightarrow> execution_cursor list \<Rightarrow> update_req option" where
  "observe masked e cs =
     map_option (\<lambda>sts. \<lparr>req_frame = env_frame e, req_agents = sts\<rparr>)
       (those (map (\<lambda>i. attach_receipt (env_frame e) (cs ! i) (report_agent masked e i))
          (filter (\<lambda>i. \<not> retired (cs ! i)) [0..<length (agents e)])))"

primrec apply_actions ::
    "(nat \<times> int) list \<Rightarrow> maze_env \<times> execution_cursor list \<Rightarrow> (maze_env \<times> execution_cursor list) option" where
  "apply_actions [] s = Some s"
| "apply_actions (act # acts) s = Option.bind (execute_assigned s act) (apply_actions acts)"

text \<open>The server as the client sees it.\<close>

record 'w server =
  sv_stopped :: "'w \<Rightarrow> bool"
  sv_update :: "command_identity \<times> update_req \<Rightarrow> 'w \<Rightarrow> update_rsp option \<times> 'w"
  sv_sleep :: "int \<Rightarrow> 'w \<Rightarrow> 'w"

definition update_wait :: "update_rsp \<Rightarrow> int" where
  "update_wait r = (case rsp_control r of Wait_Control ms \<Rightarrow> if ms > 0 then ms else - 1 | _ \<Rightarrow> 0)"

text \<open>\<open>TaskClient::Update\<close> with the check of the payload the client gives it; there is no budget of time.\<close>

definition update_link ::
    "'w server \<Rightarrow> execution_cursor list \<Rightarrow> (command_identity \<times> update_req, update_rsp, 'w) link" where
  "update_link sv current =
     \<lparr>stopped_now = sv_stopped sv, budget_spent = (\<lambda>_. False), invoke = sv_update sv, wait_delay = update_wait,
      response_reply = rsp_reply,
      payload_ok = (\<lambda>q r. (reply_phase (rsp_reply r) = SESSION_PHASE_EPISODE_RUNNING \<or>
        reply_phase (rsp_reply r) = SESSION_PHASE_EPISODE_TERMINAL) \<and> prepare_update (snd q) r current \<noteq> None),
      sleep_for = sv_sleep sv\<rparr>"

record 'w episode =
  ep_env :: maze_env
  ep_execution :: "execution_cursor list"
  ep_cursor :: lifecycle_cursor
  ep_response :: "update_rsp option"
  ep_world :: 'w

definition begin_episode :: "int \<Rightarrow> maze_env \<Rightarrow> lifecycle_cursor \<Rightarrow> 'w \<Rightarrow> 'w episode" where
  "begin_episode max_steps e c w =
     \<lparr>ep_env = reset (set_max_steps max_steps e), ep_execution = replicate (length (agents e)) \<lparr>retired = False, last_executed = None\<rparr>,
      ep_cursor = c, ep_response = None, ep_world = w\<rparr>"

definition report :: "'w server \<Rightarrow> bool \<Rightarrow> 'w episode \<Rightarrow> (command_outcome \<times> 'w episode) option" where
  "report sv masked s =
     (case observe masked (ep_env s) (ep_execution s) of
        None \<Rightarrow> Some (Rejected, s)
      | Some request \<Rightarrow> do {
          (result, r, c, w) \<leftarrow> exchange (update_link sv (ep_execution s)) (fill_command (ep_cursor s), request) (ep_cursor s, ep_world s);
          let s = s\<lparr>ep_cursor := c, ep_response := r, ep_world := w\<rparr>;
          Some (result,
            if result = Applied then s\<lparr>ep_execution := the (prepare_update request (the r) (ep_execution s))\<rparr> else s)
        })"

definition batch_actions :: "update_rsp option \<Rightarrow> (nat \<times> int) list" where
  "batch_actions r = (case r of Some rsp \<Rightarrow> (case rsp_control rsp of Action_Batch acts \<Rightarrow> acts | _ \<Rightarrow> []) | None \<Rightarrow> [])"

definition apply_reply :: "'w episode \<Rightarrow> 'w episode option" where
  "apply_reply s =
     map_option (\<lambda>(e, cs). s\<lparr>ep_env := advance_frame e, ep_execution := cs\<rparr>)
       (apply_actions (batch_actions (ep_response s)) (ep_env s, ep_execution s))"

definition client_episode :: "'w server \<Rightarrow> bool \<Rightarrow> 'w episode \<Rightarrow> (command_outcome \<times> 'w episode) option" where
  "client_episode sv masked =
     run_episode (\<lambda>s. sv_stopped sv (ep_world s)) (\<lambda>s. all_done (ep_env s)) (report sv masked) apply_reply"

section \<open>The report of a consistent state\<close>

text \<open>Between two rounds: retired agents have ended, and the others hold the receipt of the last frame.\<close>

definition in_step :: "maze_env \<Rightarrow> execution_cursor list \<Rightarrow> bool" where
  "in_step e cs \<longleftrightarrow> length cs = length (agents e) \<and> 0 \<le> env_frame e \<and>
     (\<forall>i < length (agents e).
        if retired (cs ! i) then agent_done (agents e ! i)
        else if env_frame e = 0 then last_executed (cs ! i) = None
        else \<exists>k. last_executed (cs ! i) = Some k \<and> is_maze_action k)"

definition active :: "execution_cursor list \<Rightarrow> nat list" where
  "active cs = filter (\<lambda>i. \<not> retired (cs ! i)) [0..<length cs]"

definition reported :: "bool \<Rightarrow> maze_env \<Rightarrow> execution_cursor list \<Rightarrow> nat \<Rightarrow> agent_state" where
  "reported masked e cs i = (report_agent masked e i)\<lparr>state_executed := last_executed (cs ! i)\<rparr>"

lemma reported_fields [simp]:
  "state_id (reported masked e cs i) = i" "state_done (reported masked e cs i) = agent_done (agents e ! i)"
  "state_mask (reported masked e cs i) = (if \<not> agent_done (agents e ! i) \<and> masked then get_action_mask e (int i) else [])"
  by (simp_all add: reported_def report_agent_def Let_def)

lemma set_active: "set (active cs) = {i. i < length cs \<and> \<not> retired (cs ! i)}"
  by (auto simp: active_def)

lemma distinct_active: "distinct (active cs)"
  by (simp add: active_def)

lemma those_map_Some: "(\<And>x. x \<in> set xs \<Longrightarrow> f x = Some (g x)) \<Longrightarrow> those (map f xs) = Some (map g xs)"
  by (induction xs) simp_all

lemma observe_in_step:
  assumes "in_step e cs"
  shows "observe masked e cs = Some \<lparr>req_frame = env_frame e, req_agents = map (reported masked e cs) (active cs)\<rparr>"
proof -
  have "attach_receipt (env_frame e) (cs ! i) (report_agent masked e i) = Some (reported masked e cs i)" if "i \<in> set (active cs)" for i
  proof -
    from that assms have i: "i < length (agents e)" "\<not> retired (cs ! i)" by (auto simp: set_active in_step_def)
    with assms have "if env_frame e = 0 then last_executed (cs ! i) = None else \<exists>k. last_executed (cs ! i) = Some k \<and> is_maze_action k"
      by (auto simp: in_step_def)
    with i(2) show ?thesis by (auto simp: attach_receipt_def reported_def report_agent_def Let_def split: if_splits)
  qed
  then have "those (map (\<lambda>i. attach_receipt (env_frame e) (cs ! i) (report_agent masked e i)) (active cs)) =
      Some (map (reported masked e cs) (active cs))"
    by (rule those_map_Some)
  moreover have "filter (\<lambda>i. \<not> retired (cs ! i)) [0..<length (agents e)] = active cs" using assms by (simp add: active_def in_step_def)
  ultimately show ?thesis by (simp add: observe_def)
qed

section \<open>What an accepted reply holds\<close>

lemma check_states_expected:
  "check_states frame cs sts seen expected = Some expected' \<Longrightarrow>
    expected' = rev (map state_id (filter (\<lambda>st. \<not> state_done st) sts)) @ expected"
  by (induction sts arbitrary: seen expected) (auto simp: Let_def split: if_splits)

lemma check_actions_holds:
  "check_actions sts expected acts seen \<Longrightarrow>
    distinct (map fst acts) \<and> set (map fst acts) \<inter> set seen = {} \<and>
    (\<forall>act \<in> set acts. is_maze_action (snd act) \<and> fst act \<in> set expected \<and> mask_allows sts act)"
proof (induction acts arbitrary: seen)
  case (Cons act acts)
  then have "check_actions sts expected acts (fst act # seen)" by (simp split: if_splits)
  from Cons.IH [OF this] Cons.prems show ?case by (auto split: if_splits)
qed simp

lemma commit_states:
  assumes "distinct is" and "\<forall>i \<in> set is. i < length cs"
  shows "length (fold commit_state (map (reported masked e cs0) is) cs) = length cs"
    and "i < length cs \<Longrightarrow> fold commit_state (map (reported masked e cs0) is) cs ! i =
      (if i \<in> set is then (cs ! i)\<lparr>last_executed := None, retired := agent_done (agents e ! i) \<or> retired (cs ! i)\<rparr> else cs ! i)"
proof -
  have "length (fold commit_state (map (reported masked e cs0) is) cs) = length cs \<and>
    (i < length cs \<longrightarrow> fold commit_state (map (reported masked e cs0) is) cs ! i =
      (if i \<in> set is then (cs ! i)\<lparr>last_executed := None, retired := agent_done (agents e ! i) \<or> retired (cs ! i)\<rparr> else cs ! i))"
    using assms
  proof (induction "is" arbitrary: cs)
    case (Cons j js)
    let ?cs = "commit_state (reported masked e cs0 j) cs"
    have len: "length ?cs = length cs" by (simp add: commit_state_def)
    have at: "?cs ! i = (if i = j then (cs ! i)\<lparr>last_executed := None, retired := agent_done (agents e ! i) \<or> retired (cs ! i)\<rparr> else cs ! i)"
      if "i < length cs"
      using that by (simp add: commit_state_def)
    have "length (fold commit_state (map (reported masked e cs0) js) ?cs) = length ?cs \<and>
      (i < length ?cs \<longrightarrow> fold commit_state (map (reported masked e cs0) js) ?cs ! i =
        (if i \<in> set js then (?cs ! i)\<lparr>last_executed := None, retired := agent_done (agents e ! i) \<or> retired (?cs ! i)\<rparr> else ?cs ! i))"
      by (rule Cons.IH) (use Cons.prems len in auto)
    with Cons.prems(1) len at show ?case by auto
  qed simp
  then show "length (fold commit_state (map (reported masked e cs0) is) cs) = length cs"
    "i < length cs \<Longrightarrow> fold commit_state (map (reported masked e cs0) is) cs ! i =
      (if i \<in> set is then (cs ! i)\<lparr>last_executed := None, retired := agent_done (agents e ! i) \<or> retired (cs ! i)\<rparr> else cs ! i)"
    by simp_all
qed

text \<open>After the commit: retired is who has ended, and nobody holds a receipt.\<close>

definition committed :: "maze_env \<Rightarrow> execution_cursor list \<Rightarrow> bool" where
  "committed e cs \<longleftrightarrow> length cs = length (agents e) \<and>
     (\<forall>i < length (agents e). (retired (cs ! i) \<longleftrightarrow> agent_done (agents e ! i)) \<and>
        (\<not> agent_done (agents e ! i) \<longrightarrow> last_executed (cs ! i) = None))"

text \<open>The actions of the reply: one, and only one, for every agent that is not done, each known and allowed by its mask.\<close>

definition fitting :: "bool \<Rightarrow> maze_env \<Rightarrow> (nat \<times> int) list \<Rightarrow> bool" where
  "fitting masked e acts \<longleftrightarrow> distinct (map fst acts) \<and>
     fst ` set acts = {i. i < length (agents e) \<and> \<not> agent_done (agents e ! i)} \<and>
     (\<forall>(i, k) \<in> set acts. is_maze_action k \<and> (masked \<longrightarrow> get_action_mask e (int i) ! nat k))"

lemma mask_of_reported:
  assumes "mask_allows (map (reported masked e cs) is) (i, k)" and "masked" and "i \<in> set is" and "\<not> agent_done (agents e ! i)"
  shows "get_action_mask e (int i) ! nat k"
proof -
  have "length (get_action_mask e (int i)) = 9" by (simp add: get_action_mask_def length_py_range)
  then have "get_action_mask e (int i) \<noteq> []" by (metis list.size(3) zero_neq_numeral)
  then obtain st where st: "find (\<lambda>st. state_id st = i \<and> state_mask st \<noteq> []) (map (reported masked e cs) is) = Some st"
    using assms(2-4) by (cases "find (\<lambda>st. state_id st = i \<and> state_mask st \<noteq> []) (map (reported masked e cs) is)")
      (auto simp: find_None_iff)
  then have "st = reported masked e cs i" by (auto simp: find_Some_iff)
  with st assms show ?thesis by (simp add: mask_allows_def)
qed

lemma prepare_in_step:
  assumes "in_step e cs" and "observe masked e cs = Some q" and "prepare_update q r cs = Some cs'"
  shows "committed e cs'" and "fitting masked e (batch_actions (Some r))"
proof -
  have q: "q = \<lparr>req_frame = env_frame e, req_agents = map (reported masked e cs) (active cs)\<rparr>"
    using observe_in_step [OF assms(1)] assms(2) by simp
  let ?sts = "map (reported masked e cs) (active cs)"
  obtain acts expected where acts: "rsp_control r = Action_Batch acts" "check_states (env_frame e) cs ?sts [] [] = Some expected"
    "length acts = length expected" "check_actions ?sts expected acts []" "cs' = fold commit_state ?sts cs"
    using assms(3) by (auto simp: prepare_update_def q bind_eq_Some_conv split: update_control.splits if_splits)
  have len: "length cs = length (agents e)" using assms(1) by (simp add: in_step_def)
  have expected: "expected = rev (filter (\<lambda>i. \<not> agent_done (agents e ! i)) (active cs))"
    using check_states_expected [OF acts(2)] by (simp add: filter_map comp_def)
  have ended: "agent_done (agents e ! i)" if "i < length (agents e)" "retired (cs ! i)" for i
    using assms(1) that by (auto simp: in_step_def)
  have set_expected: "set expected = {i. i < length (agents e) \<and> \<not> agent_done (agents e ! i)}"
    using ended by (auto simp: expected set_active len)
  note holds = check_actions_holds [OF acts(4)]
  have "fst ` set acts \<subseteq> set expected" using holds by auto
  moreover have "card (fst ` set acts) = length acts" using holds distinct_card [of "map fst acts"] by simp
  moreover have "distinct expected" using distinct_active by (simp add: expected)
  then have "card (set expected) = length expected" by (rule distinct_card)
  ultimately have who: "fst ` set acts = set expected" using acts(3) by (intro card_subset_eq) simp_all
  have "get_action_mask e (int i) ! nat k" if "(i, k) \<in> set acts" masked for i k
  proof -
    have "i \<in> set expected" using that(1) who by force
    then have "i \<in> set (active cs)" "\<not> agent_done (agents e ! i)" by (auto simp: expected)
    with holds that mask_of_reported show ?thesis by blast
  qed
  with holds who set_expected show "fitting masked e (batch_actions (Some r))"
    by (auto simp: fitting_def batch_actions_def acts(1))
  have all: "\<forall>i \<in> set (active cs). i < length cs" by (simp add: set_active)
  have c: "length (fold commit_state ?sts cs) = length cs"
    "i < length cs \<Longrightarrow> fold commit_state ?sts cs ! i = (if i \<in> set (active cs)
      then (cs ! i)\<lparr>last_executed := None, retired := agent_done (agents e ! i) \<or> retired (cs ! i)\<rparr> else cs ! i)" for i
    using commit_states [OF distinct_active all] by blast+
  show "committed e cs'"
    unfolding committed_def acts(5) using c len ended by (auto simp: set_active)
qed

section \<open>The actions are executed\<close>

lemma move_agent_agents: "move_agent (e\<lparr>agents := xs\<rparr>) = move_agent e"
proof -
  have a: "is_action_available (e\<lparr>agents := xs\<rparr>) = is_action_available e" "check_goal_reached (e\<lparr>agents := xs\<rparr>) = check_goal_reached e"
    by (simp_all add: fun_eq_iff is_action_available_def check_goal_reached_def)
  have t: "check_timeout (e\<lparr>agents := xs\<rparr>) = check_timeout e" by (simp add: check_timeout_def)
  show ?thesis by (intro ext) (simp only: move_agent_def a t)
qed

text \<open>Every agent moves by its own action.\<close>

lemma run_actions_at:
  assumes "env_ok e" and "run_actions acts e = Inr e'" and "distinct (map fst acts)" and "(int i, k) \<in> set acts"
    and "i < length (agents e)"
  shows "agents e' ! i = move_agent e k (agents e ! i)"
  using assms
proof (induction acts arbitrary: e)
  case (Cons act acts)
  obtain j l where act: "act = (j, l)" by (cases act)
  from Cons.prems(2) act obtain e1 where e1: "maze_step j l e = Inr e1" "run_actions acts e1 = Inr e'"
    by (auto split: sum.splits)
  have e1': "0 \<le> j" "nat j < length (agents e)" "e1 = e\<lparr>agents := (agents e)[nat j := move_agent e l (agents e ! nat j)]\<rparr>"
    using e1(1) by (auto simp: maze_step_Inr)
  note ok = maze_step_ok [OF Cons.prems(1) e1(1)]
  have d: "j \<notin> fst ` set acts" "distinct (map fst acts)" using Cons.prems(3) act by auto
  have len: "i < length (agents e1)" using e1'(3) Cons.prems(5) by simp
  show ?case
  proof (cases "j = int i")
    case True
    then have "k = l" using Cons.prems(4) d(1) act by force
    moreover have "int i \<notin> fst ` set acts" using d(1) True by simp
    then have "agents e' ! i = agents e1 ! i" using run_actions_moved [OF ok e1(2) d(2)] len by blast
    ultimately show ?thesis using True e1'(2,3) by simp
  next
    case False
    then have "(int i, k) \<in> set acts" using Cons.prems(4) act by simp
    from Cons.IH [OF ok e1(2) d(2) this len]
    have "agents e' ! i = move_agent e1 k (agents e1 ! i)" .
    moreover have "agents e1 ! i = agents e ! i" using e1'(1,3) False by simp
    moreover have "move_agent e1 = move_agent e"
      unfolding e1'(3) by (rule move_agent_agents)
    ultimately show ?thesis by simp
  qed
qed simp

abbreviation as_ints :: "(nat \<times> int) list \<Rightarrow> (int \<times> int) list" where
  "as_ints acts \<equiv> map (apfst int) acts"

lemma as_ints_fst: "map fst (as_ints acts) = map int (map fst acts)"
  by simp

lemma distinct_as_ints: "distinct (map fst (as_ints acts)) \<longleftrightarrow> distinct (map fst acts)"
  by (simp add: distinct_map inj_on_def)

lemma apply_actions_ok:
  assumes "env_ok e" and "length cs = length (agents e)" and "distinct (map fst acts)"
    and "\<And>i k. (i, k) \<in> set acts \<Longrightarrow> i < length (agents e) \<and> \<not> agent_done (agents e ! i) \<and> \<not> retired (cs ! i) \<and>
      last_executed (cs ! i) = None \<and> is_maze_action k"
  shows "\<exists>e' cs'. apply_actions acts (e, cs) = Some (e', cs') \<and> run_actions (as_ints acts) e = Inr e' \<and> length cs' = length cs \<and>
    (\<forall>i < length cs. cs' ! i = (case map_of acts i of None \<Rightarrow> cs ! i | Some k \<Rightarrow> (cs ! i)\<lparr>last_executed := Some k\<rparr>))"
  using assms
proof (induction acts arbitrary: e cs)
  case (Cons act acts)
  obtain j l where act: "act = (j, l)" by (cases act)
  have j: "j < length (agents e)" "\<not> agent_done (agents e ! j)" "\<not> retired (cs ! j)" "last_executed (cs ! j) = None" "is_maze_action l"
    using Cons.prems(4) [of j l] act by simp_all
  let ?e = "e\<lparr>agents := (agents e)[j := move_agent e l (agents e ! j)]\<rparr>" and ?cs = "cs[j := (cs ! j)\<lparr>last_executed := Some l\<rparr>]"
  have step: "maze_step (int j) l e = Inr ?e" using j(1,2,5) by (simp add: maze_step_Inr is_maze_action_def)
  have exec: "execute_assigned (e, cs) act = Some (?e, ?cs)"
    using j step by (simp add: execute_assigned_def act record_executed_def)
  have d: "j \<notin> fst ` set acts" "distinct (map fst acts)" using Cons.prems(3) act by auto
  have rest: "i < length (agents ?e) \<and> \<not> agent_done (agents ?e ! i) \<and> \<not> retired (?cs ! i) \<and> last_executed (?cs ! i) = None \<and> is_maze_action k"
    if "(i, k) \<in> set acts" for i k
  proof -
    have "i \<noteq> j" using that d(1) by force
    then show ?thesis using Cons.prems(4) [of i k] that by simp
  qed
  have len: "length ?cs = length (agents ?e)" using Cons.prems(2) by simp
  obtain e' cs' where IH: "apply_actions acts (?e, ?cs) = Some (e', cs')" "run_actions (as_ints acts) ?e = Inr e'" "length cs' = length ?cs"
    "\<forall>i < length ?cs. cs' ! i = (case map_of acts i of None \<Rightarrow> ?cs ! i | Some k \<Rightarrow> (?cs ! i)\<lparr>last_executed := Some k\<rparr>)"
    using Cons.IH [OF maze_step_ok [OF Cons.prems(1) step] len d(2) rest] by blast
  have "map_of acts j = None" using d(1) by (simp add: map_of_eq_None_iff)
  then have "\<forall>i < length cs. cs' ! i = (case map_of (act # acts) i of None \<Rightarrow> cs ! i | Some k \<Rightarrow> (cs ! i)\<lparr>last_executed := Some k\<rparr>)"
    using IH(4) by (auto simp: act split: option.splits)
  with IH exec step act show ?case by simp
qed simp

text \<open>An accepted reply is executed as a frame that covers the active agents.\<close>

lemma apply_fitting:
  assumes "env_ok e" and "0 \<le> env_frame e" and "committed e cs" and "fitting masked e acts"
  shows "\<exists>e1 cs'. apply_actions acts (e, cs) = Some (e1, cs') \<and> play_frame (as_ints acts) e = Inr (advance_frame e1) \<and>
    covers e (as_ints acts) \<and> in_step (advance_frame e1) cs' \<and>
    (masked \<longrightarrow> (\<forall>a \<in> set (agents e). \<not> last_move_blocked a) \<longrightarrow> (\<forall>a \<in> set (agents e1). \<not> last_move_blocked a))"
proof -
  have len: "length cs = length (agents e)" using assms(3) by (simp add: committed_def)
  have d: "distinct (map fst acts)" using assms(4) by (simp add: fitting_def)
  have who: "fst ` set acts = {i. i < length (agents e) \<and> \<not> agent_done (agents e ! i)}" using assms(4) by (simp add: fitting_def)
  have each: "i < length (agents e) \<and> \<not> agent_done (agents e ! i) \<and> \<not> retired (cs ! i) \<and> last_executed (cs ! i) = None \<and> is_maze_action k"
    if "(i, k) \<in> set acts" for i k
  proof -
    have "i \<in> fst ` set acts" using that by force
    with who have "i < length (agents e)" "\<not> agent_done (agents e ! i)" by auto
    with assms(3,4) that show ?thesis by (auto simp: committed_def fitting_def)
  qed
  obtain e1 cs' where run: "apply_actions acts (e, cs) = Some (e1, cs')" "run_actions (as_ints acts) e = Inr e1" "length cs' = length cs"
    "\<forall>i < length cs. cs' ! i = (case map_of acts i of None \<Rightarrow> cs ! i | Some k \<Rightarrow> (cs ! i)\<lparr>last_executed := Some k\<rparr>)"
    using apply_actions_ok [OF assms(1) len d each] by blast
  have di: "distinct (map fst (as_ints acts))" using d by (simp only: distinct_as_ints)
  note moved = run_actions_moved [OF assms(1) run(2) di]
  have ids: "int i \<in> fst ` set (as_ints acts) \<longleftrightarrow> i \<in> fst ` set acts" for i by force
  have "covers e (as_ints acts)" using di who ids by (simp add: covers_def)
  moreover have "in_step (advance_frame e1) cs'"
  proof -
    have frame: "env_frame (advance_frame e1) = env_frame e + 1"
      using arg_cong [of _ _ env_frame, OF conjunct1 [OF moved]] by (simp add: advance_frame_def)
    have "if retired (cs' ! i) then agent_done (agents e1 ! i) else \<exists>k. last_executed (cs' ! i) = Some k \<and> is_maze_action k"
      if i: "i < length (agents e)" for i
    proof (cases "map_of acts i")
      case None
      then have "i \<notin> fst ` set acts" by (simp add: map_of_eq_None_iff)
      with who i have "agent_done (agents e ! i)" by auto
      moreover have "agents e1 ! i = agents e ! i" using moved i \<open>i \<notin> fst ` set acts\<close> ids by blast
      moreover have "retired (cs' ! i)" using run(4) i len None assms(3) calculation(1) by (simp add: committed_def)
      ultimately show ?thesis by simp
    next
      case (Some k)
      then have "(i, k) \<in> set acts" by (rule map_of_SomeD)
      with each Some run(4) i len show ?thesis by auto
    qed
    then show ?thesis
      using moved run(3) len frame assms(2) by (simp add: in_step_def advance_frame_def)
  qed
  moreover have "\<not> last_move_blocked a"
    if given: "masked" "\<forall>a \<in> set (agents e). \<not> last_move_blocked a" "a \<in> set (agents e1)" for a
  proof -
    obtain i where i: "i < length (agents e)" "a = agents e1 ! i"
      using given(3) moved by (metis in_set_conv_nth)
    show ?thesis
    proof (cases "i \<in> fst ` set acts")
      case True
      then obtain k where k: "(i, k) \<in> set acts" by auto
      then have "(int i, k) \<in> set (as_ints acts)" by force
      from run_actions_at [OF assms(1) run(2) di this i(1)] have "a = move_agent e k (agents e ! i)" using i(2) by simp
      moreover have "get_action_mask e (int i) ! nat k" "0 \<le> k" "k \<le> 8"
        using assms(4) k given(1) by (auto simp: fitting_def is_maze_action_def)
      then have "is_action_available e (agents e ! i) k" using i(1) by (simp add: get_action_mask_def nth_py_range)
      ultimately show ?thesis by (simp add: move_agent_fields)
    next
      case False
      then have "agents e1 ! i = agents e ! i" using moved i(1) ids by blast
      with given(2) i show ?thesis by simp
    qed
  qed
  ultimately show ?thesis using run(1,2) by (auto simp: play_frame_def)
qed

section \<open>The invariant of an episode\<close>

lemma play_append:
  "play (frames @ [acts]) e = (case play frames e of Inl err \<Rightarrow> Inl err | Inr e' \<Rightarrow> play_frame acts e')"
  by (induction frames arbitrary: e) (auto split: sum.splits)

lemma complete_append:
  "complete frames e \<Longrightarrow> play frames e = Inr e1 \<Longrightarrow> covers e1 acts \<Longrightarrow> play_frame acts e1 = Inr e2 \<Longrightarrow> complete (frames @ [acts]) e"
  by (induction frames arbitrary: e) (auto split: sum.splits)

text \<open>The environment is what playing some complete frames gives, and the cursors are in step with it.\<close>

definition episode_inv :: "bool \<Rightarrow> maze_env \<Rightarrow> 'w episode \<Rightarrow> bool" where
  "episode_inv masked e0 s \<longleftrightarrow> env_ok (ep_env s) \<and> in_step (ep_env s) (ep_execution s) \<and>
     (env_max_steps (ep_env s) \<le> env_frame (ep_env s) \<longrightarrow> all_done (ep_env s)) \<and>
     env_max_steps (ep_env s) = env_max_steps e0 \<and>
     (\<exists>frames. complete frames e0 \<and> play frames e0 = Inr (ep_env s) \<and> env_frame (ep_env s) = int (length frames) \<and>
        int (length frames) \<le> env_max_steps e0) \<and>
     (masked \<longrightarrow> (\<forall>a \<in> set (agents (ep_env s)). \<not> last_move_blocked a))"

lemma report_cases:
  assumes "episode_inv masked e0 s" and "report sv masked s = Some (result, s1)"
  shows "ep_env s1 = ep_env s"
    and "result \<noteq> Applied \<Longrightarrow> ep_execution s1 = ep_execution s"
    and "result = Rejected \<Longrightarrow> \<exists>r. ep_response s1 = Some r \<and> is_conclusive_rejected (ep_cursor s1) (rsp_reply r)"
    and "result = Applied \<Longrightarrow> committed (ep_env s) (ep_execution s1) \<and> fitting masked (ep_env s) (batch_actions (ep_response s1))"
proof -
  have step: "in_step (ep_env s) (ep_execution s)" using assms(1) by (simp add: episode_inv_def)
  obtain q where q: "observe masked (ep_env s) (ep_execution s) = Some q" using observe_in_step [OF step] by blast
  let ?l = "update_link sv (ep_execution s)" and ?q = "(fill_command (ep_cursor s), q)"
  obtain r c w where run: "exchange ?l ?q (ep_cursor s, ep_world s) = Some (result, r, c, w)"
    and s1: "s1 = (let s' = s\<lparr>ep_cursor := c, ep_response := r, ep_world := w\<rparr> in
      if result = Applied then s'\<lparr>ep_execution := the (prepare_update q (the r) (ep_execution s))\<rparr> else s')"
    using assms(2) by (auto simp: report_def q bind_eq_Some_conv Let_def)
  note fine = exchange_result [OF run, unfolded exchange_fine_def prod.case]
  show "ep_env s1 = ep_env s" "result \<noteq> Applied \<Longrightarrow> ep_execution s1 = ep_execution s" by (simp_all add: s1 Let_def)
  show "\<exists>r. ep_response s1 = Some r \<and> is_conclusive_rejected (ep_cursor s1) (rsp_reply r)" if "result = Rejected"
    using fine that by (auto simp: s1 update_link_def Let_def)
  show "committed (ep_env s) (ep_execution s1) \<and> fitting masked (ep_env s) (batch_actions (ep_response s1))" if "result = Applied"
  proof -
    from fine that obtain rsp where "r = Some rsp" "payload_ok ?l ?q rsp" by auto
    then obtain cs' where "prepare_update q rsp (ep_execution s) = Some cs'" by (auto simp: update_link_def)
    with prepare_in_step [OF step q this] \<open>r = Some rsp\<close> that show ?thesis by (simp add: s1 Let_def)
  qed
qed

lemma round_keeps_inv:
  assumes "episode_inv masked e0 s" and "report sv masked s = Some (Applied, s1)" and "\<not> all_done (ep_env s)"
  shows "\<exists>s2. apply_reply s1 = Some s2 \<and> episode_inv masked e0 s2 \<and> env_frame (ep_env s2) = env_frame (ep_env s) + 1 \<and>
    play_frame (as_ints (batch_actions (ep_response s1))) (ep_env s) = Inr (ep_env s2) \<and>
    covers (ep_env s) (as_ints (batch_actions (ep_response s1)))"
proof -
  note r = report_cases [OF assms(1,2)]
  let ?e = "ep_env s" and ?acts = "batch_actions (ep_response s1)"
  have inv: "env_ok ?e" "0 \<le> env_frame ?e" "env_frame ?e < env_max_steps e0" "env_max_steps ?e = env_max_steps e0"
    using assms(1,3) by (auto simp: episode_inv_def in_step_def)
  obtain frames where frames: "complete frames e0" "play frames e0 = Inr ?e" "env_frame ?e = int (length frames)"
    using assms(1) by (auto simp: episode_inv_def)
  obtain e1 cs' where a: "apply_actions ?acts (?e, ep_execution s1) = Some (e1, cs')"
    "play_frame (as_ints ?acts) ?e = Inr (advance_frame e1)" "covers ?e (as_ints ?acts)" "in_step (advance_frame e1) cs'"
    "masked \<longrightarrow> (\<forall>a \<in> set (agents ?e). \<not> last_move_blocked a) \<longrightarrow> (\<forall>a \<in> set (agents e1). \<not> last_move_blocked a)"
    using apply_fitting [OF inv(1,2)] r(4) by blast
  have "distinct (map fst (as_ints ?acts))" using a(3) by (simp add: covers_def)
  note p = play_frame_Inr [OF inv(1) a(2) this]
  have fields: "env_frame (advance_frame e1) = env_frame ?e + 1" "env_max_steps (advance_frame e1) = env_max_steps ?e"
    using arg_cong [OF p(1), of env_frame] arg_cong [OF p(1), of env_max_steps] by simp_all
  let ?s2 = "s1\<lparr>ep_env := advance_frame e1, ep_execution := cs'\<rparr>"
  have ended: "env_max_steps (advance_frame e1) \<le> env_frame (advance_frame e1) \<longrightarrow> all_done (advance_frame e1)"
    using frame_at_limit [OF a(2) inv(1) a(3)] fields by simp
  have "play (frames @ [as_ints ?acts]) e0 = Inr (advance_frame e1)" "complete (frames @ [as_ints ?acts]) e0"
    using complete_append [OF frames(1,2) a(3,2)] frames(2) a(2) by (simp_all add: play_append)
  moreover have "env_frame (advance_frame e1) = int (length (frames @ [as_ints ?acts]))" using fields(1) frames(3) by simp
  moreover have "int (length (frames @ [as_ints ?acts])) \<le> env_max_steps e0" using frames(3) inv(3) by simp
  ultimately have run: "\<exists>frames. complete frames e0 \<and> play frames e0 = Inr (advance_frame e1) \<and>
      env_frame (advance_frame e1) = int (length frames) \<and> int (length frames) \<le> env_max_steps e0"
    by blast
  have "masked \<longrightarrow> (\<forall>a \<in> set (agents (advance_frame e1)). \<not> last_move_blocked a)"
    using a(5) assms(1) by (simp add: episode_inv_def advance_frame_def)
  then have "episode_inv masked e0 ?s2"
    using p(3) a(4) ended run fields(2) inv(4) by (simp add: episode_inv_def)
  moreover have "apply_reply s1 = Some ?s2" using a(1) r(1) by (simp add: apply_reply_def)
  ultimately show ?thesis using fields(1) a(2,3) by (intro exI [of _ ?s2]) simp
qed

lemma begin_inv:
  assumes "open_at e (env_start e)" and "0 < n"
  shows "episode_inv masked (reset (set_max_steps n e)) (begin_episode n e c w)"
proof -
  let ?e = "set_max_steps n e"
  have "open_at ?e = open_at e" by (simp add: fun_eq_iff open_at_def is_walkable_def set_max_steps_def)
  then have "env_ok (reset ?e)" using reset_ok [of ?e] assms(1) by (simp add: set_max_steps_def)
  moreover have "in_step (reset ?e) (replicate (length (agents e)) \<lparr>retired = False, last_executed = None\<rparr>)"
    by (simp add: in_step_def reset_def set_max_steps_def)
  moreover have "\<exists>frames. complete frames (reset ?e) \<and> play frames (reset ?e) = Inr (reset ?e) \<and>
      env_frame (reset ?e) = int (length frames) \<and> int (length frames) \<le> env_max_steps (reset ?e)"
    using assms(2) by (intro exI [of _ "[]"]) (simp add: reset_def set_max_steps_def)
  moreover have "env_max_steps (reset ?e) = n" "env_frame (reset ?e) = 0" using assms(2) by (simp_all add: reset_def set_max_steps_def)
  moreover have "\<forall>a \<in> set (agents (reset ?e)). \<not> last_move_blocked a" by (auto simp: reset_def reset_agent_def)
  ultimately show ?thesis using assms(2) by (simp add: episode_inv_def begin_episode_def)
qed

section \<open>Properties\<close>

lemma episode_returns:
  assumes "open_at e (env_start e)" and "0 < n" and "\<forall>cs q c w. \<exists>k. waits (update_link sv cs) q c k w"
  shows "\<exists>result s'. client_episode sv masked (begin_episode n e c w) = Some (result, s')"
proof -
  let ?e0 = "reset (set_max_steps n e)"
  have "\<exists>r s1. report sv masked s = Some (r, s1)" if "episode_inv masked ?e0 s" for s
  proof -
    have "in_step (ep_env s) (ep_execution s)" using that by (simp add: episode_inv_def)
    then obtain q where q: "observe masked (ep_env s) (ep_execution s) = Some q" using observe_in_step by blast
    let ?l = "update_link sv (ep_execution s)" and ?q = "(fill_command (ep_cursor s), q)"
    obtain k where "waits ?l ?q (ep_cursor s) k (ep_world s)" using assms(3) by blast
    from exchange_returns [OF this] obtain res where "exchange ?l ?q (ep_cursor s, ep_world s) = Some res" by blast
    then show ?thesis by (cases res) (simp add: report_def q Let_def)
  qed
  moreover have "episode_inv masked ?e0 s2 \<and> nat (n - env_frame (ep_env s2)) < nat (n - env_frame (ep_env s))"
    if "episode_inv masked ?e0 s" "report sv masked s = Some (Applied, s1)" "\<not> all_done (ep_env s)" "apply_reply s1 = Some s2" for s s1 s2
  proof -
    have "env_frame (ep_env s) < n"
      using that(1,3) assms(2) by (auto simp: episode_inv_def reset_def set_max_steps_def)
    with round_keeps_inv [OF that(1-3)] that(4) show ?thesis by auto
  qed
  ultimately show ?thesis
    using run_episode_returns [where I = "episode_inv masked ?e0" and m = "\<lambda>s. nat (n - env_frame (ep_env s))",
        OF begin_inv [OF assms(1,2), of masked c w]]
    unfolding client_episode_def by fastforce
qed






text \<open>C12: An episode returns, whatever the server replies, when it does not let the client wait for ever.\<close>

theorem client_episode_returns:
  assumes "open_at e (env_start e)" and "0 < n" and "\<forall>cs q c w. \<exists>k. waits (update_link sv cs) q c k w"
  shows "\<exists>result s'. client_episode sv masked (begin_episode n e c w) = Some (result, s')"
  by (rule episode_returns [OF assms])

text \<open>A server that lets every agent stay.\<close>

definition idle_server :: "unit server" where
  "idle_server = \<lparr>sv_stopped = (\<lambda>_. False),
     sv_update = (\<lambda>(command, q) w. (Some \<lparr>rsp_reply = \<lparr>reply_result = 1, reply_error = 0, applied_sequence = command_sequence command,
         reply_phase = 3\<rparr>, rsp_control = Action_Batch (map (\<lambda>st. (state_id st, 0)) (filter (\<lambda>st. \<not> state_done st) (req_agents q)))\<rparr>, w)),
     sv_sleep = (\<lambda>_ w. w)\<rparr>"

lemma idle_patient: "waits (update_link idle_server cs) q c 1 w"
  by (cases q) (simp add: update_link_def idle_server_def update_wait_def)

lemma idle_patient_all: "\<forall>cs q c w. \<exists>k. waits (update_link idle_server cs) q c k w"
  using idle_patient by blast

lemma sample_start: "open_at sample_maze (env_start sample_maze)"
  by (simp add: sample_maze_def open_at_def is_walkable_def)

theorem client_episode_returns_witness:
  "\<exists>result s'. client_episode idle_server True (begin_episode 2 sample_maze sample_cursor ()) = Some (result, s')"
  by (rule client_episode_returns [OF sample_start _ idle_patient_all]) simp



end
