(* ===== verification/AtomicWrite.thy ===== *)
theory AtomicWrite
  imports PyPath
begin

text \<open>
  Publishing a file: write a temporary file beside it, then \<open>os.replace\<close>. The model lists every state
  of the file system between the system calls, so what a concurrent reader, or a crash, can see is
  explicit. The locale \<open>publisher\<close> is what readers of a published file rely on.
\<close>

datatype 'c content = Whole 'c | Partial

type_synonym 'c files = "string \<rightharpoonup> 'c content"

text \<open>Where a run fails.\<close>

datatype fault = No_Fault | Open_Fails | Write_Fails | Replace_Fails

text \<open>The system calls of one run, before any cleanup: the states after \<open>open\<close>, \<open>write\<close> and \<open>replace\<close>.\<close>

definition write_states :: "fault \<Rightarrow> string \<Rightarrow> string \<Rightarrow> 'c \<Rightarrow> 'c files \<Rightarrow> 'c files list" where
  "write_states ft tmp path v f =
     (let opened = f(tmp \<mapsto> Partial);
          written = f(tmp \<mapsto> Whole v);
          replaced = (f(tmp := None))(path \<mapsto> Whole v) in
      case ft of
        Open_Fails \<Rightarrow> [f]
      | Write_Fails \<Rightarrow> [f, opened]
      | Replace_Fails \<Rightarrow> [f, opened, written]
      | No_Fault \<Rightarrow> [f, opened, written, replaced])"

text \<open>With a \<open>finally\<close> that unlinks the temporary file.\<close>

definition write_states_clean :: "fault \<Rightarrow> string \<Rightarrow> string \<Rightarrow> 'c \<Rightarrow> 'c files \<Rightarrow> 'c files list" where
  "write_states_clean ft tmp path v f =
     (let ss = write_states ft tmp path v f in ss @ [(last ss)(tmp := None)])"

text \<open>\<open>path.with_name(f".{path.name}.{token}.tmp")\<close>\<close>

definition temp_name :: "string \<Rightarrow> string \<Rightarrow> string" where
  "temp_name path token =
     (let name = basename path; dir = take (length path - length name) path in
      dir @ ''.'' @ name @ ''.'' @ token @ ''.tmp'')"

lemma basename_suffix: "\<exists>dir. path = dir @ basename path"
proof -
  have "\<exists>dir. s = dir @ last (split_on c s)" for c s
  proof (induction s)
    case (Cons d s)
    then obtain dir where dir: "s = dir @ last (split_on c s)" by blast
    show ?case
    proof (cases "d = c")
      case True
      then show ?thesis using dir by (intro exI [of _ "d # dir"]) simp
    next
      case False
      obtain p ps where p: "split_on c s = p # ps" by (cases "split_on c s") auto
      show ?thesis
      proof (cases "ps = []")
        case True
        then have "s = p" using p join_split [of c s] by simp
        with False True p show ?thesis by (intro exI [of _ "[]"]) simp
      next
        case ps: False
        then show ?thesis using False p dir by (intro exI [of _ "d # dir"]) simp
      qed
    qed
  qed simp
  then show ?thesis unfolding basename_def by blast
qed

lemma temp_name_neq: "temp_name path token \<noteq> path"
proof -
  obtain dir where d: "path = dir @ basename path" using basename_suffix by blast
  then have "take (length path - length (basename path)) path = dir"
    by (metis append_eq_conv_conj length_append add_diff_cancel_right')
  then have "length (temp_name path token) > length dir + length (basename path)"
    by (simp add: temp_name_def Let_def)
  moreover have "length path = length dir + length (basename path)" using d by (metis length_append)
  ultimately show ?thesis by auto
qed

section \<open>The interface\<close>

locale publisher =
  fixes states :: "fault \<Rightarrow> string \<Rightarrow> string \<Rightarrow> 'c \<Rightarrow> 'c files \<Rightarrow> 'c files list"
  assumes old_or_new: "tmp \<noteq> path \<Longrightarrow> g \<in> set (states ft tmp path v f) \<Longrightarrow> g path = f path \<or> g path = Some (Whole v)"
    and others: "g \<in> set (states ft tmp path v f) \<Longrightarrow> p \<noteq> tmp \<Longrightarrow> p \<noteq> path \<Longrightarrow> g p = f p"
    and starts: "states ft tmp path v f \<noteq> [] \<and> hd (states ft tmp path v f) = f"
    and success: "tmp \<noteq> path \<Longrightarrow> last (states No_Fault tmp path v f) path = Some (Whole v)"
    and failure: "tmp \<noteq> path \<Longrightarrow> ft \<noteq> No_Fault \<Longrightarrow> last (states ft tmp path v f) path = f path"
begin

text \<open>A history of runs, each with its own fault, temporary name and value.\<close>

primrec history :: "(fault \<times> string \<times> 'c) list \<Rightarrow> string \<Rightarrow> 'c files \<Rightarrow> 'c files list" where
  "history [] path f = [f]"
| "history (r # rs) path f =
     (let ss = states (fst r) (fst (snd r)) path (snd (snd r)) f in ss @ history rs path (last ss))"

text \<open>A reader at any moment finds the first content or a whole published value, never a part.\<close>

lemma reader_sees_whole:
  assumes "\<forall>r \<in> set rs. fst (snd r) \<noteq> path" and "g \<in> set (history rs path f)"
  shows "g path = f path \<or> (\<exists>r \<in> set rs. g path = Some (Whole (snd (snd r))))"
  using assms
proof (induction rs arbitrary: f)
  case Nil
  then show ?case by simp
next
  case (Cons r rs)
  let ?ss = "states (fst r) (fst (snd r)) path (snd (snd r)) f"
  have here: "h path = f path \<or> h path = Some (Whole (snd (snd r)))" if "h \<in> set ?ss" for h
    by (rule old_or_new [OF _ that]) (use Cons.prems(1) in simp)
  show ?case
  proof (cases "g \<in> set ?ss")
    case True
    with here show ?thesis by auto
  next
    case False
    then have "g \<in> set (history rs path (last ?ss))" using Cons.prems(2) by (simp add: Let_def)
    then have "g path = last ?ss path \<or> (\<exists>r \<in> set rs. g path = Some (Whole (snd (snd r))))"
      using Cons.IH Cons.prems(1) by simp
    moreover have "last ?ss \<in> set ?ss" using starts by simp
    ultimately show ?thesis using here by fastforce
  qed
qed

end

interpretation plain: publisher write_states
  by unfold_locales (auto simp: write_states_def Let_def split: fault.splits)

interpretation clean: publisher write_states_clean
  by unfold_locales (auto simp: write_states_clean_def write_states_def Let_def split: fault.splits if_splits)

text \<open>With the cleanup no temporary file is left behind.\<close>

lemma clean_no_temp: "last (write_states_clean ft tmp path v f) tmp = None"
  by (simp add: write_states_clean_def Let_def)

lemma temp_name_join:
  assumes "relative n" and "slash \<notin> set n"
  shows "temp_name (path_join d n) token = dir_prefix d @ ''.'' @ n @ ''.'' @ token @ ''.tmp''"
  using basename_path_join [OF assms, of d] path_join_prefix [OF assms(1), of d] by (simp add: temp_name_def Let_def)

end
