(* ===== verification/ReplayConfig.thy ===== *)
theory ReplayConfig
  imports PyPath
begin

text \<open>
  The configuration of the replay service: \<open>_strip_inline_comment\<close>, \<open>_strip_quotes\<close>,
  \<open>_read_viz_config\<close>, \<open>_parse_port\<close> and \<open>_resolve_replay_config\<close>. Errors are values; what the file
  system holds is a parameter.
\<close>

datatype config_error =
    Unterminated_Quote
  | Mismatched_Quotes
  | Not_Regular_Config
  | Unreadable_Config
  | Duplicate_Field string
  | Missing_Field string
  | Not_An_Integer
  | Port_Out_Of_Range
  | Invalid_Directory
  | Not_A_Directory string

section \<open>Lines\<close>

definition quote_char :: "char \<Rightarrow> bool" where
  "quote_char c \<longleftrightarrow> c = CHR 0x27 \<or> c = CHR 0x22"

text \<open>\<open>quote\<close> is the quote that is open, if any. The result is what stands before the comment.\<close>

fun scan_comment :: "char option \<Rightarrow> string \<Rightarrow> config_error + string" where
  "scan_comment None [] = Inr []"
| "scan_comment (Some q) [] = Inl Unterminated_Quote"
| "scan_comment (Some q) (c # s) =
     map_sum id (Cons c) (scan_comment (if c = q then None else Some q) s)"
| "scan_comment None (c # s) =
     (if quote_char c then map_sum id (Cons c) (scan_comment (Some c) s)
      else if c = CHR ''#'' then Inr []
      else map_sum id (Cons c) (scan_comment None s))"

definition strip_inline_comment :: "string \<Rightarrow> config_error + string" where
  "strip_inline_comment = scan_comment None"

definition strip_quotes :: "string \<Rightarrow> config_error + string" where
  "strip_quotes v =
     (if v = [] then Inr v
      else if quote_char (hd v) \<or> quote_char (last v)
      then if length v < 2 \<or> hd v \<noteq> last v then Inl Mismatched_Quotes else Inr (butlast (tl v))
      else Inr v)"

section \<open>The file\<close>

record viz_state =
  current_section :: string
  viz_values :: "string \<rightharpoonup> string"

definition viz_line :: "string \<Rightarrow> viz_state \<Rightarrow> config_error + viz_state" where
  "viz_line raw st =
     (case strip_inline_comment raw of
        Inl err \<Rightarrow> Inl err
      | Inr line \<Rightarrow>
          let trimmed = strip line in
          case find_char (CHR '':'') trimmed of
            None \<Rightarrow> Inr st
          | Some pos \<Rightarrow>
              let key_part = strip (take pos trimmed); value_part = strip (drop (Suc pos) trimmed);
                  has_indent = (line \<noteq> [] \<and> (hd line = CHR '' '' \<or> hd line = CHR 0x09)) in
              if \<not> has_indent \<and> value_part = [] then Inr (st\<lparr>current_section := key_part\<rparr>)
              else if \<not> has_indent \<or> current_section st \<noteq> ''viz'' then Inr st
              else if key_part \<notin> {''output_dir'', ''server_port''} then Inr st
              else if viz_values st key_part \<noteq> None then Inl (Duplicate_Field key_part)
              else case strip_quotes value_part of
                  Inl err \<Rightarrow> Inl err
                | Inr v \<Rightarrow> Inr (st\<lparr>viz_values := (viz_values st)(key_part \<mapsto> v)\<rparr>))"

primrec viz_lines :: "string list \<Rightarrow> viz_state \<Rightarrow> config_error + viz_state" where
  "viz_lines [] st = Inr st"
| "viz_lines (raw # lines) st = (case viz_line raw st of Inl err \<Rightarrow> Inl err | Inr st' \<Rightarrow> viz_lines lines st')"

definition require_field :: "string \<Rightarrow> (string \<rightharpoonup> string) \<Rightarrow> config_error + string" where
  "require_field key vs = (case vs key of None \<Rightarrow> Inl (Missing_Field key) | Some v \<Rightarrow> if v = [] then Inl (Missing_Field key) else Inr v)"

definition viz_fields :: "string list \<Rightarrow> config_error + (string \<times> string)" where
  "viz_fields lines =
     (case viz_lines lines \<lparr>current_section = [], viz_values = Map.empty\<rparr> of
        Inl err \<Rightarrow> Inl err
      | Inr st \<Rightarrow>
          case require_field ''output_dir'' (viz_values st) of
            Inl err \<Rightarrow> Inl err
          | Inr dir \<Rightarrow>
              case require_field ''server_port'' (viz_values st) of
                Inl err \<Rightarrow> Inl err
              | Inr port \<Rightarrow> Inr (dir, port))"

text \<open>
  What is found at a path. A file carries its lines, as \<open>splitlines\<close> gives them, or nothing when it
  cannot be read, and its path without links.
\<close>

datatype path_kind = Absent | Plain_File "string list option" string | Plain_Dir | Sym_Link path_kind

text \<open>\<open>Path.exists\<close> follows links; a link to nothing does not exist.\<close>

primrec path_exists :: "path_kind \<Rightarrow> bool" where
  "path_exists Absent \<longleftrightarrow> False"
| "path_exists (Plain_File content resolved) \<longleftrightarrow> True"
| "path_exists Plain_Dir \<longleftrightarrow> True"
| "path_exists (Sym_Link k) \<longleftrightarrow> path_exists k"

primrec is_file_kind :: "path_kind \<Rightarrow> bool" where
  "is_file_kind Absent \<longleftrightarrow> False"
| "is_file_kind (Plain_File content resolved) \<longleftrightarrow> True"
| "is_file_kind Plain_Dir \<longleftrightarrow> False"
| "is_file_kind (Sym_Link k) \<longleftrightarrow> is_file_kind k"

record config_env =
  kind_at :: "string \<Rightarrow> path_kind"
  cwd :: string
  expanduser :: "string \<Rightarrow> string"

definition read_viz_config :: "config_env \<Rightarrow> string \<Rightarrow> config_error + (string \<times> string \<times> string)" where
  "read_viz_config env argument =
     (let path = expanduser env argument;
          path = (if is_absolute path then path else path_join (cwd env) path) in
      case kind_at env path of
        Plain_File content resolved \<Rightarrow>
          (case content of
             None \<Rightarrow> Inl Unreadable_Config
           | Some lines \<Rightarrow> map_sum id (\<lambda>(dir, port). (resolved, dir, port)) (viz_fields lines))
      | _ \<Rightarrow> Inl Not_Regular_Config)"

section \<open>The resolved configuration\<close>

definition parse_port :: "string \<Rightarrow> config_error + int" where
  "parse_port v =
     (case parse_int v of
        None \<Rightarrow> Inl Not_An_Integer
      | Some port \<Rightarrow> if port \<le> 0 \<or> port > 65535 then Inl Port_Out_Of_Range else Inr port)"

text \<open>\<open>override or configured\<close>\<close>

definition or_else :: "string option \<Rightarrow> string \<Rightarrow> string" where
  "or_else override configured = (case override of None \<Rightarrow> configured | Some v \<Rightarrow> if v = [] then configured else v)"

definition clean_value :: "string \<Rightarrow> bool" where
  "clean_value v \<longleftrightarrow> v \<noteq> [] \<and> v = strip v \<and> CHR 0x0A \<notin> set v \<and> CHR 0x0D \<notin> set v"

text \<open>\<open>Path.parent\<close> of an absolute path to a file\<close>

definition dirname :: "string \<Rightarrow> string" where
  "dirname p = (let head = take (length p - length (basename p)) p in
     if head \<noteq> [] \<and> (\<exists>c \<in> set head. c \<noteq> slash) then rev (dropWhile (\<lambda>c. c = slash) (rev head)) else head)"

definition resolve_replay_config ::
    "config_env \<Rightarrow> string \<Rightarrow> string option \<Rightarrow> string option \<Rightarrow> config_error + (string \<times> string \<times> int)" where
  "resolve_replay_config env argument dir_override port_override =
     (case read_viz_config env argument of
        Inl err \<Rightarrow> Inl err
      | Inr (config_path, configured_dir, configured_port) \<Rightarrow>
          let dir = or_else dir_override configured_dir in
          if \<not> clean_value dir then Inl Invalid_Directory
          else
            let dir = expanduser env dir;
                dir = (if is_absolute dir then dir else path_join (dirname config_path) dir);
                dir = abspath (cwd env) (normpath dir) in
            if path_exists (kind_at env dir) \<and> kind_at env dir \<noteq> Plain_Dir then Inl (Not_A_Directory dir)
            else map_sum id (\<lambda>port. (config_path, dir, port)) (parse_port (or_else port_override configured_port)))"

section \<open>Lemmas\<close>

lemma map_sum_Inr: "map_sum id g s = Inr y \<longleftrightarrow> (\<exists>x. s = Inr x \<and> y = g x)"
  by (cases s) auto

lemma scan_comment_plain: "\<forall>c \<in> set s. \<not> quote_char c \<and> c \<noteq> CHR ''#'' \<Longrightarrow> scan_comment None (s @ t) = map_sum id ((@) s) (scan_comment None t)"
  by (induction s; cases "scan_comment None t") auto

lemma scan_comment_quoted: "q \<notin> set s \<Longrightarrow> scan_comment (Some q) (s @ q # t) = map_sum id ((@) (s @ [q])) (scan_comment None t)"
  by (induction s; cases "scan_comment None t") auto

text \<open>A line \<open>key: value\<close> of the section, its value plain or quoted.\<close>

lemma strip_inner: "s \<noteq> [] \<Longrightarrow> \<not> py_space (hd s) \<Longrightarrow> \<not> py_space (last s) \<Longrightarrow> \<forall>c \<in> set l. py_space c \<Longrightarrow> strip (l @ s) = s"
proof -
  assume s: "s \<noteq> []" "\<not> py_space (hd s)" "\<not> py_space (last s)" "\<forall>c \<in> set l. py_space c"
  then have "dropWhile py_space (l @ s) = s" by (cases s) (simp_all add: dropWhile_append2)
  moreover have "dropWhile py_space (rev s) = rev s" using s by (cases s rule: rev_cases) simp_all
  ultimately show ?thesis by (simp add: strip_def strip_by_def)
qed

lemma find_colon: "CHR '':'' \<notin> set k \<Longrightarrow> find_char (CHR '':'') (k @ CHR '':'' # t) = Some (length k)"
proof -
  assume "CHR '':'' \<notin> set k"
  then have "takeWhile (\<lambda>d. d \<noteq> CHR '':'') (k @ CHR '':'' # t) = k" by (induction k) auto
  then show ?thesis by (simp add: find_char_def)
qed

lemma viz_entry:
  assumes "scan_comment None (''  '' @ k @ '': '' @ v) = Inr (''  '' @ k @ '': '' @ v)"
    and "k \<in> {''output_dir'', ''server_port''}" and "v \<noteq> []" and "\<not> py_space (hd v)" and "\<not> py_space (last v)"
    and "strip_quotes v = Inr x" and "vs k = None"
  shows "viz_line (''  '' @ k @ '': '' @ v) \<lparr>current_section = ''viz'', viz_values = vs\<rparr> =
    Inr \<lparr>current_section = ''viz'', viz_values = vs(k \<mapsto> x)\<rparr>"
proof -
  have k: "k \<noteq> []" "\<not> py_space (hd k)" "CHR '':'' \<notin> set k" "\<not> py_space (last k)" using assms(2) by (auto simp: py_space_def)
  have "strip (''  '' @ (k @ '': '' @ v)) = k @ '': '' @ v"
    using k assms(3,5) by (intro strip_inner) (auto simp: py_space_def)
  moreover have "strip k = k" "strip ('' '' @ v) = v"
    using strip_inner [of k "[]"] k strip_inner [of v "'' ''"] assms(3-5) by (simp_all add: py_space_def)
  ultimately show ?thesis
    using assms(1,2,6,7) assms(3) find_colon [OF k(3), of "'' '' @ v"]
    by (auto simp: viz_line_def strip_inline_comment_def Let_def)
qed

lemma viz_header: "viz_line ''viz:'' \<lparr>current_section = [], viz_values = Map.empty\<rparr> = Inr \<lparr>current_section = ''viz'', viz_values = Map.empty\<rparr>"
proof -
  have "strip_inline_comment ''viz:'' = Inr ''viz:''" "strip ''viz:'' = ''viz:''" "strip ''viz'' = ''viz''"
    "find_char (CHR '':'') ''viz:'' = Some 3" by code_simp+
  then show ?thesis by (simp add: viz_line_def Let_def strip_def strip_by_def)
qed

lemma resolved_config_facts:
  assumes "resolve_replay_config env argument dir_override port_override = Inr (cfg, dir, port)" and "is_absolute (cwd env)"
  shows "1 \<le> port \<and> port \<le> 65535 \<and> is_absolute dir \<and> normpath dir = dir \<and>
    (kind_at env dir = Plain_Dir \<or> \<not> path_exists (kind_at env dir))"
proof -
  obtain conf_dir conf_port where read: "read_viz_config env argument = Inr (cfg, conf_dir, conf_port)"
    using assms(1) by (auto simp: resolve_replay_config_def Let_def map_sum_Inr split: sum.splits if_splits)
  define d where "d = expanduser env (or_else dir_override conf_dir)"
  define full where "full = abspath (cwd env) (normpath (if is_absolute d then d else path_join (dirname cfg) d))"
  have "dir = full" "kind_at env full = Plain_Dir \<or> \<not> path_exists (kind_at env full)"
    "parse_port (or_else port_override conf_port) = Inr port"
    using assms(1) read by (auto simp: resolve_replay_config_def Let_def map_sum_Inr d_def full_def split: if_splits)
  moreover have "1 \<le> port \<and> port \<le> 65535" using calculation(3) by (auto simp: parse_port_def split: option.splits if_splits)
  ultimately show ?thesis using abspath_absolute [OF assms(2)] by (simp add: full_def)
qed

section \<open>Properties\<close>

text \<open>A configuration that is accepted has a port from 1 to 65535 and an absolute, normalised replay directory, which
  is a directory or does not exist.\<close>

theorem resolved_config_valid:
  assumes "resolve_replay_config env argument dir_override port_override = Inr (cfg, dir, port)" and "is_absolute (cwd env)"
  shows "1 \<le> port \<and> port \<le> 65535 \<and> is_absolute dir \<and> normpath dir = dir \<and>
    (kind_at env dir = Plain_Dir \<or> \<not> path_exists (kind_at env dir))"
  using assms by (rule resolved_config_facts)

definition sample_config :: config_env where
  "sample_config =
     \<lparr>kind_at = (\<lambda>p. if p = ''/c/client.yaml'' then
        Plain_File (Some [''viz:'', ''  output_dir: log/viz  # frames'', ''  server_port: 9004'']) p else Absent),
      cwd = ''/w'', expanduser = (\<lambda>p. p)\<rparr>"

theorem resolved_config_valid_witness:
  "resolve_replay_config sample_config ''/c/client.yaml'' None None = Inr (''/c/client.yaml'', ''/c/log/viz'', 9004) \<and>
   normpath ''/c/log/viz'' = ''/c/log/viz''"
proof -
  have run: "resolve_replay_config sample_config ''/c/client.yaml'' None None = Inr (''/c/client.yaml'', ''/c/log/viz'', 9004)"
    by code_simp
  have "is_absolute (cwd sample_config)" by (simp add: sample_config_def is_absolute_def slash_def)
  from resolved_config_valid [OF run this] run show ?thesis by simp
qed

text \<open>A quoted output directory is read back exactly, comment signs, colons and quotes of the other kind included,
  when the quote that encloses it does not occur in it.\<close>

theorem quoted_directory_round_trip:
  assumes "quote_char q" and "q \<notin> set dir" and "dir \<noteq> []"
    and "prt \<noteq> [] \<and> list_all is_digit prt"
  shows "viz_fields [''viz:'', ''  output_dir: '' @ [q] @ dir @ [q], ''  server_port: '' @ prt] = Inr (dir, prt)"
proof -
  have q: "\<not> py_space q" "q \<noteq> CHR ''#''" using assms(1) by (auto simp: quote_char_def py_space_def)
  have digits: "\<forall>c \<in> set prt. is_digit c" using assms(4) by (simp add: list_all_iff)
  then have d: "\<not> py_space c \<and> \<not> quote_char c \<and> c \<noteq> CHR ''#''" if "c \<in> set prt" for c
    using that digit_not_space by (auto simp: quote_char_def is_digit_def)
  have "scan_comment None (''  output_dir: '' @ ([q] @ dir @ [q])) = Inr (''  output_dir: '' @ ([q] @ dir @ [q]))"
    using assms(1) scan_comment_quoted [OF assms(2), of "[]"] by (subst scan_comment_plain) (auto simp: quote_char_def)
  moreover have "strip_quotes ([q] @ dir @ [q]) = Inr dir" using assms(1) by (simp add: strip_quotes_def)
  ultimately have 1: "viz_line (''  '' @ ''output_dir'' @ '': '' @ ([q] @ dir @ [q])) \<lparr>current_section = ''viz'', viz_values = Map.empty\<rparr> =
      Inr \<lparr>current_section = ''viz'', viz_values = [''output_dir'' \<mapsto> dir]\<rparr>"
    by (intro viz_entry) (use q in auto)
  have "scan_comment None (''  server_port: '' @ prt) = Inr (''  server_port: '' @ prt)"
    using scan_comment_plain [of "''  server_port: '' @ prt" "[]"] d by (auto simp: quote_char_def)
  moreover have "strip_quotes prt = Inr prt" using assms(4) d by (simp add: strip_quotes_def)
  ultimately have 2: "viz_line (''  '' @ ''server_port'' @ '': '' @ prt) \<lparr>current_section = ''viz'', viz_values = [''output_dir'' \<mapsto> dir]\<rparr> =
      Inr \<lparr>current_section = ''viz'', viz_values = [''output_dir'' \<mapsto> dir, ''server_port'' \<mapsto> prt]\<rparr>"
    using assms(4) d by (intro viz_entry) auto
  show ?thesis
    using viz_header 1 2 assms(3,4) by (simp add: viz_fields_def require_field_def)
qed

theorem quoted_directory_round_trip_witness:
  "viz_fields [''viz:'', ''  output_dir: '' @ [CHR 0x22] @ ''a#b: c'' @ [CHR 0x22], ''  server_port: '' @ ''9004''] = Inr (''a#b: c'', ''9004'')"
  by (rule quoted_directory_round_trip) (simp_all add: quote_char_def is_digit_def)

text \<open>A field of the section that is given twice is an error, whatever the two values are.\<close>

theorem duplicate_field_rejected:
  assumes "current_section st = ''viz''" and "viz_values st ''output_dir'' \<noteq> None"
    and "strip_inline_comment raw = Inr (''  output_dir: '' @ v)" and "v \<noteq> [] \<and> \<not> py_space (last v)"
  shows "viz_line raw st = Inl (Duplicate_Field ''output_dir'')"
proof -
  have "strip (''  '' @ (''output_dir'' @ '': '' @ v)) = ''output_dir'' @ '': '' @ v"
    using assms(4) by (intro strip_inner) (auto simp: py_space_def)
  moreover have "strip ''output_dir'' = ''output_dir''" by code_simp
  ultimately show ?thesis
    using assms(1-3) find_colon [of "''output_dir''" "'' '' @ v"] by (simp add: viz_line_def Let_def)
qed

theorem duplicate_field_rejected_witness:
  "viz_line ''  output_dir: b'' \<lparr>current_section = ''viz'', viz_values = [''output_dir'' \<mapsto> ''a'']\<rparr> = Inl (Duplicate_Field ''output_dir'')"
proof -
  have "strip_inline_comment ''  output_dir: b'' = Inr (''  output_dir: '' @ ''b'')" by code_simp
  then show ?thesis by (rule duplicate_field_rejected [rotated 2]) (simp_all add: py_space_def)
qed

end
