(* ===== verification/ReplayProcess.thy ===== *)
theory ReplayProcess
  imports AtomicWrite Json ReplayConfig
begin

text \<open>
  The world of the replay service: files, processes, signals and a clock in tenths of a second, with
  the functions of \<open>replay_service.py\<close> that look at them: \<open>_load_state\<close>, \<open>_process_is_live\<close>,
  \<open>_process_command\<close>, \<open>_owned_replay_pid\<close>, \<open>_cleanup_state\<close>, \<open>_atomic_write_json\<close>. What other processes
  do happens while the service sleeps: the parameter \<open>tick\<close> of the operations below. An error is a
  value of \<open>service_error\<close>.
\<close>

section \<open>The world\<close>

text \<open>
  \<open>stat_text\<close> is the content of \<open>/proc/<pid>/stat\<close>, \<open>cmdline\<close> that of \<open>/proc/<pid>/cmdline\<close>; a process of
  another user cannot be signalled. \<open>exit_code\<close> is set for a child that has ended and is not yet waited for.
\<close>

record proc =
  stat_text :: string
  cmdline :: string
  foreign :: bool
  exit_code :: "int option"

text \<open>The content of a file that has been written as a whole: a document, or bytes that are no JSON.\<close>

datatype doc = Doc json | No_Json

datatype signal = SIGTERM | SIGKILL

record world =
  docs :: "doc files"
  unreadable :: "string set"
  procs :: "int \<rightharpoonup> proc"
  proc_fs :: bool
  ps_stat :: "int \<Rightarrow> (int \<times> string) option"
  ps_command :: "int \<Rightarrow> (int \<times> string) option"
  sent :: "(int \<times> signal) list"
  clock :: nat
  write_fault :: fault

datatype service_error =
    Cannot_Read_State
  | State_Not_Json
  | State_Not_Object
  | Cannot_Inspect int
  | Cannot_Read_Command int
  | No_Identity
  | Foreign_Process int
  | Cannot_Stop int
  | Did_Not_Stop int
  | No_Such_Process int
  | Write_Failed
  | Spawn_Failed
  | Invalid_Value string
  | Server_Missing
  | Incomplete_State
  | Different_Config
  | Exited_Early int
  | Startup_Timeout
  | Child_Survived
  | Config_Problem config_error
  | State_Dir_Not_Absolute
  | Stop_Not_Alone

section \<open>State files\<close>

text \<open>\<open>_state_directory\<close>; the hash of the repository path is a parameter.\<close>

definition state_directory ::
    "(string \<rightharpoonup> string) \<Rightarrow> (string \<Rightarrow> string) \<Rightarrow> string \<Rightarrow> (string \<Rightarrow> string) \<Rightarrow> string \<Rightarrow> service_error + string" where
  "state_directory env_var expand tempdir sha256_hex repo_dir =
     (let configured = (case env_var ''RL_REPLAY_STATE_DIR'' of None \<Rightarrow> [] | Some v \<Rightarrow> v) in
      if configured \<noteq> [] then
        (let dir = expand configured in if is_absolute dir then Inr dir else Inl State_Dir_Not_Absolute)
      else Inr (path_join tempdir (''maze-client-replay-'' @ take 12 (sha256_hex repo_dir))))"

definition load_state :: "string \<Rightarrow> world \<Rightarrow> service_error + (string \<times> json) list option" where
  "load_state state_file w =
     (case docs w state_file of
        None \<Rightarrow> Inr None
      | Some c \<Rightarrow>
          if state_file \<in> unreadable w then Inl Cannot_Read_State
          else case c of
              Whole (Doc (JObj kvs)) \<Rightarrow> Inr (Some kvs)
            | Whole (Doc _) \<Rightarrow> Inl State_Not_Object
            | Whole No_Json \<Rightarrow> Inl State_Not_Json
            | Partial \<Rightarrow> Inl State_Not_Json)"

text \<open>\<open>_atomic_write_json\<close>; \<open>token\<close> is the random part of the temporary name.\<close>

definition atomic_write_json :: "string \<Rightarrow> string \<Rightarrow> json \<Rightarrow> world \<Rightarrow> (service_error + unit) \<times> world" where
  "atomic_write_json token path payload w =
     (if write_fault w = No_Fault then Inr () else Inl Write_Failed,
      w\<lparr>docs := last (write_states_clean (write_fault w) (temp_name path token) path (Doc payload) (docs w))\<rparr>)"

definition remove_file :: "string \<Rightarrow> world \<Rightarrow> world" where
  "remove_file path w = w\<lparr>docs := (docs w)(path := None)\<rparr>"

definition cleanup_state :: "string \<Rightarrow> (string \<times> json) list \<Rightarrow> world \<Rightarrow> world" where
  "cleanup_state state_file kvs w =
     remove_file state_file (case obj_get kvs ''ready_file'' of Some (JStr ready) \<Rightarrow> remove_file ready w | _ \<Rightarrow> w)"

section \<open>Processes\<close>

text \<open>\<open>text.split()\<close>\<close>

fun split_ws :: "string \<Rightarrow> string list" where
  "split_ws [] = []"
| "split_ws (c # s) =
     (if py_space c then split_ws s
      else case s of
          [] \<Rightarrow> [[c]]
        | d # t \<Rightarrow> if py_space d then [c] # split_ws s
                   else case split_ws s of [] \<Rightarrow> [[c]] | p # ps \<Rightarrow> (c # p) # ps)"

definition process_is_live :: "int \<Rightarrow> world \<Rightarrow> service_error + bool" where
  "process_is_live pid w =
     (if pid \<le> 0 then Inr False
      else case procs w pid of
          None \<Rightarrow> Inr False
        | Some p \<Rightarrow>
            if foreign p then Inl (Cannot_Inspect pid)
            else if proc_fs w
            then (let parts = split_ws (stat_text p) in Inr (2 < length parts \<and> parts ! 2 \<noteq> ''Z''))
            else case ps_stat w pid of
                None \<Rightarrow> Inl (Cannot_Inspect pid)
              | Some (code, out) \<Rightarrow>
                  if code \<noteq> 0 \<or> strip out = [] then Inl (Cannot_Inspect pid)
                  else Inr (\<not> has_prefix ''Z'' (strip out)))"

definition process_command :: "int \<Rightarrow> world \<Rightarrow> service_error + string list" where
  "process_command pid w =
     (case (if proc_fs w then procs w pid else None) of
        Some p \<Rightarrow> Inr (filter (\<lambda>part. part \<noteq> []) (split_on (CHR 0x00) (cmdline p)))
      | None \<Rightarrow>
          case ps_command w pid of
            None \<Rightarrow> Inl (Cannot_Read_Command pid)
          | Some (code, out) \<Rightarrow>
              if code \<noteq> 0 \<or> strip out = []
              then (case process_is_live pid w of
                      Inl err \<Rightarrow> Inl err
                    | Inr live \<Rightarrow> if live then Inl (Cannot_Read_Command pid) else Inr [])
              else Inr [strip out])"

definition command_matches :: "string \<Rightarrow> string \<Rightarrow> string list \<Rightarrow> bool" where
  "command_matches script instance_id command =
     (case command of
        [c] \<Rightarrow> has_substring script c \<and> has_substring instance_id c
      | _ \<Rightarrow> script \<in> set command \<and> instance_id \<in> set command)"

definition state_identity :: "(string \<times> json) list \<Rightarrow> (int \<times> string) option" where
  "state_identity kvs =
     (case (obj_get kvs ''pid'', obj_get kvs ''instance_id'') of
        (Some (JInt pid), Some (JStr instance_id)) \<Rightarrow> if pid \<le> 0 \<or> instance_id = [] then None else Some (pid, instance_id)
      | _ \<Rightarrow> None)"

definition owned_replay_pid :: "(string \<times> json) list \<Rightarrow> string \<Rightarrow> world \<Rightarrow> service_error + int option" where
  "owned_replay_pid kvs script w =
     (case state_identity kvs of
        None \<Rightarrow> Inl No_Identity
      | Some (pid, instance_id) \<Rightarrow>
          case process_is_live pid w of
            Inl err \<Rightarrow> Inl err
          | Inr live \<Rightarrow>
              if \<not> live then Inr None
              else case process_command pid w of
                  Inl err \<Rightarrow> Inl err
                | Inr command \<Rightarrow>
                    if command = [] then Inr None
                    else if \<not> command_matches script instance_id command then Inl (Foreign_Process pid)
                    else Inr (Some pid))"

text \<open>\<open>os.kill\<close>: a signal that could be sent is recorded.\<close>

datatype kill_result = Killed | No_Process | Not_Permitted

definition os_kill :: "int \<Rightarrow> signal \<Rightarrow> world \<Rightarrow> kill_result \<times> world" where
  "os_kill pid sig w =
     (case procs w pid of
        None \<Rightarrow> (No_Process, w)
      | Some p \<Rightarrow> if foreign p then (Not_Permitted, w) else (Killed, w\<lparr>sent := sent w @ [(pid, sig)]\<rparr>))"

text \<open>\<open>time.sleep(0.1)\<close>: whatever else runs, runs now.\<close>

definition sleep :: "(world \<Rightarrow> world) \<Rightarrow> world \<Rightarrow> world" where
  "sleep tick w = (tick w)\<lparr>clock := Suc (clock w), sent := sent w\<rparr>"

text \<open>\<open>while _process_is_live(pid) and time.monotonic() < deadline: time.sleep(0.1)\<close>\<close>

function wait_gone :: "(world \<Rightarrow> world) \<Rightarrow> int \<Rightarrow> nat \<Rightarrow> world \<Rightarrow> (service_error + unit) \<times> world" where
  "wait_gone tick pid deadline w =
     (case process_is_live pid w of
        Inl err \<Rightarrow> (Inl err, w)
      | Inr live \<Rightarrow> if live \<and> clock w < deadline then wait_gone tick pid deadline (sleep tick w) else (Inr (), w))"
  by pat_completeness auto
termination
  by (relation "measure (\<lambda>(tick, pid, deadline, w). deadline - clock w)") (auto simp: sleep_def)

declare wait_gone.simps [simp del]

definition public_url :: "string \<Rightarrow> int \<Rightarrow> string" where
  "public_url host port =
     (let h = (if host = ''0.0.0.0'' \<or> host = ''::'' then ''127.0.0.1'' else host);
          h = (if CHR '':'' \<in> set h \<and> \<not> has_prefix ''['' h then ''['' @ h @ '']'' else h)
      in ''http://'' @ h @ '':'' @ str_int port @ ''/'')"

section \<open>Lemmas\<close>

lemma process_is_live_docs [simp]: "process_is_live pid (w\<lparr>docs := d\<rparr>) = process_is_live pid w"
  by (cases "procs w pid") (simp_all add: process_is_live_def)

lemma process_is_live_sent [simp]: "process_is_live pid (w\<lparr>sent := d\<rparr>) = process_is_live pid w"
  by (cases "procs w pid") (simp_all add: process_is_live_def)

lemma remove_file_simps [simp]:
  "procs (remove_file p w) = procs w" "sent (remove_file p w) = sent w" "clock (remove_file p w) = clock w"
  "unreadable (remove_file p w) = unreadable w" "write_fault (remove_file p w) = write_fault w"
  "docs (remove_file p w) q = (if q = p then None else docs w q)"
  by (simp_all add: remove_file_def)

lemma cleanup_state_simps [simp]:
  "procs (cleanup_state f kvs w) = procs w" "sent (cleanup_state f kvs w) = sent w" "clock (cleanup_state f kvs w) = clock w"
  "unreadable (cleanup_state f kvs w) = unreadable w" "write_fault (cleanup_state f kvs w) = write_fault w"
  "docs (cleanup_state f kvs w) f = None"
  "obj_get kvs ''ready_file'' = Some (JStr r) \<Longrightarrow> docs (cleanup_state f kvs w) r = None"
  by (simp_all add: cleanup_state_def split: option.split json.split)

lemma process_is_live_cleanup [simp]: "process_is_live pid (cleanup_state f kvs w) = process_is_live pid w"
  by (simp add: cleanup_state_def remove_file_def split: option.split json.split)

lemma load_state_None [simp]: "docs w f = None \<Longrightarrow> load_state f w = Inr None"
  by (simp add: load_state_def)

lemma atomic_write_simps [simp]:
  "procs (snd (atomic_write_json t p v w)) = procs w" "sent (snd (atomic_write_json t p v w)) = sent w"
  "clock (snd (atomic_write_json t p v w)) = clock w" "unreadable (snd (atomic_write_json t p v w)) = unreadable w"
  by (simp_all add: atomic_write_json_def)

lemma atomic_write_keeps:
  "atomic_write_json t p v w = (r, w') \<Longrightarrow> procs w' = procs w \<and> sent w' = sent w \<and> clock w' = clock w \<and> unreadable w' = unreadable w"
  by (auto simp: atomic_write_json_def)

text \<open>The contract of the publisher, for the files of the service.\<close>

lemma atomic_write_ok: "write_fault w = No_Fault \<Longrightarrow> docs (snd (atomic_write_json t p v w)) p = Some (Whole (Doc v))"
  using clean.success [OF temp_name_neq] by (simp add: atomic_write_json_def)

lemma atomic_write_failed: "write_fault w \<noteq> No_Fault \<Longrightarrow> docs (snd (atomic_write_json t p v w)) p = docs w p"
  using clean.failure [OF temp_name_neq] by (simp add: atomic_write_json_def)

lemma atomic_write_other:
  "q \<noteq> p \<Longrightarrow> q \<noteq> temp_name p t \<Longrightarrow> docs (snd (atomic_write_json t p v w)) q = docs w q"
proof -
  assume q: "q \<noteq> p" "q \<noteq> temp_name p t"
  let ?ss = "write_states_clean (write_fault w) (temp_name p t) p (Doc v) (docs w)"
  have "last ?ss \<in> set ?ss" using clean.starts [of "write_fault w" "temp_name p t" p "Doc v" "docs w"] by simp
  from clean.others [OF this q(2,1)] show ?thesis by (simp add: atomic_write_json_def)
qed

lemma atomic_write_result: "fst (atomic_write_json t p v w) = Inr () \<longleftrightarrow> write_fault w = No_Fault"
  by (simp add: atomic_write_json_def)

lemma owned_identity:
  assumes "owned_replay_pid kvs script w = Inr (Some pid)"
  shows "\<exists>instance_id command. state_identity kvs = Some (pid, instance_id) \<and> 0 < pid \<and> process_is_live pid w = Inr True \<and>
    process_command pid w = Inr command \<and> command_matches script instance_id command"
proof -
  have pos: "0 < p" if "state_identity kvs = Some (p, i)" for p i
    using that by (auto simp: state_identity_def split: option.splits json.splits if_splits)
  show ?thesis
    using assms pos unfolding owned_replay_pid_def
    by (auto split: option.splits sum.splits if_splits)
qed

lemma live_killable: "process_is_live pid w = Inr True \<Longrightarrow> os_kill pid sig w = (Killed, w\<lparr>sent := sent w @ [(pid, sig)]\<rparr>)"
  by (auto simp: process_is_live_def os_kill_def split: option.splits if_splits)

lemma sleep_simps [simp]: "sent (sleep tick w) = sent w" "clock (sleep tick w) = Suc (clock w)"
  by (simp_all add: sleep_def)

lemma wait_gone_sent: "sent (snd (wait_gone tick pid deadline w)) = sent w"
proof (induction tick pid deadline w rule: wait_gone.induct)
  case (1 tick pid deadline w)
  then show ?case by (subst wait_gone.simps) (auto split: sum.split)
qed

lemma wait_gone_clock: "clock w \<le> clock (snd (wait_gone tick pid deadline w)) \<and> clock (snd (wait_gone tick pid deadline w)) \<le> max (clock w) deadline"
proof (induction tick pid deadline w rule: wait_gone.induct)
  case (1 tick pid deadline w)
  show ?case
  proof (cases "process_is_live pid w = Inr True \<and> clock w < deadline")
    case True
    then show ?thesis using 1 [of True] by (subst (1 2) wait_gone.simps) auto
  next
    case False
    then show ?thesis by (subst (1 2) wait_gone.simps) (auto split: sum.split)
  qed
qed

end
