(* ===== verification/ReplayService.thy ===== *)
theory ReplayService
  imports ReplayProcess ArgParse
begin

text \<open>
  The operations of the replay service: \<open>_stop_replay\<close>, \<open>_validate_ready_receipt\<close>, \<open>_start_replay\<close>.
  An operation holds the state lock from its first look at the state file to its end, so no
  other operation runs in between; everything else that runs does so in \<open>tick\<close>.
\<close>

section \<open>Stopping\<close>

datatype stop_result = Not_Running | Stopped int

text \<open>
  The part after the ownership check. The result of the second check is not looked at: only an error of
  it keeps the process from being killed.
\<close>

definition kill_hard :: "(world \<Rightarrow> world) \<Rightarrow> (string \<times> json) list \<Rightarrow> string \<Rightarrow> int \<Rightarrow> world \<Rightarrow> (service_error + unit) \<times> world" where
  "kill_hard tick kvs script pid w =
     (case owned_replay_pid kvs script w of
        Inl err \<Rightarrow> (Inl err, w)
      | Inr _ \<Rightarrow>
          case os_kill pid SIGKILL w of
            (No_Process, w) \<Rightarrow> (Inl (No_Such_Process pid), w)
          | (Not_Permitted, w) \<Rightarrow> (Inl (Cannot_Stop pid), w)
          | (Killed, w) \<Rightarrow>
              case wait_gone tick pid (clock w + 20) w of
                (Inl err, w) \<Rightarrow> (Inl err, w)
              | (Inr _, w) \<Rightarrow>
                  case process_is_live pid w of
                    Inl err \<Rightarrow> (Inl err, w)
                  | Inr live \<Rightarrow> if live then (Inl (Did_Not_Stop pid), w) else (Inr (), w))"

definition terminate_process ::
    "(world \<Rightarrow> world) \<Rightarrow> (string \<times> json) list \<Rightarrow> string \<Rightarrow> int \<Rightarrow> world \<Rightarrow> (service_error + unit) \<times> world" where
  "terminate_process tick kvs script pid w =
     (case os_kill pid SIGTERM w of
        (Not_Permitted, w) \<Rightarrow> (Inl (Cannot_Stop pid), w)
      | (_, w) \<Rightarrow>
          case wait_gone tick pid (clock w + 50) w of
            (Inl err, w) \<Rightarrow> (Inl err, w)
          | (Inr _, w) \<Rightarrow>
              case process_is_live pid w of
                Inl err \<Rightarrow> (Inl err, w)
              | Inr live \<Rightarrow> if live then kill_hard tick kvs script pid w else (Inr (), w))"

definition stop_replay :: "(world \<Rightarrow> world) \<Rightarrow> string \<Rightarrow> string \<Rightarrow> world \<Rightarrow> (service_error + stop_result) \<times> world" where
  "stop_replay tick state_file script w =
     (case load_state state_file w of
        Inl err \<Rightarrow> (Inl err, w)
      | Inr None \<Rightarrow> (Inr Not_Running, w)
      | Inr (Some kvs) \<Rightarrow>
          case owned_replay_pid kvs script w of
            Inl err \<Rightarrow> (Inl err, w)
          | Inr None \<Rightarrow> (Inr Not_Running, cleanup_state state_file kvs w)
          | Inr (Some pid) \<Rightarrow>
              case terminate_process tick kvs script pid w of
                (Inl err, w) \<Rightarrow> (Inl err, w)
              | (Inr _, w) \<Rightarrow> (Inr (Stopped pid), cleanup_state state_file kvs w))"

section \<open>Starting\<close>

record start_args =
  host :: string
  port :: int
  validation_id :: string
  config_path :: string
  replay_dir :: string
  script_path :: string
  state_dir :: string
  repo_dir :: string
  log_file :: string
  python :: string

definition state_file :: "start_args \<Rightarrow> string" where
  "state_file a = path_join (state_dir a) ''service.json''"

definition ready_file :: "start_args \<Rightarrow> string \<Rightarrow> string" where
  "ready_file a instance_id = path_join (state_dir a) (''ready-'' @ instance_id @ ''.json'')"

definition validate_ready_receipt :: "string \<Rightarrow> int \<Rightarrow> string \<Rightarrow> start_args \<Rightarrow> world \<Rightarrow> bool" where
  "validate_ready_receipt ready pid instance_id a w =
     (if ready \<in> unreadable w then False
      else case docs w ready of
          Some (Whole (Doc (JObj kvs))) \<Rightarrow>
            (case obj_get kvs ''schema_version'' of Some v \<Rightarrow> py_eq v (JInt 1) | None \<Rightarrow> False) \<and>
            obj_get kvs ''source'' = Some (JStr ''client-replay-ready'') \<and>
            (case obj_get kvs ''pid'' of Some v \<Rightarrow> py_eq v (JInt pid) | None \<Rightarrow> False) \<and>
            obj_get kvs ''instance_id'' = Some (JStr instance_id) \<and>
            obj_get kvs ''replay_dir'' = Some (JStr (replay_dir a)) \<and>
            obj_get kvs ''host'' = Some (JStr (host a)) \<and>
            (case obj_get kvs ''port'' of Some v \<Rightarrow> py_eq v (JInt (port a)) | None \<Rightarrow> False)
        | _ \<Rightarrow> False)"

definition server_command :: "start_args \<Rightarrow> string \<Rightarrow> string list" where
  "server_command a instance_id =
     [python a, ''-u'', script_path a, ''--dir'', replay_dir a, ''--host'', host a, ''--port'', str_int (port a),
      ''--mode'', ''evaluation'', ''--validation-id'', validation_id a, ''--instance-id'', instance_id,
      ''--ready-file'', ready_file a instance_id]"

definition service_state :: "string \<Rightarrow> start_args \<Rightarrow> string \<Rightarrow> int \<Rightarrow> rat \<Rightarrow> json" where
  "service_state status a instance_id pid started_at = JObj
     [(''schema_version'', JInt 1), (''status'', JStr status), (''pid'', JInt pid), (''instance_id'', JStr instance_id),
      (''repo_dir'', JStr (repo_dir a)), (''server_script'', JStr (script_path a)), (''config_path'', JStr (config_path a)),
      (''replay_dir'', JStr (replay_dir a)), (''host'', JStr (host a)), (''port'', JInt (port a)),
      (''validation_id'', JStr (validation_id a)), (''log_file'', JStr (log_file a)),
      (''ready_file'', JStr (ready_file a instance_id)), (''started_at'', JFloat started_at)]"

definition state_fields :: "json \<Rightarrow> (string \<times> json) list" where
  "state_fields v = (case v of JObj kvs \<Rightarrow> kvs | _ \<Rightarrow> [])"

text \<open>\<open>process.poll()\<close> on a child that has not been waited for: an ended child is waited for and gone.\<close>

definition poll_child :: "int \<Rightarrow> world \<Rightarrow> int option \<times> world" where
  "poll_child pid w =
     (case procs w pid of
        None \<Rightarrow> (Some 0, w)
      | Some p \<Rightarrow>
          case exit_code p of
            None \<Rightarrow> (None, w)
          | Some code \<Rightarrow> (Some code, w\<lparr>procs := (procs w)(pid := None)\<rparr>))"

text \<open>\<open>process.wait(timeout)\<close>: whether the child has ended by the deadline.\<close>

function wait_child :: "(world \<Rightarrow> world) \<Rightarrow> int \<Rightarrow> nat \<Rightarrow> world \<Rightarrow> bool \<times> world" where
  "wait_child tick pid deadline w =
     (case poll_child pid w of
        (Some code, w') \<Rightarrow> (True, w')
      | (None, w') \<Rightarrow> if clock w < deadline then wait_child tick pid deadline (sleep tick w) else (False, w))"
  by pat_completeness auto
termination
  by (relation "measure (\<lambda>(tick, pid, deadline, w). deadline - clock w)") (auto simp: sleep_def)

declare wait_child.simps [simp del]

text \<open>The handler of a failed start: the child is ended if it has not ended, and the state removed.\<close>

definition abort_start ::
    "(world \<Rightarrow> world) \<Rightarrow> string \<Rightarrow> (string \<times> json) list \<Rightarrow> int \<Rightarrow> bool \<Rightarrow> service_error \<Rightarrow> world \<Rightarrow> service_error \<times> world" where
  "abort_start tick file kvs pid polled err w =
     (let (ended, w) = (if polled then (True, w) else case poll_child pid w of (code, w) \<Rightarrow> (code \<noteq> None, w)) in
      if ended then (err, cleanup_state file kvs w)
      else
        let w = snd (os_kill pid SIGTERM w);
            (ended, w) = wait_child tick pid (clock w + 20) w in
        if ended then (err, cleanup_state file kvs w)
        else
          let w = snd (os_kill pid SIGKILL w);
              (ended, w) = wait_child tick pid (clock w + 20) w in
          if ended then (err, cleanup_state file kvs w) else (Child_Survived, w))"

datatype start_result = Started int | Already_Running int

text \<open>The loop that waits for the receipt. The flag of an error tells whether \<open>poll\<close> has seen the end of the child.\<close>

function await_ready ::
    "(world \<Rightarrow> world) \<Rightarrow> start_args \<Rightarrow> string \<Rightarrow> int \<Rightarrow> nat \<Rightarrow> world \<Rightarrow> (service_error \<times> bool + unit) \<times> world" where
  "await_ready tick a instance_id pid deadline w =
     (if clock w < deadline
      then if validate_ready_receipt (ready_file a instance_id) pid instance_id a w then (Inr (), w)
        else case poll_child pid w of
            (Some code, w') \<Rightarrow> (Inl (Exited_Early code, True), w')
          | (None, w') \<Rightarrow> await_ready tick a instance_id pid deadline (sleep tick w)
      else (Inl (Startup_Timeout, False), w))"
  by pat_completeness auto
termination
  by (relation "measure (\<lambda>(tick, a, instance_id, pid, deadline, w). deadline - clock w)") (auto simp: sleep_def)

declare await_ready.simps [simp del]

text \<open>
  What the operating system gives for one start: the new instance id, the two tokens of the temporary
  files, the pid of the child, or nothing when it cannot be started, and the wall-clock time.
\<close>

record start_env =
  new_instance :: string
  token1 :: string
  token2 :: string
  new_pid :: "int option"
  started_at :: rat

definition spawn :: "start_args \<Rightarrow> start_env \<Rightarrow> int \<Rightarrow> world \<Rightarrow> world" where
  "spawn a e pid w = w\<lparr>procs := (procs w)(pid \<mapsto>
     \<lparr>stat_text = str_int pid @ '' (python3) S 1'',
      cmdline = concat (map (\<lambda>part. part @ [CHR 0x00]) (server_command a (new_instance e))),
      foreign = False, exit_code = None\<rparr>)\<rparr>"

text \<open>The part of \<open>_start_replay\<close> after the check for a running service.\<close>

definition launch ::
    "(world \<Rightarrow> world) \<Rightarrow> start_args \<Rightarrow> start_env \<Rightarrow> world \<Rightarrow> (service_error + start_result) \<times> world" where
  "launch tick a e w =
     (case new_pid e of
        None \<Rightarrow> (Inl Spawn_Failed, w)
      | Some pid \<Rightarrow>
          let w = spawn a e pid w;
              state = service_state ''starting'' a (new_instance e) pid (started_at e);
              running = service_state ''running'' a (new_instance e) pid (started_at e) in
          case atomic_write_json (token1 e) (state_file a) state w of
            (Inl err, w) \<Rightarrow> (Inl err, w)
          | (Inr _, w) \<Rightarrow>
              case await_ready tick a (new_instance e) pid (clock w + 150) w of
                (Inl (err, polled), w) \<Rightarrow>
                  (case abort_start tick (state_file a) (state_fields state) pid polled err w of (err, w) \<Rightarrow> (Inl err, w))
              | (Inr _, w) \<Rightarrow>
                  case atomic_write_json (token2 e) (state_file a) running w of
                    (Inl err, w) \<Rightarrow>
                      (case abort_start tick (state_file a) (state_fields running) pid False err w of (err, w) \<Rightarrow> (Inl err, w))
                  | (Inr _, w) \<Rightarrow> (Inr (Started pid), w))"

text \<open>\<open>existing_identity != requested_identity\<close>, with Python's equality of the stored values.\<close>

definition same_identity :: "(string \<times> json) list \<Rightarrow> start_args \<Rightarrow> bool" where
  "same_identity kvs a \<longleftrightarrow>
     obj_get kvs ''config_path'' = Some (JStr (config_path a)) \<and> obj_get kvs ''replay_dir'' = Some (JStr (replay_dir a)) \<and>
     obj_get kvs ''host'' = Some (JStr (host a)) \<and>
     (case obj_get kvs ''port'' of Some v \<Rightarrow> py_eq v (JInt (port a)) | None \<Rightarrow> False) \<and>
     obj_get kvs ''validation_id'' = Some (JStr (validation_id a))"

text \<open>\<open>isinstance(v, str)\<close> and \<open>isinstance(v, int)\<close>; a Boolean is an \<open>int\<close>.\<close>

definition complete_state :: "(string \<times> json) list \<Rightarrow> bool" where
  "complete_state kvs \<longleftrightarrow>
     (\<exists>h. obj_get kvs ''host'' = Some (JStr h)) \<and>
     (case obj_get kvs ''port'' of Some (JInt _) \<Rightarrow> True | Some (JBool _) \<Rightarrow> True | _ \<Rightarrow> False)"

definition start_locked ::
    "(world \<Rightarrow> world) \<Rightarrow> start_args \<Rightarrow> start_env \<Rightarrow> world \<Rightarrow> (service_error + start_result) \<times> world" where
  "start_locked tick a e w =
     (case load_state (state_file a) w of
        Inl err \<Rightarrow> (Inl err, w)
      | Inr None \<Rightarrow> launch tick a e w
      | Inr (Some kvs) \<Rightarrow>
          case owned_replay_pid kvs (script_path a) w of
            Inl err \<Rightarrow> (Inl err, w)
          | Inr (Some pid) \<Rightarrow>
              if \<not> complete_state kvs then (Inl Incomplete_State, w)
              else if \<not> same_identity kvs a then (Inl Different_Config, w)
              else (Inr (Already_Running pid), w)
          | Inr None \<Rightarrow> launch tick a e (cleanup_state (state_file a) kvs w))"

section \<open>Before the lock\<close>

text \<open>The arguments of a start, with their defaults.\<close>

record arguments =
  config :: string
  dir_override :: "string option"
  port_override :: "string option"
  host_arg :: string
  validation_arg :: string

record service_env =
  conf_env :: config_env
  getenv :: "string \<rightharpoonup> string"
  tempdir :: string
  sha256_hex :: "string \<Rightarrow> string"
  executable :: string

definition server_script :: "string \<Rightarrow> string" where
  "server_script repo = path_join repo ''tools/viz_player/maze_viz_server.py''"

definition resolve_log :: "service_env \<Rightarrow> string \<Rightarrow> string" where
  "resolve_log env repo =
     (let configured = (case getenv env ''RL_REPLAY_LOG_FILE'' of None \<Rightarrow> [] | Some v \<Rightarrow> v);
          path = (if configured = [] then path_join repo ''log/replay-server.log'' else expanduser (conf_env env) configured);
          path = (if is_absolute path then path else path_join repo path)
      in abspath (cwd (conf_env env)) (normpath path))"

text \<open>What \<open>_start_replay\<close> does before it takes the lock.\<close>

definition prepare_start :: "service_env \<Rightarrow> string \<Rightarrow> arguments \<Rightarrow> service_error + start_args" where
  "prepare_start env repo args =
     (case resolve_replay_config (conf_env env) (config args) (dir_override args) (port_override args) of
        Inl err \<Rightarrow> Inl (Config_Problem err)
      | Inr (cfg, dir, prt) \<Rightarrow>
          if \<not> clean_value (host_arg args) then Inl (Invalid_Value ''Replay host'')
          else if \<not> clean_value (validation_arg args) then Inl (Invalid_Value ''validation id'')
          else case state_directory (getenv env) (expanduser (conf_env env)) (tempdir env) (sha256_hex env) repo of
              Inl err \<Rightarrow> Inl err
            | Inr sdir \<Rightarrow>
                if \<not> is_file_kind (kind_at (conf_env env) (server_script repo))
                then Inl Server_Missing
                else Inr \<lparr>host = host_arg args, port = prt, validation_id = validation_arg args, config_path = cfg,
                       replay_dir = dir, script_path = server_script repo, state_dir = sdir, repo_dir = repo,
                       log_file = resolve_log env repo, python = executable env\<rparr>)"

definition start_replay ::
    "(world \<Rightarrow> world) \<Rightarrow> service_env \<Rightarrow> string \<Rightarrow> arguments \<Rightarrow> start_env \<Rightarrow> world \<Rightarrow> (service_error + start_result) \<times> world" where
  "start_replay tick env repo args e w =
     (case prepare_start env repo args of Inl err \<Rightarrow> (Inl err, w) | Inr a \<Rightarrow> start_locked tick a e w)"

section \<open>Lemmas on stopping\<close>

text \<open>When a wait ends without an error, the process is gone or the time is over.\<close>

lemma kill_hard_cases:
  assumes "kill_hard tick kvs script pid w = (r, w')"
  shows "(sent w' = sent w \<or> sent w' = sent w @ [(pid, SIGKILL)]) \<and> clock w \<le> clock w' \<and> clock w' \<le> clock w + 20 \<and>
    (r = Inr () \<longrightarrow> process_is_live pid w' = Inr False)"
proof (cases "owned_replay_pid kvs script w")
  case (Inr own)
  obtain k u where kill: "os_kill pid SIGKILL w = (k, u)" by (cases "os_kill pid SIGKILL w")
  have u: "sent u = sent w \<or> sent u = sent w @ [(pid, SIGKILL)]" "clock u = clock w"
    using kill by (auto simp: os_kill_def split: option.splits if_splits)
  obtain g v where wait: "wait_gone tick pid (clock u + 20) u = (g, v)" by (cases "wait_gone tick pid (clock u + 20) u")
  have v: "sent v = sent u" "clock u \<le> clock v" "clock v \<le> clock u + 20"
    using wait_gone_sent [of tick pid "clock u + 20" u] wait_gone_clock [of u tick pid "clock u + 20"] wait by auto
  with u have v': "sent v = sent w \<or> sent v = sent w @ [(pid, SIGKILL)]" "clock w \<le> clock v" "clock v \<le> clock w + 20" by auto
  show ?thesis
  proof (cases k)
    case Killed
    then show ?thesis using assms Inr kill wait v'
      by (auto simp: kill_hard_def split: sum.splits if_splits)
  next
    case No_Process
    then show ?thesis using assms Inr kill u by (auto simp: kill_hard_def)
  next
    case Not_Permitted
    then show ?thesis using assms Inr kill u by (auto simp: kill_hard_def)
  qed
qed (use assms in \<open>auto simp: kill_hard_def\<close>)

lemma terminate_process_cases:
  assumes "terminate_process tick kvs script pid w = (r, w')" and "process_is_live pid w = Inr True"
  shows "(sent w' = sent w @ [(pid, SIGTERM)] \<or> sent w' = sent w @ [(pid, SIGTERM), (pid, SIGKILL)]) \<and>
    clock w \<le> clock w' \<and> clock w' \<le> clock w + 70 \<and> (r = Inr () \<longrightarrow> process_is_live pid w' = Inr False)"
proof -
  let ?u = "w\<lparr>sent := sent w @ [(pid, SIGTERM)]\<rparr>"
  have kill: "os_kill pid SIGTERM w = (Killed, ?u)" by (rule live_killable [OF assms(2)])
  obtain g v where wait: "wait_gone tick pid (clock w + 50) ?u = (g, v)" by (cases "wait_gone tick pid (clock w + 50) ?u")
  have v: "sent v = sent w @ [(pid, SIGTERM)]" "clock w \<le> clock v" "clock v \<le> clock w + 50"
    using wait_gone_sent [of tick pid "clock w + 50" ?u] wait_gone_clock [of ?u tick pid "clock w + 50"] wait by auto
  show ?thesis
  proof (cases "g = Inr () \<and> process_is_live pid v = Inr True")
    case True
    then have run: "kill_hard tick kvs script pid v = (r, w')"
      using assms(1) kill wait by (simp add: terminate_process_def)
    from kill_hard_cases [OF run] v show ?thesis by auto
  next
    case False
    then show ?thesis using assms(1) kill wait v
      by (auto simp: terminate_process_def split: sum.splits if_splits)
  qed
qed

text \<open>The three ways a stop can go.\<close>

lemma stop_cases:
  assumes "stop_replay tick f script w = (r, w')"
  obtains (not_running) "r = Inr Not_Running" "w' = w \<or> (\<exists>kvs. load_state f w = Inr (Some kvs) \<and> w' = cleanup_state f kvs w)"
  | (failed) err where "r = Inl err" "w' = w"
  | (signalled) kvs pid s u where "load_state f w = Inr (Some kvs)" "owned_replay_pid kvs script w = Inr (Some pid)"
      "terminate_process tick kvs script pid w = (s, u)"
      "(\<exists>err. s = Inl err \<and> r = Inl err \<and> w' = u) \<or> s = Inr () \<and> r = Inr (Stopped pid) \<and> w' = cleanup_state f kvs u"
proof (cases "load_state f w")
  case (Inl err)
  then show thesis using assms failed [of err] by (simp add: stop_replay_def)
next
  case (Inr st)
  show thesis
  proof (cases st)
    case None
    then show thesis using assms Inr not_running by (simp add: stop_replay_def)
  next
    case (Some kvs)
    show thesis
    proof (cases "owned_replay_pid kvs script w")
      case (Inl err)
      then show thesis using assms Inr Some failed [of err] by (simp add: stop_replay_def)
    next
      case own: (Inr found)
      show thesis
      proof (cases found)
        case None
        then show thesis using assms Inr Some own not_running by (auto simp: stop_replay_def)
      next
        case (Some pid)
        obtain s u where t: "terminate_process tick kvs script pid w = (s, u)" by (cases "terminate_process tick kvs script pid w")
        show thesis
          by (rule signalled [OF _ _ t])
            (use assms Inr Some own t \<open>st = Some kvs\<close> in \<open>auto simp: stop_replay_def split: sum.splits\<close>)
      qed
    qed
  qed
qed

section \<open>Lemmas on starting\<close>

lemma spawn_simps [simp]:
  "docs (spawn a e pid w) = docs w" "sent (spawn a e pid w) = sent w" "clock (spawn a e pid w) = clock w"
  "unreadable (spawn a e pid w) = unreadable w" "write_fault (spawn a e pid w) = write_fault w" "proc_fs (spawn a e pid w) = proc_fs w"
  by (simp_all add: spawn_def)

lemma poll_child_simps [simp]:
  "sent (snd (poll_child pid w)) = sent w" "clock (snd (poll_child pid w)) = clock w" "docs (snd (poll_child pid w)) = docs w"
  "unreadable (snd (poll_child pid w)) = unreadable w"
  by (simp_all add: poll_child_def split: option.split)

lemma poll_child_ended: "poll_child pid w = (Some code, w') \<Longrightarrow> procs w' pid = None"
  by (auto simp: poll_child_def split: option.splits)

lemma poll_child_running: "poll_child pid w = (None, w') \<Longrightarrow> w' = w"
  by (auto simp: poll_child_def split: option.splits)




lemma await_ready_facts:
  "await_ready tick a instance_id pid deadline w = (r, w') \<Longrightarrow>
    sent w' = sent w \<and> clock w' \<le> max (clock w) deadline \<and>
    (case r of Inr _ \<Rightarrow> validate_ready_receipt (ready_file a instance_id) pid instance_id a w'
     | Inl (err, polled) \<Rightarrow> (polled \<longrightarrow> procs w' pid = None) \<and> (err = Startup_Timeout \<or> (\<exists>code. err = Exited_Early code)))"
proof (induction tick a instance_id pid deadline w arbitrary: r w' rule: await_ready.induct)
  case (1 tick a instance_id pid deadline w)
  note step = await_ready.simps [of tick a instance_id pid deadline w]
  show ?case
  proof (cases "clock w < deadline \<and> \<not> validate_ready_receipt (ready_file a instance_id) pid instance_id a w")
    case True
    obtain code u where p: "poll_child pid w = (code, u)" by (cases "poll_child pid w")
    show ?thesis
    proof (cases code)
      case (Some c)
      then show ?thesis using "1.prems" True p poll_child_ended [of pid w c u] poll_child_simps [of pid w] by (auto simp: step)
    next
      case None
      then have "await_ready tick a instance_id pid deadline (sleep tick w) = (r, w')"
        using "1.prems" True p by (simp add: step)
      from "1.IH" [OF _ _ _ _ this] True p None show ?thesis by auto
    qed
  next
    case False
    then show ?thesis using "1.prems" by (auto simp: step split: if_splits)
  qed
qed

lemma service_names: "relative ''service.json''" "slash \<notin> set ''service.json''"
  by (simp_all add: relative_def slash_def)

lemma ready_not_state: "ready_file a i \<noteq> state_file a"
proof -
  have "relative (''ready-'' @ i @ ''.json'')" by (simp add: relative_def slash_def)
  then show ?thesis using service_names(1) by (simp add: ready_file_def state_file_def path_join_inj)
qed

lemma ready_not_temp: "ready_file a i \<noteq> temp_name (state_file a) t"
proof -
  have "relative (''ready-'' @ i @ ''.json'')" by (simp add: relative_def slash_def)
  then show ?thesis unfolding ready_file_def state_file_def temp_name_join [OF service_names] by (simp add: path_join_prefix)
qed

lemma validate_receipt_docs:
  "docs w' r = docs w r \<Longrightarrow> unreadable w' = unreadable w \<Longrightarrow> validate_ready_receipt r pid i a w' = validate_ready_receipt r pid i a w"
  by (simp add: validate_ready_receipt_def)

lemma service_state_get:
  "state_fields (service_state st a i pid t) =
    [(''schema_version'', JInt 1), (''status'', JStr st), (''pid'', JInt pid), (''instance_id'', JStr i),
      (''repo_dir'', JStr (repo_dir a)), (''server_script'', JStr (script_path a)), (''config_path'', JStr (config_path a)),
      (''replay_dir'', JStr (replay_dir a)), (''host'', JStr (host a)), (''port'', JInt (port a)),
      (''validation_id'', JStr (validation_id a)), (''log_file'', JStr (log_file a)),
      (''ready_file'', JStr (ready_file a i)), (''started_at'', JFloat t)]"
  by (simp add: service_state_def state_fields_def)


lemma service_state_identity: "0 < pid \<Longrightarrow> i \<noteq> [] \<Longrightarrow> state_identity (state_fields (service_state st a i pid t)) = Some (pid, i)"
  by (simp add: service_state_get state_identity_def obj_get_Cons)

lemma launch_success:
  assumes "launch tick a e w = (Inr (Started pid), w')"
  shows "new_pid e = Some pid \<and> sent w' = sent w \<and>
    docs w' (state_file a) = Some (Whole (Doc (service_state ''running'' a (new_instance e) pid (started_at e)))) \<and>
    validate_ready_receipt (ready_file a (new_instance e)) pid (new_instance e) a w'"
proof -
  let ?i = "new_instance e" and ?f = "state_file a"
  obtain p where p: "new_pid e = Some p" using assms by (cases "new_pid e") (auto simp: launch_def)
  let ?state = "service_state ''starting'' a ?i p (started_at e)" and ?running = "service_state ''running'' a ?i p (started_at e)"
  let ?w1 = "spawn a e p w"
  obtain r2 w2 where 2: "atomic_write_json (token1 e) ?f ?state ?w1 = (r2, w2)" by (metis surj_pair)
  have r2: "r2 = Inr ()" using assms p 2 by (cases r2) (auto simp: launch_def)
  obtain r3 w3 where 3: "await_ready tick a ?i p (clock w2 + 150) w2 = (r3, w3)" by (metis surj_pair)
  have r3: "r3 = Inr ()" using assms p 2 r2 3 by (cases r3) (auto simp: launch_def split: prod.splits)
  obtain r4 w4 where 4: "atomic_write_json (token2 e) ?f ?running w3 = (r4, w4)" by (metis surj_pair)
  have r4: "r4 = Inr ()" using assms p 2 r2 3 r3 4 by (cases r4) (auto simp: launch_def split: prod.splits)
  then have eq: "p = pid" "w' = w4" using assms p 2 r2 3 r3 4 by (auto simp: launch_def)
  have "sent w2 = sent w" using atomic_write_keeps [OF 2] by simp
  moreover have "sent w3 = sent w2" "validate_ready_receipt (ready_file a ?i) p ?i a w3"
    using await_ready_facts [OF 3] r3 by simp_all
  moreover have "sent w4 = sent w3" "unreadable w4 = unreadable w3" "docs w4 (ready_file a ?i) = docs w3 (ready_file a ?i)"
    using atomic_write_keeps [OF 4] 4 atomic_write_other [OF ready_not_state [of a ?i] ready_not_temp [of a ?i "token2 e"], of ?running w3] by simp_all
  moreover have "write_fault w3 = No_Fault" using atomic_write_result [of "token2 e" ?f ?running w3] 4 r4 by simp
  from atomic_write_ok [OF this, of "token2 e" ?f ?running] 4 have "docs w4 ?f = Some (Whole (Doc ?running))" by simp
  moreover have "validate_ready_receipt (ready_file a ?i) p ?i a w4"
    using validate_receipt_docs [of w4 "ready_file a ?i" w3 p ?i a] calculation by blast
  ultimately show ?thesis using eq p by simp
qed

lemmas started_state = launch_success [THEN conjunct2, THEN conjunct2, THEN conjunct1]

section \<open>Properties\<close>


text \<open>C18: A stop that reports success leaves the process ended and neither state nor receipt behind, and every stop is
  over after at most seven seconds of waiting.\<close>

theorem stop_ends_the_service:
  assumes "stop_replay tick f script w = (r, w')"
  shows "clock w' \<le> clock w + 70 \<and>
    (\<forall>pid. r = Inr (Stopped pid) \<longrightarrow> process_is_live pid w' = Inr False \<and> docs w' f = None \<and>
      (\<forall>kvs ready. load_state f w = Inr (Some kvs) \<and> obj_get kvs ''ready_file'' = Some (JStr ready) \<longrightarrow> docs w' ready = None))"
  using assms
proof (cases rule: stop_cases)
  case not_running
  then show ?thesis by auto
next
  case (failed err)
  then show ?thesis by simp
next
  case (signalled kvs pid s u)
  have "process_is_live pid w = Inr True" using owned_identity [OF signalled(2)] by blast
  from terminate_process_cases [OF signalled(3) this] signalled(1,4) show ?thesis by auto
qed



text \<open>When the first state file cannot be written, the server has already been started: it keeps running, unrecorded,
  and the next start does not know of it.\<close>

theorem unrecorded_server_leaks:
  assumes "new_pid e = Some pid" and "write_fault w \<noteq> No_Fault" and "docs w (state_file a) = None"
  shows "\<exists>w'. launch tick a e w = (Inl Write_Failed, w') \<and> docs w' (state_file a) = None \<and> sent w' = sent w \<and>
    map_option exit_code (procs w' pid) = Some None"
proof -
  let ?v = "service_state ''starting'' a (new_instance e) pid (started_at e)"
  obtain w' where w': "atomic_write_json (token1 e) (state_file a) ?v (spawn a e pid w) = (Inl Write_Failed, w')"
    using assms(2) by (simp add: atomic_write_json_def spawn_def)
  have "docs w' (state_file a) = None"
    using atomic_write_failed [of "spawn a e pid w" "token1 e" "state_file a" ?v] w' assms(2,3) by (simp add: spawn_def)
  moreover have "sent w' = sent w" "procs w' = procs (spawn a e pid w)"
    using atomic_write_keeps [OF w'] by simp_all
  ultimately show ?thesis using assms(1) w' by (simp add: launch_def spawn_def)
qed

text \<open>While the recorded service runs, a start neither launches nor signals nor writes anything: it reports the
  service when configuration, directory, host, port and validation id are the same, and an error otherwise.\<close>

theorem running_service_is_kept:
  assumes "load_state (state_file a) w = Inr (Some kvs)" and "owned_replay_pid kvs (script_path a) w = Inr (Some pid)"
  shows "start_locked tick a e w =
    (if \<not> complete_state kvs then Inl Incomplete_State
     else if same_identity kvs a then Inr (Already_Running pid) else Inl Different_Config, w)"
  using assms by (simp add: start_locked_def)

text \<open>The second ownership check guards against nothing but an error: when the pid has passed to a process whose
  command line is empty, the check finds no owner, and the process is killed all the same.\<close>

theorem unowned_process_killed:
  assumes "state_identity kvs = Some (pid, instance_id)" and "process_is_live pid w = Inr True" and "process_command pid w = Inr []"
  shows "owned_replay_pid kvs server w = Inr None \<and> (pid, SIGKILL) \<in> set (sent (snd (kill_hard tick kvs server pid w)))"
proof -
  have own: "owned_replay_pid kvs server w = Inr None" using assms by (simp add: owned_replay_pid_def)
  let ?u = "w\<lparr>sent := sent w @ [(pid, SIGKILL)]\<rparr>"
  obtain g v where wait: "wait_gone tick pid (clock w + 20) ?u = (g, v)" by (cases "wait_gone tick pid (clock w + 20) ?u")
  have "sent v = sent w @ [(pid, SIGKILL)]" using wait_gone_sent [of tick pid "clock w + 20" ?u] wait by simp
  then show ?thesis
    using own wait live_killable [OF assms(2), of SIGKILL] by (simp add: kill_hard_def split: sum.split)
qed

section \<open>Examples\<close>

definition sample_args :: start_args where
  "sample_args =
     \<lparr>host = ''0.0.0.0'', port = 9004, validation_id = ''v'', config_path = ''/c.yaml'', replay_dir = ''/r'',
      script_path = ''/s.py'', state_dir = ''/st'', repo_dir = ''/repo'', log_file = ''/l'', python = ''py''\<rparr>"

definition sample_start :: start_env where
  "sample_start = \<lparr>new_instance = ''i1'', token1 = ''t'', token2 = ''u'', new_pid = Some 7, started_at = 0\<rparr>"

definition empty_world :: world where
  "empty_world = \<lparr>docs = Map.empty, unreadable = {}, procs = Map.empty, proc_fs = True, ps_stat = (\<lambda>_. None),
     ps_command = (\<lambda>_. None), sent = [], clock = 0, write_fault = No_Fault\<rparr>"

text \<open>The child publishes its receipt, ends, or obeys a signal.\<close>

definition sample_receipt :: json where
  "sample_receipt = JObj [(''schema_version'', JInt 1), (''source'', JStr ''client-replay-ready''), (''pid'', JInt 7),
     (''instance_id'', JStr ''i1''), (''replay_dir'', JStr ''/r''), (''host'', JStr ''0.0.0.0''), (''port'', JInt 9004)]"

definition child_ready :: "world \<Rightarrow> world" where
  "child_ready w = w\<lparr>docs := (docs w)(''/st/ready-i1.json'' \<mapsto> Whole (Doc sample_receipt))\<rparr>"


definition child_obeys :: "world \<Rightarrow> world" where
  "child_obeys w = (if sent w = [] then w else w\<lparr>procs := (procs w)(7 := None)\<rparr>)"

lemma sample_names [simp]: "state_file sample_args = ''/st/service.json''" "ready_file sample_args ''i1'' = ''/st/ready-i1.json''"
  "temp_name ''/st/service.json'' ''t'' = ''/st/.service.json.t.tmp''" "temp_name ''/st/service.json'' ''u'' = ''/st/.service.json.u.tmp''"
  by code_simp+

lemma sample_env [simp]: "new_instance sample_start = ''i1''" "token1 sample_start = ''t''" "token2 sample_start = ''u''"
  "new_pid sample_start = Some 7" "started_at sample_start = 0" "script_path sample_args = ''/s.py''"
  by (simp_all add: sample_start_def sample_args_def)

lemma atomic_write_eq: "write_fault w = No_Fault \<Longrightarrow> atomic_write_json t p v w =
    (Inr (), w\<lparr>docs := (docs w)(temp_name p t := None, p \<mapsto> Whole (Doc v))\<rparr>)"
  using temp_name_neq [of p t]
  by (auto simp: atomic_write_json_def write_states_clean_def write_states_def Let_def fun_upd_twist)

text \<open>The world after the first write of the example, and after the child has run.\<close>

definition written_world :: world where
  "written_world = (spawn sample_args sample_start 7 empty_world)\<lparr>docs := Map.empty(''/st/service.json'' \<mapsto>
     Whole (Doc (service_state ''starting'' sample_args ''i1'' 7 0)))\<rparr>"

definition running_world :: world where
  "running_world = (child_ready written_world)\<lparr>clock := 1, docs := (docs (child_ready written_world))(''/st/service.json'' \<mapsto>
     Whole (Doc (service_state ''running'' sample_args ''i1'' 7 0)))\<rparr>"

lemma first_write: "atomic_write_json ''t'' ''/st/service.json'' (service_state ''starting'' sample_args ''i1'' 7 0)
    (spawn sample_args sample_start 7 empty_world) = (Inr (), written_world)"
  by (simp add: atomic_write_eq empty_world_def) (simp add: written_world_def empty_world_def spawn_def fun_eq_iff)

lemma written_simps [simp]:
  "docs written_world = [''/st/service.json'' \<mapsto> Whole (Doc (service_state ''starting'' sample_args ''i1'' 7 0))]"
  "clock written_world = 0" "sent written_world = []" "unreadable written_world = {}" "write_fault written_world = No_Fault"
  "poll_child 7 written_world = (None, written_world)"
  by (simp_all add: written_world_def empty_world_def poll_child_def spawn_def)

lemma sample_receipt_ok:
  "docs w ''/st/ready-i1.json'' = Some (Whole (Doc sample_receipt)) \<Longrightarrow> unreadable w = {} \<Longrightarrow>
    validate_ready_receipt ''/st/ready-i1.json'' 7 ''i1'' sample_args w"
  by (simp add: validate_ready_receipt_def sample_receipt_def obj_get_Cons sample_args_def py_eq_int)

lemma child_ready_simps [simp]:
  "docs (child_ready w) = (docs w)(''/st/ready-i1.json'' \<mapsto> Whole (Doc sample_receipt))" "unreadable (child_ready w) = unreadable w"
  "write_fault (child_ready w) = write_fault w"
  by (simp_all add: child_ready_def)

lemma sample_await: "await_ready child_ready sample_args ''i1'' 7 150 written_world = (Inr (), sleep child_ready written_world)"
proof -
  have "\<not> validate_ready_receipt ''/st/ready-i1.json'' 7 ''i1'' sample_args written_world"
    by (simp add: validate_ready_receipt_def)
  moreover have "validate_ready_receipt ''/st/ready-i1.json'' 7 ''i1'' sample_args (sleep child_ready written_world)"
    by (rule sample_receipt_ok) (simp_all add: sleep_def)
  ultimately show ?thesis
    by (simp add: await_ready.simps [of _ _ _ _ _ written_world] await_ready.simps [of _ _ _ _ _ "sleep child_ready written_world"])
qed

lemma sample_started: "launch child_ready sample_args sample_start empty_world = (Inr (Started 7), running_world)"
proof -
  have "atomic_write_json ''u'' ''/st/service.json'' (service_state ''running'' sample_args ''i1'' 7 0) (sleep child_ready written_world) =
      (Inr (), running_world)"
    by (subst atomic_write_eq) (simp_all add: sleep_def running_world_def child_ready_def fun_eq_iff)
  then show ?thesis using first_write sample_await by (simp add: launch_def Let_def)
qed




theorem unrecorded_server_leaks_witness:
  "fst (launch child_ready sample_args sample_start (empty_world\<lparr>write_fault := Write_Fails\<rparr>)) = Inl Write_Failed \<and>
   procs (snd (launch child_ready sample_args sample_start (empty_world\<lparr>write_fault := Write_Fails\<rparr>))) 7 \<noteq> None"
proof -
  have "write_fault (empty_world\<lparr>write_fault := Write_Fails\<rparr>) \<noteq> No_Fault"
    "docs (empty_world\<lparr>write_fault := Write_Fails\<rparr>) (state_file sample_args) = None"
    by (simp_all add: empty_world_def)
  from unrecorded_server_leaks [OF sample_env(4) this, of child_ready] show ?thesis by auto
qed

section \<open>A second start\<close>

lemma split_terminated: "\<forall>p \<in> set ps. c \<notin> set p \<Longrightarrow> split_on c (concat (map (\<lambda>p. p @ [c]) ps)) = ps @ [[]]"
proof (induction ps)
  case (Cons p ps)
  have "split_on c (p @ c # s) = p # split_on c s" if "c \<notin> set p" for s
    using that by (induction p) auto
  with Cons show ?case by simp
qed simp

lemma command_of_process:
  assumes "procs w pid = Some p" and "proc_fs w" and "cmdline p = concat (map (\<lambda>part. part @ [CHR 0x00]) cmd)"
    and "\<forall>part \<in> set cmd. part \<noteq> [] \<and> CHR 0x00 \<notin> set part"
  shows "process_command pid w = Inr cmd"
proof -
  have "filter (\<lambda>part. part \<noteq> []) (cmd @ [[]]) = cmd" using assms(4) by (simp add: filter_id_conv)
  with assms split_terminated [of cmd "CHR 0x00"] show ?thesis by (simp add: process_command_def)
qed

definition clean_command :: "start_args \<Rightarrow> string \<Rightarrow> bool" where
  "clean_command a i \<longleftrightarrow> list_all (\<lambda>part. part \<noteq> [] \<and> CHR 0x00 \<notin> set part) (server_command a i)"

text \<open>The child of a start, still running under its command line.\<close>

definition still_running :: "start_args \<Rightarrow> string \<Rightarrow> int \<Rightarrow> world \<Rightarrow> bool" where
  "still_running a i pid w \<longleftrightarrow> proc_fs w \<and> process_is_live pid w = Inr True \<and>
     (case procs w pid of None \<Rightarrow> False | Some p \<Rightarrow> cmdline p = concat (map (\<lambda>part. part @ [CHR 0x00]) (server_command a i)))"

lemma still_running_owned:
  assumes "still_running a i pid w" and "clean_command a i" and "0 < pid"
  shows "owned_replay_pid (state_fields (service_state st a i pid t)) (script_path a) w = Inr (Some pid)"
proof -
  obtain p where p: "procs w pid = Some p" "proc_fs w" "cmdline p = concat (map (\<lambda>part. part @ [CHR 0x00]) (server_command a i))"
    using assms(1) by (auto simp: still_running_def split: option.splits)
  have "process_command pid w = Inr (server_command a i)"
    using assms(2) by (intro command_of_process [OF p]) (simp add: clean_command_def list_all_iff)
  moreover have "i \<noteq> []" using assms(2) by (auto simp: clean_command_def server_command_def)
  moreover have "command_matches (script_path a) i (server_command a i)" by (simp add: command_matches_def server_command_def)
  moreover have "server_command a i \<noteq> []" by (simp add: server_command_def)
  ultimately show ?thesis
    using assms(1,3) by (simp add: owned_replay_pid_def service_state_identity still_running_def)
qed

text \<open>C19: Starting is idempotent: after a successful start, and for as long as its child runs under its command line and
  the state file stays, the same start again reports that child and does nothing else.\<close>

theorem second_start_finds_first:
  assumes "launch tick a e w = (Inr (Started pid), w')" and "0 < pid" and "clean_command a (new_instance e)"
    and "docs w'' (state_file a) = docs w' (state_file a)" and "state_file a \<notin> unreadable w''"
    and "still_running a (new_instance e) pid w''"
  shows "start_locked tick' a e' w'' = (Inr (Already_Running pid), w'')"
proof -
  let ?kvs = "state_fields (service_state ''running'' a (new_instance e) pid (started_at e))"
  from started_state [OF assms(1)]
  have "docs w'' (state_file a) = Some (Whole (Doc (service_state ''running'' a (new_instance e) pid (started_at e))))"
    using assms(4) by simp
  then have "load_state (state_file a) w'' = Inr (Some ?kvs)"
    using assms(5) by (simp add: load_state_def service_state_def state_fields_def)
  moreover have "owned_replay_pid ?kvs (script_path a) w'' = Inr (Some pid)"
    by (rule still_running_owned [OF assms(6,3,2)])
  moreover have "complete_state ?kvs" "same_identity ?kvs a"
    by (simp_all add: complete_state_def same_identity_def service_state_get obj_get_Cons)
  ultimately show ?thesis by (simp add: start_locked_def)
qed

lemma running_simps [simp]:
  "docs running_world ''/st/service.json'' = Some (Whole (Doc (service_state ''running'' sample_args ''i1'' 7 0)))"
  "unreadable running_world = {}" "sent running_world = []" "clock running_world = 1"
  by (simp_all add: running_world_def) (simp add: child_ready_def)

lemma clean_port: "str_int i \<noteq> [] \<and> CHR 0x00 \<notin> set (str_int i)"
proof -
  have "\<not> is_digit (CHR 0x00)" by (simp add: is_digit_def)
  then have "CHR 0x00 \<notin> set (str_nat n)" for n using str_nat_digits by blast
  then show ?thesis by (simp add: str_int_def)
qed

lemma sample_clean: "clean_command sample_args ''i1''"
  by (simp add: clean_command_def server_command_def clean_port) (simp add: sample_args_def)

lemma sample_stat: "split_ws (str_int 7 @ '' (python3) S 1'') = [''7'', ''(python3)'', ''S'', ''1'']"
  by code_simp

lemma running_proc: "procs running_world 7 = procs (spawn sample_args sample_start 7 empty_world) 7" "proc_fs running_world"
  by (simp_all add: running_world_def child_ready_def written_world_def empty_world_def)

lemma sample_running: "still_running sample_args ''i1'' 7 running_world"
  using running_proc by (simp add: still_running_def process_is_live_def spawn_def sample_stat)

theorem second_start_finds_first_witness:
  "start_locked id sample_args sample_start running_world = (Inr (Already_Running 7), running_world)"
proof -
  have "clean_command sample_args (new_instance sample_start)" "still_running sample_args (new_instance sample_start) 7 running_world"
    by (simp_all add: sample_clean sample_running)
  from second_start_finds_first [OF sample_started _ this(1) _ _ this(2)] show ?thesis by simp
qed

lemma sample_owned:
  "load_state ''/st/service.json'' running_world = Inr (Some (state_fields (service_state ''running'' sample_args ''i1'' 7 0)))"
  "owned_replay_pid (state_fields (service_state ''running'' sample_args ''i1'' 7 0)) ''/s.py'' running_world = Inr (Some 7)"
  using still_running_owned [OF sample_running sample_clean, of "''running''" 0]
  by (simp_all add: load_state_def service_state_def state_fields_def)

theorem running_service_is_kept_witness:
  "start_locked id sample_args sample_start running_world = (Inr (Already_Running 7), running_world)"
proof -
  have "complete_state (state_fields (service_state ''running'' sample_args ''i1'' 7 0))"
    "same_identity (state_fields (service_state ''running'' sample_args ''i1'' 7 0)) sample_args"
    by (simp_all add: complete_state_def same_identity_def service_state_get obj_get_Cons)
  then show ?thesis using running_service_is_kept [of sample_args running_world _ 7 id sample_start] sample_owned by simp
qed

lemma sample_stopped: "\<exists>w'. stop_replay child_obeys ''/st/service.json'' ''/s.py'' running_world = (Inr (Stopped 7), w')"
proof -
  let ?kvs = "state_fields (service_state ''running'' sample_args ''i1'' 7 0)"
  let ?u = "running_world\<lparr>sent := [(7, SIGTERM)]\<rparr>"
  have live: "process_is_live 7 running_world = Inr True" using sample_running by (simp add: still_running_def)
  then have kill: "os_kill 7 SIGTERM running_world = (Killed, ?u)" by (simp add: live_killable)
  have gone: "process_is_live 7 (sleep child_obeys ?u) = Inr False"
    by (simp add: process_is_live_def sleep_def child_obeys_def)
  have "wait_gone child_obeys 7 (Suc 50) ?u = (Inr (), sleep child_obeys ?u)"
    using live gone by (simp add: wait_gone.simps [of _ _ _ ?u] wait_gone.simps [of _ _ _ "sleep child_obeys ?u"])
  then have "terminate_process child_obeys ?kvs ''/s.py'' 7 running_world = (Inr (), sleep child_obeys ?u)"
    using kill gone by (simp add: terminate_process_def)
  then show ?thesis using sample_owned by (simp add: stop_replay_def)
qed

theorem stop_ends_the_service_witness:
  "\<exists>w'. stop_replay child_obeys ''/st/service.json'' ''/s.py'' running_world = (Inr (Stopped 7), w') \<and>
    process_is_live 7 w' = Inr False \<and> docs w' ''/st/service.json'' = None"
proof -
  obtain w' where run: "stop_replay child_obeys ''/st/service.json'' ''/s.py'' running_world = (Inr (Stopped 7), w')"
    using sample_stopped by blast
  with stop_ends_the_service [OF run] show ?thesis by simp
qed

theorem unowned_process_killed_witness:
  "(let w = empty_world\<lparr>procs := [7 \<mapsto> \<lparr>stat_text = ''7 (kworker) S 2'', cmdline = [], foreign = False, exit_code = None\<rparr>]\<rparr>;
        kvs = state_fields (service_state ''running'' sample_args ''i1'' 7 0) in
    (7, SIGKILL) \<in> set (sent (snd (kill_hard id kvs ''/s.py'' 7 w))))"
proof -
  let ?w = "empty_world\<lparr>procs := [7 \<mapsto> \<lparr>stat_text = ''7 (kworker) S 2'', cmdline = [], foreign = False, exit_code = None\<rparr>]\<rparr>"
  let ?kvs = "state_fields (service_state ''running'' sample_args ''i1'' 7 0)"
  have "split_ws ''7 (kworker) S 2'' = [''7'', ''(kworker)'', ''S'', ''2'']" by code_simp
  then have "process_is_live 7 ?w = Inr True" by (simp add: process_is_live_def empty_world_def)
  moreover have "process_command 7 ?w = Inr []" by (simp add: process_command_def empty_world_def)
  moreover have "state_identity ?kvs = Some (7, ''i1'')" by (simp add: service_state_identity)
  ultimately show ?thesis using unowned_process_killed [of ?kvs 7 "''i1''" ?w "''/s.py''" id] by (simp add: Let_def)
qed

section \<open>The life of the state file\<close>

text \<open>Other processes leave the state file alone.\<close>

definition same_file :: "string \<Rightarrow> world \<Rightarrow> world \<Rightarrow> bool" where
  "same_file f w w' \<longleftrightarrow> docs w' f = docs w f \<and> (f \<in> unreadable w' \<longleftrightarrow> f \<in> unreadable w)"

definition leaves_alone :: "(world \<Rightarrow> world) \<Rightarrow> string \<Rightarrow> bool" where
  "leaves_alone tick f \<longleftrightarrow> (\<forall>w. same_file f w (tick w))"

inductive service_step :: "string \<Rightarrow> world \<Rightarrow> world \<Rightarrow> bool" for d where
  start: "state_dir a = d \<Longrightarrow> leaves_alone tick (path_join d ''service.json'') \<Longrightarrow> new_instance e \<noteq> [] \<Longrightarrow>
    \<forall>pid. new_pid e = Some pid \<longrightarrow> 0 < pid \<Longrightarrow> service_step d w (snd (start_locked tick a e w))"
| stop: "leaves_alone tick (path_join d ''service.json'') \<Longrightarrow>
    service_step d w (snd (stop_replay tick (path_join d ''service.json'') server w))"
| other: "same_file (path_join d ''service.json'') w w' \<Longrightarrow> service_step d w w'"

text \<open>The state file is absent, or holds a complete state of some start in that directory.\<close>

definition our_state :: "string \<Rightarrow> doc content option \<Rightarrow> bool" where
  "our_state d c \<longleftrightarrow> c = None \<or>
     (\<exists>st a i pid t. state_dir a = d \<and> i \<noteq> [] \<and> 0 < pid \<and> c = Some (Whole (Doc (service_state st a i pid t))))"

definition state_valid :: "string \<Rightarrow> world \<Rightarrow> bool" where
  "state_valid d w \<longleftrightarrow> path_join d ''service.json'' \<notin> unreadable w \<and> our_state d (docs w (path_join d ''service.json''))"

lemma our_stateI: "state_dir a = d \<Longrightarrow> i \<noteq> [] \<Longrightarrow> 0 < pid \<Longrightarrow> our_state d (Some (Whole (Doc (service_state st a i pid t))))"
  unfolding our_state_def by blast

lemma same_file_refl [simp]: "same_file f w w"
  by (simp add: same_file_def)

lemma same_file_trans: "same_file f u v \<Longrightarrow> same_file f v w \<Longrightarrow> same_file f u w"
  by (simp add: same_file_def)

lemma same_file_sleep: "leaves_alone tick f \<Longrightarrow> same_file f w (sleep tick w)"
  by (simp add: leaves_alone_def same_file_def sleep_def)

lemma same_file_kill: "same_file f w (snd (os_kill pid sig w))"
  by (simp add: same_file_def os_kill_def split: option.split)

lemma same_file_poll: "poll_child pid w = (c, w') \<Longrightarrow> same_file f w w'"
  by (auto simp: same_file_def poll_child_def split: option.splits)

lemma same_file_wait_gone: "leaves_alone tick f \<Longrightarrow> same_file f w (snd (wait_gone tick pid deadline w))"
proof (induction tick pid deadline w rule: wait_gone.induct)
  case (1 tick pid deadline w)
  show ?case
  proof (cases "process_is_live pid w = Inr True \<and> clock w < deadline")
    case True
    with 1 same_file_trans [OF same_file_sleep [OF "1.prems"]] show ?thesis by (subst wait_gone.simps) auto
  next
    case False
    then show ?thesis by (subst wait_gone.simps) (auto split: sum.split)
  qed
qed

lemma same_file_wait_child: "leaves_alone tick f \<Longrightarrow> same_file f w (snd (wait_child tick pid deadline w))"
proof (induction tick pid deadline w rule: wait_child.induct)
  case (1 tick pid deadline w)
  obtain c u where p: "poll_child pid w = (c, u)" by (cases "poll_child pid w")
  show ?case
  proof (cases "c = None \<and> clock w < deadline")
    case True
    with 1 p same_file_trans [OF same_file_sleep [OF "1.prems"]] show ?thesis by (subst wait_child.simps) auto
  next
    case False
    with p same_file_poll [OF p] show ?thesis by (subst wait_child.simps) (auto split: option.split)
  qed
qed

lemma same_file_await: "leaves_alone tick f \<Longrightarrow> same_file f w (snd (await_ready tick a i pid deadline w))"
proof (induction tick a i pid deadline w rule: await_ready.induct)
  case (1 tick a i pid deadline w)
  obtain c u where p: "poll_child pid w = (c, u)" by (cases "poll_child pid w")
  show ?case
  proof (cases "clock w < deadline \<and> \<not> validate_ready_receipt (ready_file a i) pid i a w \<and> c = None")
    case True
    with 1 p same_file_trans [OF same_file_sleep [OF "1.prems"]] show ?thesis by (subst await_ready.simps) auto
  next
    case False
    with p same_file_poll [OF p] show ?thesis by (subst await_ready.simps) (auto split: option.split)
  qed
qed

lemma state_valid_same: "same_file (path_join d ''service.json'') w w' \<Longrightarrow> state_valid d w \<Longrightarrow> state_valid d w'"
  by (simp add: state_valid_def same_file_def)

lemma state_valid_cleanup: "state_valid d w \<Longrightarrow> state_valid d (cleanup_state (path_join d ''service.json'') kvs w)"
  by (simp add: state_valid_def our_state_def)

lemma state_valid_write:
  assumes "state_valid d w" and "our_state d (Some (Whole (Doc v)))"
  shows "state_valid d (snd (atomic_write_json t (path_join d ''service.json'') v w))"
  using assms atomic_write_ok [of w t "path_join d ''service.json''" v] atomic_write_failed [of w t "path_join d ''service.json''" v]
  by (cases "write_fault w = No_Fault") (simp_all add: state_valid_def)

lemma state_valid_abort:
  assumes "leaves_alone tick (path_join d ''service.json'')" and "state_valid d w"
  shows "state_valid d (snd (abort_start tick (path_join d ''service.json'') kvs pid polled err w))"
proof -
  let ?f = "path_join d ''service.json''"
  obtain ended u where first: "(if polled then (True, w) else case poll_child pid w of (code, w) \<Rightarrow> (code \<noteq> None, w)) = (ended, u)"
    by (metis surj_pair)
  have u: "state_valid d u"
    using first assms(2) by (auto split: if_splits prod.splits intro: state_valid_same [OF same_file_poll])
  let ?v = "snd (os_kill pid SIGTERM u)"
  obtain e1 x where w1: "wait_child tick pid (clock ?v + 20) ?v = (e1, x)" by (cases "wait_child tick pid (clock ?v + 20) ?v")
  have x: "state_valid d x"
    using same_file_wait_child [OF assms(1), of ?v pid "clock ?v + 20"] w1 state_valid_same [OF same_file_kill u] state_valid_same by (metis snd_conv)
  let ?y = "snd (os_kill pid SIGKILL x)"
  obtain e2 z where w2: "wait_child tick pid (clock ?y + 20) ?y = (e2, z)" by (cases "wait_child tick pid (clock ?y + 20) ?y")
  have z: "state_valid d z"
    using same_file_wait_child [OF assms(1), of ?y pid "clock ?y + 20"] w2 state_valid_same [OF same_file_kill x] state_valid_same by (metis snd_conv)
  show ?thesis
    using first w1 w2 u x z by (simp add: abort_start_def Let_def state_valid_cleanup)
qed

lemma state_valid_launch:
  assumes "leaves_alone tick (path_join d ''service.json'')" and "state_valid d w" and "state_dir a = d" and "new_instance e \<noteq> []"
    and "\<forall>pid. new_pid e = Some pid \<longrightarrow> 0 < pid"
  shows "state_valid d (snd (launch tick a e w))"
proof (cases "new_pid e")
  case None
  then show ?thesis using assms(2) by (simp add: launch_def)
next
  case (Some pid)
  let ?f = "path_join d ''service.json''"
  let ?state = "\<lambda>st. service_state st a (new_instance e) pid (started_at e)"
  have f: "state_file a = ?f" using assms(3) by (simp add: state_file_def)
  have ours: "our_state d (Some (Whole (Doc (?state st))))" for st using assms(3-5) Some by (intro our_stateI) auto
  obtain r2 w2 where 2: "atomic_write_json (token1 e) ?f (?state ''starting'') (spawn a e pid w) = (r2, w2)" by (metis surj_pair)
  have "state_valid d (spawn a e pid w)" using assms(2) by (simp add: state_valid_def)
  from state_valid_write [OF this ours] 2 have v2: "state_valid d w2" by (metis snd_conv)
  obtain r3 w3 where 3: "await_ready tick a (new_instance e) pid (clock w2 + 150) w2 = (r3, w3)" by (metis surj_pair)
  have v3: "state_valid d w3" using same_file_await [OF assms(1)] 3 v2 state_valid_same by (metis snd_conv)
  obtain r4 w4 where 4: "atomic_write_json (token2 e) ?f (?state ''running'') w3 = (r4, w4)" by (metis surj_pair)
  from state_valid_write [OF v3 ours] 4 have v4: "state_valid d w4" by (metis snd_conv)
  show ?thesis
    using Some f 2 3 4 v2 v4 state_valid_abort [OF assms(1) v3] state_valid_abort [OF assms(1) v4]
    by (auto simp: launch_def Let_def split: sum.split prod.split) (metis snd_conv)+
qed

lemma state_valid_terminate:
  assumes "leaves_alone tick (path_join d ''service.json'')" and "state_valid d w"
  shows "state_valid d (snd (terminate_process tick kvs server pid w))"
proof -
  obtain k u where kill: "os_kill pid SIGTERM w = (k, u)" by (metis surj_pair)
  have u: "state_valid d u" using state_valid_same [OF same_file_kill assms(2)] kill by (metis snd_conv)
  obtain g v where wait: "wait_gone tick pid (clock u + 50) u = (g, v)" by (metis surj_pair)
  have v: "state_valid d v" using same_file_wait_gone [OF assms(1)] wait u state_valid_same by (metis snd_conv)
  obtain k2 x where kill2: "os_kill pid SIGKILL v = (k2, x)" by (metis surj_pair)
  have x: "state_valid d x" using state_valid_same [OF same_file_kill v] kill2 by (metis snd_conv)
  obtain g2 y where wait2: "wait_gone tick pid (clock x + 20) x = (g2, y)" by (metis surj_pair)
  have y: "state_valid d y" using same_file_wait_gone [OF assms(1)] wait2 x state_valid_same by (metis snd_conv)
  have hard: "state_valid d (snd (kill_hard tick kvs server pid v))"
    using v x y kill2 wait2 by (auto simp: kill_hard_def split: sum.split kill_result.split)
  have "clock u = clock w" using kill by (auto simp: os_kill_def split: option.splits if_splits)
  then show ?thesis
    using kill wait u v hard by (auto simp: terminate_process_def split: sum.split kill_result.split)
qed

lemma state_valid_stop:
  assumes "leaves_alone tick (path_join d ''service.json'')" and "state_valid d w"
  shows "state_valid d (snd (stop_replay tick (path_join d ''service.json'') server w))"
proof -
  obtain r w' where run: "stop_replay tick (path_join d ''service.json'') server w = (r, w')" by (metis surj_pair)
  then show ?thesis
  proof (cases rule: stop_cases)
    case not_running
    then show ?thesis using run assms(2) state_valid_cleanup by auto
  next
    case (failed err)
    then show ?thesis using run assms(2) by simp
  next
    case (signalled kvs pid s u)
    have "state_valid d u" using state_valid_terminate [OF assms] signalled(3) by (metis snd_conv)
    then show ?thesis using run signalled(4) state_valid_cleanup by auto
  qed
qed

lemma state_valid_start:
  assumes "leaves_alone tick (path_join d ''service.json'')" and "state_valid d w" and "state_dir a = d" and "new_instance e \<noteq> []"
    and "\<forall>pid. new_pid e = Some pid \<longrightarrow> 0 < pid"
  shows "state_valid d (snd (start_locked tick a e w))"
  using state_valid_launch [OF assms] state_valid_launch [OF assms(1) state_valid_cleanup [OF assms(2)] assms(3-5)] assms(2,3)
  by (auto simp: start_locked_def state_file_def split: sum.split option.split)

lemma state_valid_step: "service_step d w w' \<Longrightarrow> state_valid d w \<Longrightarrow> state_valid d w'"
  by (induction rule: service_step.induct) (auto intro: state_valid_start state_valid_stop state_valid_same)

lemma state_valid_reachable: "(service_step d)\<^sup>*\<^sup>* w w' \<Longrightarrow> state_valid d w \<Longrightarrow> state_valid d w'"
  by (induction rule: rtranclp_induct) (auto intro: state_valid_step)

text \<open>C5: Through any sequence of starts and stops, with any arguments, outcomes, write faults and activity of other
  processes that leave the state file alone, the state file is absent or complete: no operation ever finds it unreadable,
  broken or without the identity of a process.\<close>

theorem state_file_always_valid:
  assumes "(service_step d)\<^sup>*\<^sup>* w w'" and "docs w (path_join d ''service.json'') = None" and "path_join d ''service.json'' \<notin> unreadable w"
  shows "load_state (path_join d ''service.json'') w' = Inr None \<or>
    (\<exists>kvs pid instance_id. load_state (path_join d ''service.json'') w' = Inr (Some kvs) \<and>
      state_identity kvs = Some (pid, instance_id) \<and> 0 < pid \<and> complete_state kvs)"
proof -
  have "state_valid d w" using assms(2,3) by (simp add: state_valid_def our_state_def)
  from state_valid_reachable [OF assms(1) this] have v: "path_join d ''service.json'' \<notin> unreadable w'"
    "our_state d (docs w' (path_join d ''service.json''))" by (simp_all add: state_valid_def)
  from v(2) show ?thesis unfolding our_state_def
  proof
    assume "\<exists>st a i pid t. state_dir a = d \<and> i \<noteq> [] \<and> 0 < pid \<and>
      docs w' (path_join d ''service.json'') = Some (Whole (Doc (service_state st a i pid t)))"
    then obtain st a i pid t where s: "i \<noteq> []" "0 < pid"
      "docs w' (path_join d ''service.json'') = Some (Whole (Doc (service_state st a i pid t)))" by blast
    let ?kvs = "state_fields (service_state st a i pid t)"
    have "load_state (path_join d ''service.json'') w' = Inr (Some ?kvs)"
      using s(3) v(1) by (simp add: load_state_def service_state_def state_fields_def)
    moreover have "state_identity ?kvs = Some (pid, i)" by (rule service_state_identity [OF s(2,1)])
    moreover have "complete_state ?kvs" by (simp add: complete_state_def service_state_get obj_get_Cons)
    ultimately show ?thesis using s(2) by blast
  qed simp
qed

theorem state_file_always_valid_witness:
  "\<exists>kvs. load_state ''/st/service.json'' running_world = Inr (Some kvs) \<and> complete_state kvs"
proof -
  have f: "path_join ''/st'' ''service.json'' = ''/st/service.json''" by (simp add: path_join_def slash_def)
  have "start_locked child_ready sample_args sample_start empty_world = (Inr (Started 7), running_world)"
    using sample_started by (simp add: start_locked_def empty_world_def)
  moreover have "leaves_alone child_ready (path_join ''/st'' ''service.json'')"
    by (simp add: leaves_alone_def same_file_def f)
  then have "service_step ''/st'' empty_world (snd (start_locked child_ready sample_args sample_start empty_world))"
    by (intro service_step.start) (simp_all, simp add: sample_args_def)
  ultimately have "(service_step ''/st'')\<^sup>*\<^sup>* empty_world running_world" by simp
  from state_file_always_valid [OF this] show ?thesis
    using sample_owned(1) by (auto simp: f empty_world_def)
qed

end
