(* ===== verification/ReplayMain.thy ===== *)
theory ReplayMain
  imports ReplayService
begin

text \<open>
  \<open>main\<close> of the replay service: the repository directory is taken out of the arguments first; what is left is either
  the word \<open>-stop\<close> alone or the options of a start, whose defaults come from the environment. The arguments are parsed
  as in \<open>ArgParse\<close>; \<open>resolve\<close> gives a path without links, or nothing when there is no such directory.
\<close>

section \<open>The command line\<close>





section \<open>The program\<close>

datatype main_end =
    Main_Usage arg_end
  | Repo_Missing
  | Service_Failed service_error
  | Ran_Stop stop_result
  | Ran_Start start_result



text \<open>The exit status; an exception that is not caught gives 1 as the handled one does.\<close>

definition exit_status :: "main_end \<Rightarrow> nat" where
  "exit_status r =
     (case r of
        Main_Usage Help_Shown \<Rightarrow> 0
      | Main_Usage (Usage_Error _) \<Rightarrow> 2
      | Repo_Missing \<Rightarrow> 1
      | Service_Failed _ \<Rightarrow> 1
      | Ran_Stop _ \<Rightarrow> 0
      | Ran_Start _ \<Rightarrow> 0)"

section \<open>Lemmas\<close>













section \<open>Examples\<close>

definition sample_service :: service_env where
  "sample_service =
     \<lparr>conf_env = sample_config\<lparr>kind_at := (\<lambda>p. if p = ''/repo/tools/viz_player/maze_viz_server.py'' then Plain_File None p else kind_at sample_config p)\<rparr>,
      getenv = Map.empty, tempdir = ''/tmp'', sha256_hex = (\<lambda>_. ''0123456789abcdef''), executable = ''python3''\<rparr>"

definition sample_arguments :: "string \<Rightarrow> arguments" where
  "sample_arguments v =
     \<lparr>config = ''/c/client.yaml'', dir_override = None, port_override = None, host_arg = ''0.0.0.0'', validation_arg = v\<rparr>"

definition sample_prepared :: "string \<Rightarrow> start_args" where
  "sample_prepared v =
     \<lparr>host = ''0.0.0.0'', port = 9004, validation_id = v, config_path = ''/c/client.yaml'', replay_dir = ''/c/log/viz'',
      script_path = ''/repo/tools/viz_player/maze_viz_server.py'', state_dir = ''/tmp/maze-client-replay-0123456789ab'',
      repo_dir = ''/repo'', log_file = ''/repo/log/replay-server.log'', python = ''python3''\<rparr>"

lemma sample_preparation:
  "prepare_start sample_service ''/repo'' (sample_arguments ''v'') = Inr (sample_prepared ''v'')"
  "prepare_start sample_service ''/repo'' (sample_arguments ''-x'') = Inr (sample_prepared ''-x'')"
  by code_simp+

lemma sample_service_dirs: "is_absolute (cwd (conf_env sample_service))" "is_absolute (tempdir sample_service)"
  by (simp_all add: sample_service_def sample_config_def is_absolute_def slash_def)

section \<open>Properties\<close>



end
