(* ===== verification/VizMain.thy ===== *)
theory VizMain
  imports ReplayMain VizSession
begin

text \<open>
  \<open>write_ready_receipt\<close> and \<open>main\<close> of the replay server: its command line, the first list of files, the receipt, the
  requests it answers and its end, by the signal that stops it. The states it goes through are pairs of whether the
  socket is bound and what the files hold; requests are answered one at a time, each in a file system of its own.
\<close>

section \<open>The receipt\<close>

definition receipt_payload :: "int \<Rightarrow> string \<Rightarrow> string \<Rightarrow> string \<Rightarrow> string \<Rightarrow> int \<Rightarrow> json" where
  "receipt_payload pid instance_id here dir hst prt = JObj
     [(''schema_version'', JInt 1), (''source'', JStr ''client-replay-ready''), (''pid'', JInt pid),
      (''instance_id'', JStr instance_id), (''replay_dir'', JStr (abspath here dir)), (''host'', JStr hst), (''port'', JInt prt)]"

definition write_ready_receipt :: "fault \<Rightarrow> string \<Rightarrow> string \<Rightarrow> json \<Rightarrow> doc files \<Rightarrow> doc files list" where
  "write_ready_receipt ft token path payload f = write_states_clean ft (temp_name path token) path (Doc payload) f"

section \<open>The command line\<close>

record viz_args =
  viz_dir :: string
  viz_host :: string
  viz_port :: int
  viz_validation :: string
  viz_mode :: string
  viz_web :: string
  viz_instance :: string
  viz_ready :: string

definition viz_parser :: "arg_option list" where
  "viz_parser =
     [help_option,
      value_option ''dir'' [''--dir'', ''-d''] any_text,
      value_option ''host'' [''--host''] any_text,
      value_option ''port'' [''--port'', ''-p''] is_int_text,
      value_option ''validation_id'' [''--validation-id''] any_text,
      value_option ''mode'' [''--mode''] (\<lambda>v. v = ''evaluation''),
      value_option ''web_dir'' [''--web-dir''] any_text,
      value_option ''instance_id'' [''--instance-id''] any_text,
      value_option ''ready_file'' [''--ready-file''] any_text]"

text \<open>The arguments with their defaults; an instance and a receipt go together.\<close>

definition viz_defaults :: "string \<Rightarrow> namespace \<Rightarrow> viz_args" where
  "viz_defaults script_dir ns =
     \<lparr>viz_dir = value_of ns ''dir'' ''log/viz'', viz_host = value_of ns ''host'' ''127.0.0.1'',
      viz_port = int_of ns ''port'' 9004, viz_validation = value_of ns ''validation_id'' ''local-validation'',
      viz_mode = value_of ns ''mode'' ''evaluation'', viz_web = value_of ns ''web_dir'' script_dir,
      viz_instance = value_of ns ''instance_id'' [], viz_ready = value_of ns ''ready_file'' []\<rparr>"

definition viz_arguments :: "string \<Rightarrow> string list \<Rightarrow> arg_end + viz_args" where
  "viz_arguments script_dir argv =
     (case parse_args viz_parser argv of
        Inl e \<Rightarrow> Inl e
      | Inr ns \<Rightarrow>
          let v = viz_defaults script_dir ns in
          if (viz_instance v \<noteq> []) \<noteq> (viz_ready v \<noteq> []) then Inl (Usage_Error Parser_Error) else Inr v)"

section \<open>The server process\<close>

text \<open>What can go wrong, in this order: making the directory, the binding of the socket, the receipt.\<close>

record viz_faults =
  mkdir_raises :: bool
  bind_raises :: bool
  receipt_fault :: fault

datatype viz_end = Usage_Exit arg_end | Mkdir_Raised | List_Raised | Bind_Raised | Receipt_Raised | Interrupted

record viz_run =
  run_end :: viz_end
  run_states :: "(bool \<times> doc files) list"
  run_answers :: "response option list"
  run_server :: "viz_server option"

definition stopped_early :: "viz_end \<Rightarrow> doc files \<Rightarrow> viz_run" where
  "stopped_early e f = \<lparr>run_end = e, run_states = [(False, f)], run_answers = [], run_server = None\<rparr>"

text \<open>What happens from the bound socket on.\<close>

definition bound_run ::
    "(string \<Rightarrow> json option) \<Rightarrow> (nat \<Rightarrow> string) \<Rightarrow> string \<Rightarrow> int \<Rightarrow> string \<Rightarrow> viz_args \<Rightarrow> fault \<Rightarrow>
      (http_env \<times> string) list \<Rightarrow> viz_server \<Rightarrow> doc files \<Rightarrow> viz_run" where
  "bound_run loads fmt_time here pid token v ft requests s f =
     (let payload = receipt_payload pid (viz_instance v) here (viz_server.replay_dir s) (viz_host v) (viz_port v);
          ss = (if viz_ready v = [] then [f] else write_ready_receipt ft token (viz_ready v) payload f);
          ready = (viz_ready v = [] \<or> ft = No_Fault);
          (answers, s') = (if ready then serve loads fmt_time (abspath here (viz_web v)) requests s else ([], s));
          closed = last ss;
          gone = (if viz_ready v = [] then closed else closed(viz_ready v := None)) in
      \<lparr>run_end = (if ready then Interrupted else Receipt_Raised),
       run_states = (False, f) # map (Pair True) ss @ [(False, closed), (False, gone)],
       run_answers = answers, run_server = Some s'\<rparr>)"

definition viz_main ::
    "(string \<Rightarrow> json option) \<Rightarrow> (nat \<Rightarrow> string) \<Rightarrow> string \<Rightarrow> string \<Rightarrow> int \<Rightarrow> string \<Rightarrow> server_env \<Rightarrow> viz_faults \<Rightarrow>
      string list \<Rightarrow> (http_env \<times> string) list \<Rightarrow> doc files \<Rightarrow> viz_run" where
  "viz_main loads fmt_time script_dir here pid token env faults argv requests f =
     (case viz_arguments script_dir argv of
        Inl e \<Rightarrow> stopped_early (Usage_Exit e) f
      | Inr v \<Rightarrow>
          if mkdir_raises faults then stopped_early Mkdir_Raised f
          else
            case list_files loads fmt_time env (viz_server_init here (viz_dir v) (viz_validation v) (viz_mode v)) of
              (None, s) \<Rightarrow> stopped_early List_Raised f
            | (Some infos, s) \<Rightarrow>
                if bind_raises faults then stopped_early Bind_Raised f
                else bound_run loads fmt_time here pid token v (receipt_fault faults) requests s f)"

section \<open>The command of the service\<close>

definition server_args :: "start_args \<Rightarrow> string \<Rightarrow> (string \<times> string) list" where
  "server_args a i =
     [(''--dir'', start_args.replay_dir a), (''--host'', host a), (''--port'', str_int (port a)), (''--mode'', ''evaluation''),
      (''--validation-id'', start_args.validation_id a), (''--instance-id'', i), (''--ready-file'', ready_file a i)]"

lemma server_command_args: "server_command a i = [python a, ''-u'', script_path a] @ pair_args (server_args a i)"
  by (simp add: server_command_def server_args_def pair_args_def)

definition undashed_args :: "start_args \<Rightarrow> string \<Rightarrow> bool" where
  "undashed_args a i \<longleftrightarrow> list_all undashed [start_args.replay_dir a, host a, start_args.validation_id a, i, ready_file a i] \<and>
     i \<noteq> [] \<and> 0 < port a"

lemma find_options [simp]:
  "find_option viz_parser ''--dir'' = Some (value_option ''dir'' [''--dir'', ''-d''] any_text)"
  "find_option viz_parser ''--host'' = Some (value_option ''host'' [''--host''] any_text)"
  "find_option viz_parser ''--port'' = Some (value_option ''port'' [''--port'', ''-p''] is_int_text)"
  "find_option viz_parser ''--mode'' = Some (value_option ''mode'' [''--mode''] (\<lambda>v. v = ''evaluation''))"
  "find_option viz_parser ''--validation-id'' = Some (value_option ''validation_id'' [''--validation-id''] any_text)"
  "find_option viz_parser ''--instance-id'' = Some (value_option ''instance_id'' [''--instance-id''] any_text)"
  "find_option viz_parser ''--ready-file'' = Some (value_option ''ready_file'' [''--ready-file''] any_text)"
  by (simp_all add: find_option_def viz_parser_def value_option_def help_option_def)

lemma viz_parser_optional: "opt \<in> set viz_parser \<Longrightarrow> \<not> opt_required opt"
  by (auto simp: viz_parser_def value_option_def help_option_def)

lemma args_accepted: "undashed_args a i \<Longrightarrow> list_all (accepts viz_parser) (server_args a i)"
  using undashed_number [of "port a"] less_imp_le
  by (simp add: server_args_def accepts_def takes_value_def undashed_args_def value_option_def any_text_def is_int_text_def dash_def)
    (simp add: undashed_def dash_def)

lemma command_understood:
  assumes "undashed_args a i"
  shows "viz_arguments script_dir (drop 3 (server_command a i)) = Inr
    \<lparr>viz_dir = start_args.replay_dir a, viz_host = host a, viz_port = port a, viz_validation = start_args.validation_id a,
     viz_mode = ''evaluation'', viz_web = script_dir, viz_instance = i, viz_ready = ready_file a i\<rparr>"
proof -
  have "parse_args viz_parser (pair_args (server_args a i)) = Inr (store_pairs viz_parser (server_args a i) Map.empty)"
    by (rule parse_pairs [OF args_accepted [OF assms]]) (auto dest: viz_parser_optional)
  moreover have "ready_file a i \<noteq> []" by (simp add: ready_file_def path_join_def)
  moreover have "i \<noteq> []" using assms by (simp add: undashed_args_def)
  ultimately show ?thesis
    by (simp add: viz_arguments_def server_command_args viz_defaults_def store_pairs_def store_value_def server_args_def value_option_def
        value_of_def int_of_def given_def)
qed

section \<open>Properties\<close>

text \<open>C34: The server publishes its receipt only with the socket bound: before the first state with a bound socket the
  receipt is what it was, no state shows a part of it, and a run that came as far as binding ends with the socket
  closed and the receipt gone.\<close>

theorem receipt_only_while_bound:
  assumes "viz_arguments script_dir argv = Inr v" and "viz_ready v \<noteq> []"
    and "viz_main loads fmt_time script_dir here pid token env faults argv requests f = run"
    and "run_end run \<in> {Interrupted, Receipt_Raised}"
  shows "list_all (\<lambda>s. snd s (viz_ready v) = f (viz_ready v)) (takeWhile (\<lambda>s. \<not> fst s) (run_states run)) \<and>
    list_all (\<lambda>s. snd s (viz_ready v) \<in> {None, f (viz_ready v), Some (Whole (Doc
      (receipt_payload pid (viz_instance v) here (abspath here (viz_dir v)) (viz_host v) (viz_port v))))}) (run_states run) \<and>
    fst (last (run_states run)) = False \<and> snd (last (run_states run)) (viz_ready v) = None"
proof -
  let ?r = "viz_ready v" and ?tmp = "temp_name (viz_ready v) token"
  let ?p = "Doc (receipt_payload pid (viz_instance v) here (abspath here (viz_dir v)) (viz_host v) (viz_port v))"
  let ?ss = "write_states_clean (receipt_fault faults) ?tmp ?r ?p f"
  obtain infos s where listed: "list_files loads fmt_time env (viz_server_init here (viz_dir v) (viz_validation v) (viz_mode v)) = (Some infos, s)"
    and run: "run = bound_run loads fmt_time here pid token v (receipt_fault faults) requests s f"
    using assms(1,3,4) by (auto simp: viz_main_def stopped_early_def split: if_splits prod.splits option.splits)
  have "viz_server.replay_dir s = abspath here (viz_dir v)" using list_files_dir [OF listed] by (simp add: viz_server_init_def)
  then have states: "run_states run = (False, f) # map (Pair True) ?ss @ [(False, last ?ss), (False, (last ?ss)(?r := None))]"
    using assms(2) run by (simp add: bound_run_def write_ready_receipt_def case_prod_beta Let_def)
  have seen: "g ?r = f ?r \<or> g ?r = Some (Whole ?p)" if "g \<in> set ?ss" for g
    using clean.old_or_new [OF temp_name_neq that] .
  have starts: "?ss \<noteq> []" using clean.starts [of "receipt_fault faults" ?tmp ?r ?p f] by simp
  then have "takeWhile (\<lambda>s. \<not> fst s) (run_states run) = [(False, f)]" unfolding states by (cases ?ss) auto
  moreover have "last ?ss ?r = f ?r \<or> last ?ss ?r = Some (Whole ?p)" using starts by (intro seen) simp
  ultimately show ?thesis using seen unfolding states by (auto simp: list_all_iff)
qed

definition quiet_env :: server_env where
  "quiet_env = \<lparr>jsonl_names = [], node_at = Map.empty, json_at = (\<lambda>_. Inl ()), now = 0\<rparr>"

definition no_faults :: viz_faults where
  "no_faults = \<lparr>mkdir_raises = False, bind_raises = False, receipt_fault = No_Fault\<rparr>"

lemma quiet_list: "fst (list_files loads fmt_time quiet_env (viz_server_init here dir v_id md)) = Some []"
  by (simp add: list_files_def fresh_list_def viz_server_init_def sorted_names_def quiet_env_def)

lemma quiet_run:
  assumes "viz_arguments script_dir argv = Inr v"
  shows "\<exists>s. viz_server.replay_dir s = abspath here (viz_dir v) \<and>
    viz_main loads fmt_time script_dir here pid token quiet_env no_faults argv requests f =
      bound_run loads fmt_time here pid token v No_Fault requests s f"
proof -
  obtain s where "list_files loads fmt_time quiet_env (viz_server_init here (viz_dir v) (viz_validation v) (viz_mode v)) = (Some [], s)"
    using quiet_list by (metis prod.collapse)
  then show ?thesis
    using assms list_files_dir by (fastforce simp: viz_main_def no_faults_def viz_server_init_def)
qed

lemma sample_undashed: "undashed_args sample_args ''i1''"
  by (simp add: undashed_args_def undashed_def dash_def sample_args_def ready_file_def path_join_def slash_def)

theorem receipt_only_while_bound_witness:
  "(let run = viz_main (\<lambda>_. None) (\<lambda>_. []) ''/s'' ''/'' 7 ''t'' quiet_env no_faults (drop 3 (server_command sample_args ''i1'')) [] Map.empty in
    fst (last (run_states run)) = False \<and> snd (last (run_states run)) (ready_file sample_args ''i1'') = None)"
proof -
  let ?run = "viz_main (\<lambda>_. None) (\<lambda>_. []) ''/s'' ''/'' 7 ''t'' quiet_env no_faults (drop 3 (server_command sample_args ''i1'')) [] Map.empty"
  note v = command_understood [OF sample_undashed, of "''/s''"]
  have "run_end ?run = Interrupted"
    using quiet_run [OF v, of "''/''" "\<lambda>_. None" "\<lambda>_. []" 7 "''t''" "[]" Map.empty]
    by (auto simp: bound_run_def case_prod_beta Let_def)
  moreover have "ready_file sample_args ''i1'' \<noteq> []" by (simp add: ready_file_def path_join_def)
  ultimately show ?thesis using receipt_only_while_bound [OF v, of _ _ _ _ _ _ _ _ _ ?run] by (simp add: Let_def del: sample_names)
qed

lemma prepared:
  assumes "prepare_start env repo args = Inr a" and "is_absolute (cwd (conf_env env))"
  shows "is_absolute (start_args.replay_dir a) \<and> normpath (start_args.replay_dir a) = start_args.replay_dir a \<and> 0 < port a \<and>
    host a = host_arg args \<and> start_args.validation_id a = validation_arg args"
proof -
  obtain cfg dir prt where "resolve_replay_config (conf_env env) (config args) (dir_override args) (port_override args) = Inr (cfg, dir, prt)"
    "start_args.replay_dir a = dir" "port a = prt" "host a = host_arg args" "start_args.validation_id a = validation_arg args"
    using assms(1) by (auto simp: prepare_start_def split: sum.splits if_splits)
  with resolved_config_facts [OF _ assms(2)] show ?thesis by force
qed

lemma absolute_undashed: "is_absolute p \<Longrightarrow> undashed p"
  by (auto simp: is_absolute_def undashed_def dash_def slash_def)






text \<open>A validation id that begins with a dash, and is neither a number nor has a space, is accepted by the service
  and passed on; the server takes it for an option and ends with a usage error before it listens.\<close>

theorem dashed_id_refused:
  assumes "prepare_start env repo args = Inr a" and "is_absolute (cwd (conf_env env))"
    and "undashed (host_arg args)" and "dashed (validation_arg args)"
  shows "\<exists>e. viz_main loads fmt_time script_dir here pid token senv faults (drop 3 (server_command a i)) requests f =
    stopped_early (Usage_Exit (Usage_Error e)) f"
proof -
  note p = prepared [OF assms(1,2)]
  let ?pre = "[(''--dir'', start_args.replay_dir a), (''--host'', host a), (''--port'', str_int (port a)), (''--mode'', ''evaluation'')]"
  have "list_all (accepts viz_parser) ?pre"
    using p assms(3) undashed_number [of "port a"] absolute_undashed
    by (simp add: accepts_def takes_value_def value_option_def any_text_def is_int_text_def dash_def) (simp add: undashed_def dash_def)
  then have "\<exists>e. parse_args viz_parser (pair_args ?pre @ ''--validation-id'' # start_args.validation_id a #
      [''--instance-id'', i, ''--ready-file'', ready_file a i]) = Inl (Usage_Error e)"
    using assms(4) p
    by (intro dashed_value_refused [where opt = "value_option ''validation_id'' [''--validation-id''] any_text"])
      (simp_all add: dash_def takes_value_def, simp add: value_option_def)
  then obtain e where "parse_args viz_parser (drop 3 (server_command a i)) = Inl (Usage_Error e)"
    by (auto simp: server_command_def pair_args_def)
  then show ?thesis by (auto simp: viz_main_def viz_arguments_def)
qed

section \<open>Examples\<close>


theorem dashed_id_refused_witness:
  "\<exists>e. viz_main (\<lambda>_. None) (\<lambda>_. []) ''/s'' ''/'' 7 ''t'' quiet_env no_faults
      (drop 3 (server_command (sample_prepared ''-x'') ''i1'')) [] Map.empty = stopped_early (Usage_Exit (Usage_Error e)) Map.empty"
proof -
  have "\<not> negative_number ''-x''" by code_simp
  then show ?thesis
    by (intro dashed_id_refused [OF sample_preparation(2) sample_service_dirs(1)])
      (simp_all add: sample_arguments_def undashed_def dashed_def dash_def)
qed

end
