(* ===== verification/VizThreads.thy ===== *)
theory VizThreads
  imports VizIndex
begin

text \<open>
  The line index under the threads of the server. A thread reads the time and the size of a file before it takes the lock
  and scans the file under the lock; between the two the recorder may append lines and other threads may index the same
  file. A stale size makes later scans list lines again, but no frame is ever missed and nothing but frames is listed.
\<close>

section \<open>Threads\<close>





section \<open>The invariant\<close>
















section \<open>Properties\<close>







end
