(* ===== verification/Readiness.thy ===== *)
theory Readiness
  imports AtomicWrite Json ArgParse "HOL-Library.List_Lexorder" "HOL-Library.Char_ord"
begin

text \<open>
  \<open>publish_readiness.py\<close>: the facts of the command line, the receipt and its publication. The
  temporary file carries the process id; nothing removes it when a run fails.
\<close>

section \<open>Facts\<close>

definition fact_char :: "char \<Rightarrow> bool" where
  "fact_char c \<longleftrightarrow> c \<in> set ''abcdefghijklmnopqrstuvwxyz0123456789_''"

type_synonym facts = "(string \<times> string) list"

text \<open>One turn of the loop; \<open>Inl\<close> is the \<open>SystemExit\<close> with the value it reports.\<close>

definition add_fact :: "string \<Rightarrow> facts \<Rightarrow> string + facts" where
  "add_fact v known =
     (let (key, separated, selected) = partition_at (CHR ''='') v in
      if \<not> separated \<or> key = [] \<or> key \<in> fst ` set known \<or> (\<exists>c \<in> set key. \<not> fact_char c) then Inl v
      else Inr (known @ [(key, selected)]))"

primrec parse_facts :: "string list \<Rightarrow> facts \<Rightarrow> string + facts" where
  "parse_facts [] known = Inr known"
| "parse_facts (v # vs) known = (case add_fact v known of Inl bad \<Rightarrow> Inl bad | Inr known' \<Rightarrow> parse_facts vs known')"

section \<open>The receipt\<close>

definition RECEIPT_PATH :: string where
  "RECEIPT_PATH = ''/run/rl/readiness.json''"

definition receipt_temp :: "nat \<Rightarrow> string" where
  "receipt_temp pid = ''/run/rl/.readiness.json.tmp.'' @ str_nat pid"

text \<open>The document, its keys in the order of \<open>sort_keys\<close>.\<close>

definition receipt_doc :: "string \<Rightarrow> facts \<Rightarrow> int \<Rightarrow> json" where
  "receipt_doc component facts ms = JObj
     [(''component'', JStr component),
      (''facts'', JObj (map (\<lambda>(k, v). (k, JStr v)) (sort_key fst facts))),
      (''published_at_unix_ms'', JInt ms),
      (''ready'', JBool True),
      (''schema_version'', JStr ''rl.component-readiness.v2'')]"

record publish_run =
  component :: string
  fact_args :: "string list"
  pid :: nat
  unix_ms :: int
  outcome :: fault

datatype publish_error = Unknown_Component string | Invalid_Fact string

definition run_document :: "publish_run \<Rightarrow> publish_error + json" where
  "run_document r =
     (if component r \<notin> set [''learner'', ''aiserver'', ''client''] then Inl (Unknown_Component (component r))
      else case parse_facts (fact_args r) [] of
          Inl v \<Rightarrow> Inl (Invalid_Fact v)
        | Inr facts \<Rightarrow> Inr (receipt_doc (component r) facts (unix_ms r)))"

text \<open>\<open>main\<close>: the states of the file system while it runs.\<close>

definition publish :: "publish_run \<Rightarrow> json files \<Rightarrow> json files list" where
  "publish r f =
     (case run_document r of
        Inl _ \<Rightarrow> [f]
      | Inr doc \<Rightarrow> write_states (outcome r) (receipt_temp (pid r)) RECEIPT_PATH doc f)"

text \<open>One run after the other, each from the last state of the run before.\<close>

primrec publish_all :: "publish_run list \<Rightarrow> json files \<Rightarrow> json files list" where
  "publish_all [] f = [f]"
| "publish_all (r # rs) f = (let ss = publish r f in ss @ publish_all rs (last ss))"

text \<open>The command line. The facts are collected in the order they are given.\<close>

definition readiness_parser :: "arg_option list" where
  "readiness_parser =
     [help_option,
      (value_option ''component'' [''--component''] (\<lambda>v. v \<in> set [''learner'', ''aiserver'', ''client'']))\<lparr>opt_required := True\<rparr>,
      (value_option ''fact'' [''--fact''] any_text)\<lparr>opt_action := Append\<rparr>]"

definition readiness_main :: "nat \<Rightarrow> int \<Rightarrow> fault \<Rightarrow> string list \<Rightarrow> json files \<Rightarrow> arg_end + json files list" where
  "readiness_main process_id ms ft argv f =
     (case parse_args readiness_parser argv of
        Inl e \<Rightarrow> Inl e
      | Inr ns \<Rightarrow> Inr (publish
          \<lparr>component = value_of ns ''component'' [], fact_args = (case ns ''fact'' of None \<Rightarrow> [] | Some vs \<Rightarrow> vs),
           pid = process_id, unix_ms = ms, outcome = ft\<rparr> f))"

section \<open>Lemmas\<close>

lemma add_fact_append: "add_fact v (a @ b) = Inr c \<Longrightarrow> \<exists>kv. c = a @ b @ [kv] \<and> add_fact v b = Inr (b @ [kv])"
  by (auto simp: add_fact_def partition_at_def Let_def split: if_splits)

lemma fact_char_sep: "fact_char c \<Longrightarrow> c \<noteq> CHR ''=''"
  by (auto simp: fact_char_def)

definition good_key :: "string \<Rightarrow> bool" where
  "good_key k \<longleftrightarrow> k \<noteq> [] \<and> (\<forall>c \<in> set k. fact_char c)"

definition fact_arg :: "string \<times> string \<Rightarrow> string" where
  "fact_arg kv = fst kv @ CHR ''='' # snd kv"

lemma good_key_sep: "good_key k \<Longrightarrow> CHR ''='' \<notin> set k"
  by (auto simp: good_key_def dest: fact_char_sep)

lemma add_fact_iff:
  "add_fact v known = Inr c \<longleftrightarrow> (\<exists>kv. v = fact_arg kv \<and> c = known @ [kv] \<and> good_key (fst kv) \<and> fst kv \<notin> fst ` set known)"
  (is "?l \<longleftrightarrow> ?r")
proof
  assume ?l
  then obtain k w where p: "partition_at (CHR ''='') v = (k, True, w)" and
    "c = known @ [(k, w)]" "good_key k" "k \<notin> fst ` set known"
    by (auto simp: add_fact_def good_key_def split: prod.splits if_splits)
  with partition_parts [OF p] show ?r by (intro exI [of _ "(k, w)"]) (simp add: fact_arg_def)
next
  assume ?r
  then show ?l
    by (auto simp: add_fact_def fact_arg_def partition_join good_key_sep) (auto simp: good_key_def)
qed

lemma parse_facts_iff:
  "parse_facts vs known = Inr c \<longleftrightarrow>
    (\<exists>fs. vs = map fact_arg fs \<and> c = known @ fs \<and> (\<forall>kv \<in> set fs. good_key (fst kv)) \<and>
      distinct (map fst fs) \<and> fst ` set fs \<inter> fst ` set known = {})" (is "_ \<longleftrightarrow> ?ok vs known c")
proof (induction vs arbitrary: known)
  case Nil
  then show ?case by auto
next
  case (Cons v vs)
  show ?case
  proof
    assume "parse_facts (v # vs) known = Inr c"
    then obtain known' where 1: "add_fact v known = Inr known'" and 2: "parse_facts vs known' = Inr c"
      by (auto split: sum.splits)
    from 1 obtain kv where kv: "v = fact_arg kv" "known' = known @ [kv]" "good_key (fst kv)" "fst kv \<notin> fst ` set known"
      unfolding add_fact_iff by blast
    from 2 obtain fs where "vs = map fact_arg fs" "c = known' @ fs" "\<forall>kv \<in> set fs. good_key (fst kv)"
      "distinct (map fst fs)" "fst ` set fs \<inter> fst ` set known' = {}"
      unfolding Cons.IH by blast
    with kv show "?ok (v # vs) known c" by (intro exI [of _ "kv # fs"]) auto
  next
    assume "?ok (v # vs) known c"
    then obtain kv fs where f: "v = fact_arg kv" "vs = map fact_arg fs" "c = known @ kv # fs"
      "good_key (fst kv)" "\<forall>kv \<in> set fs. good_key (fst kv)" "fst kv \<notin> fst ` set fs" "distinct (map fst fs)"
      "fst kv \<notin> fst ` set known" "fst ` set fs \<inter> fst ` set known = {}"
      by (auto simp: map_eq_Cons_conv)
    have "add_fact v known = Inr (known @ [kv])" unfolding add_fact_iff using f by blast
    moreover have "parse_facts vs (known @ [kv]) = Inr c" unfolding Cons.IH using f by (intro exI [of _ fs]) auto
    ultimately show "parse_facts (v # vs) known = Inr c" by simp
  qed
qed

lemma receipt_temp_neq: "receipt_temp p \<noteq> RECEIPT_PATH"
  by (simp add: receipt_temp_def RECEIPT_PATH_def)

definition accepted :: "publish_run list \<Rightarrow> (fault \<times> string \<times> json) list" where
  "accepted rs = concat (map (\<lambda>r. case run_document r of Inl _ \<Rightarrow> [] | Inr doc \<Rightarrow> [(outcome r, receipt_temp (pid r), doc)]) rs)"

lemma publish_all_history: "set (publish_all rs f) = set (plain.history (accepted rs) RECEIPT_PATH f)"
proof (induction rs arbitrary: f)
  case (Cons r rs)
  show ?case
  proof (cases "run_document r")
    case (Inl e)
    have "f \<in> set (plain.history (accepted rs) RECEIPT_PATH f)"
      by (cases "accepted rs") (auto simp: Let_def write_states_def split: fault.splits)
    with Inl Cons.IH show ?thesis by (simp add: publish_def accepted_def insert_absorb)
  next
    case (Inr doc)
    with Cons.IH show ?thesis by (simp add: publish_def accepted_def Let_def)
  qed
qed (simp add: accepted_def)

section \<open>Properties\<close>

text \<open>The facts of the command line are accepted exactly when every argument is a key of lower-case letters, digits
  and underscores, an equals sign and a value, with no key twice; the value keeps further equals signs.\<close>

theorem facts_accepted_iff:
  "parse_facts args [] = Inr facts \<longleftrightarrow>
    args = map fact_arg facts \<and> distinct (map fst facts) \<and> list_all good_key (map fst facts)"
  unfolding parse_facts_iff by (auto simp: list_all_iff)

text \<open>C39: Whatever runs follow one another, with whatever faults, a reader of the receipt finds the content from before
  or the whole document of one of the runs, whose component and facts were accepted.\<close>

theorem receipt_never_partial:
  assumes "g \<in> set (publish_all rs f)"
  shows "g RECEIPT_PATH = f RECEIPT_PATH \<or>
    (\<exists>r \<in> set rs. \<exists>facts. parse_facts (fact_args r) [] = Inr facts \<and>
      component r \<in> {''learner'', ''aiserver'', ''client''} \<and>
      g RECEIPT_PATH = Some (Whole (receipt_doc (component r) facts (unix_ms r))))"
proof -
  have temps: "\<forall>r \<in> set (accepted rs). fst (snd r) \<noteq> RECEIPT_PATH"
    by (auto simp: accepted_def receipt_temp_neq split: sum.splits)
  have "g \<in> set (plain.history (accepted rs) RECEIPT_PATH f)"
    using assms publish_all_history by blast
  from plain.reader_sees_whole [OF temps this] show ?thesis
  proof
    assume "\<exists>r \<in> set (accepted rs). g RECEIPT_PATH = Some (Whole (snd (snd r)))"
    then obtain r doc where "r \<in> set rs" "run_document r = Inr doc" "g RECEIPT_PATH = Some (Whole doc)"
      by (fastforce simp: accepted_def split: sum.splits)
    then show ?thesis
      by (auto simp: run_document_def split: if_splits sum.splits intro!: bexI [of _ r])
  qed simp
qed

theorem receipt_never_partial_witness:
  "(let r = \<lparr>component = ''client'', fact_args = [''port=1''], pid = 7, unix_ms = 5, outcome = No_Fault\<rparr>;
        g = last (publish_all [r] Map.empty) in
    g RECEIPT_PATH = Some (Whole (receipt_doc ''client'' [(''port'', ''1'')] 5)))"
proof -
  let ?r = "\<lparr>component = ''client'', fact_args = [''port=1''], pid = 7, unix_ms = 5, outcome = No_Fault\<rparr>"
  let ?g = "last (publish_all [?r] Map.empty)"
  have doc: "run_document ?r = Inr (receipt_doc ''client'' [(''port'', ''1'')] 5)"
    by (simp add: run_document_def add_fact_def partition_at_def fact_char_def)
  have in_states: "?g \<in> set (publish_all [?r] Map.empty)" by (intro last_in_set) (simp add: publish_def write_states_def Let_def doc)
  have "?g RECEIPT_PATH \<noteq> None"
    by (simp add: publish_def write_states_def Let_def doc)
  then have "?g RECEIPT_PATH \<noteq> Map.empty RECEIPT_PATH" by simp
  with receipt_never_partial [OF in_states] have "\<exists>facts. parse_facts (fact_args ?r) [] = Inr facts \<and>
      ?g RECEIPT_PATH = Some (Whole (receipt_doc (component ?r) facts (unix_ms ?r)))" by auto
  then show ?thesis by (simp add: Let_def add_fact_def partition_at_def fact_char_def)
qed

text \<open>A run that cannot replace the receipt leaves its complete temporary file behind, and the receipt as it was.\<close>

theorem failed_replace_leaves_temp:
  assumes "run_document r = Inr doc" and "outcome r = Replace_Fails"
  shows "last (publish r f) = f(receipt_temp (pid r) \<mapsto> Whole doc) \<and> last (publish r f) RECEIPT_PATH = f RECEIPT_PATH"
  using assms receipt_temp_neq [of "pid r"] by (simp add: publish_def write_states_def Let_def)

theorem failed_replace_leaves_temp_witness:
  "(let r = \<lparr>component = ''client'', fact_args = [], pid = 7, unix_ms = 5, outcome = Replace_Fails\<rparr> in
    last (publish r Map.empty) ''/run/rl/.readiness.json.tmp.7'' = Some (Whole (receipt_doc ''client'' [] 5)))"
proof -
  let ?r = "\<lparr>component = ''client'', fact_args = [], pid = 7, unix_ms = 5, outcome = Replace_Fails\<rparr>"
  have "run_document ?r = Inr (receipt_doc ''client'' [] 5)" by (simp add: run_document_def)
  moreover have seven: "str_nat 7 = ''7''" by code_simp
  ultimately show ?thesis using failed_replace_leaves_temp [of ?r "receipt_doc ''client'' [] 5" Map.empty]
    by (simp add: Let_def receipt_temp_def seven)
qed

lemma good_key_undashed: "good_key (fst kv) \<Longrightarrow> undashed (fact_arg kv)"
  by (cases "fst kv") (auto simp: good_key_def undashed_def fact_arg_def fact_char_def dash_def)

lemma store_facts:
  "store_pairs readiness_parser (map (\<lambda>v. (''--fact'', v)) vs) (ns(''fact'' \<mapsto> us)) = ns(''fact'' \<mapsto> us @ vs)"
proof (induction vs arbitrary: us)
  case (Cons v vs)
  have "find_option readiness_parser ''--fact'' = Some ((value_option ''fact'' [''--fact''] any_text)\<lparr>opt_action := Append\<rparr>)"
    by (simp add: find_option_def readiness_parser_def value_option_def help_option_def)
  with Cons [of "us @ [v]"] show ?case
    by (simp add: store_pairs_def store_value_def value_option_def del: fun_upd_apply) (simp only: fun_upd_same option.case fun_upd_upd)
qed (simp add: store_pairs_def)

lemma store_first_fact:
  assumes "ns ''fact'' = None" and "vs \<noteq> []"
  shows "store_pairs readiness_parser (map (\<lambda>v. (''--fact'', v)) vs) ns = ns(''fact'' \<mapsto> vs)"
proof -
  obtain w ws where vs: "vs = w # ws" using assms(2) by (cases vs) auto
  have "find_option readiness_parser ''--fact'' = Some ((value_option ''fact'' [''--fact''] any_text)\<lparr>opt_action := Append\<rparr>)"
    by (simp add: find_option_def readiness_parser_def value_option_def help_option_def)
  then have "store_pairs readiness_parser (map (\<lambda>v. (''--fact'', v)) vs) ns =
      store_pairs readiness_parser (map (\<lambda>v. (''--fact'', v)) ws) (ns(''fact'' \<mapsto> [w]))"
    using assms(1) by (simp add: vs store_pairs_def store_value_def value_option_def del: fun_upd_apply)
  then show ?thesis using store_facts [of ws ns "[w]"] by (simp add: vs del: fun_upd_apply)
qed

text \<open>A run whose command line names a known component and well-formed, distinct facts ends with the
  receipt of exactly that component and these facts, when nothing fails on the way.\<close>

theorem readiness_command:
  assumes "c \<in> set [''learner'', ''aiserver'', ''client'']"
    and "distinct (map fst facts)" and "list_all good_key (map fst facts)"
  shows "\<exists>states. readiness_main process_id ms No_Fault
      (pair_args ((''--component'', c) # map (\<lambda>kv. (''--fact'', fact_arg kv)) facts)) f = Inr states \<and>
    last states RECEIPT_PATH = Some (Whole (receipt_doc c facts ms))"
proof -
  let ?kvs = "(''--component'', c) # map (\<lambda>v. (''--fact'', v)) (map fact_arg facts)"
  have options: "find_option readiness_parser ''--component'' =
      Some ((value_option ''component'' [''--component''] (\<lambda>v. v \<in> set [''learner'', ''aiserver'', ''client'']))\<lparr>opt_required := True\<rparr>)"
    "find_option readiness_parser ''--fact'' = Some ((value_option ''fact'' [''--fact''] any_text)\<lparr>opt_action := Append\<rparr>)"
    by (simp_all add: find_option_def readiness_parser_def value_option_def help_option_def)
  have "undashed c" using assms(1) by (auto simp: undashed_def dash_def)
  then have "accepts readiness_parser (''--component'', c)"
    using assms(1) options(1) by (simp add: accepts_def takes_value_def dash_def value_option_def)
  moreover have "accepts readiness_parser (''--fact'', fact_arg kv)" if "good_key (fst kv)" for kv
    using good_key_undashed [OF that] options(2)
    by (simp add: accepts_def takes_value_def dash_def value_option_def any_text_def)
  ultimately have "list_all (accepts readiness_parser) ?kvs" using assms(3) by (auto simp: list_all_iff)
  moreover define ns where "ns = store_pairs readiness_parser ?kvs Map.empty"
  have ns: "ns ''component'' = Some [c]" "(case ns ''fact'' of None \<Rightarrow> [] | Some vs \<Rightarrow> vs) = map fact_arg facts"
  proof -
    have start: "ns = store_pairs readiness_parser (map (\<lambda>v. (''--fact'', v)) (map fact_arg facts)) [''component'' \<mapsto> [c]]"
      using options(1) by (simp add: ns_def store_pairs_def store_value_def value_option_def del: fun_upd_apply)
    have "ns = (if facts = [] then [''component'' \<mapsto> [c]] else [''component'' \<mapsto> [c], ''fact'' \<mapsto> map fact_arg facts])"
    proof (cases "map fact_arg facts")
      case Nil
      then show ?thesis using start by (simp add: store_pairs_def)
    next
      case (Cons v vs)
      then have "ns = [''component'' \<mapsto> [c]](''fact'' \<mapsto> map fact_arg facts)"
        unfolding start by (intro store_first_fact) simp_all
      with Cons show ?thesis by auto
    qed
    then show "ns ''component'' = Some [c]" "(case ns ''fact'' of None \<Rightarrow> [] | Some vs \<Rightarrow> vs) = map fact_arg facts"
      by (simp_all split: if_splits)
  qed
  moreover have "\<forall>opt \<in> set readiness_parser. opt_required opt \<longrightarrow> store_pairs readiness_parser ?kvs Map.empty (opt_dest opt) \<noteq> None"
    using ns(1) by (simp add: ns_def readiness_parser_def value_option_def help_option_def)
  ultimately have parsed: "parse_args readiness_parser (pair_args ?kvs) = Inr ns"
    unfolding ns_def by (intro parse_pairs)
  have "parse_facts (map fact_arg facts) [] = Inr facts"
    unfolding parse_facts_iff using assms(2,3) by (auto simp: list_all_iff)
  with assms(1) parsed ns show ?thesis
    by (simp add: readiness_main_def value_of_def given_def publish_def run_document_def write_states_def Let_def comp_def)
qed

theorem readiness_command_witness:
  "\<exists>states. readiness_main 7 5 No_Fault [''--component'', ''client'', ''--fact'', ''port=1=2''] Map.empty = Inr states \<and>
    last states RECEIPT_PATH = Some (Whole (receipt_doc ''client'' [(''port'', ''1=2'')] 5))"
  using readiness_command [of "''client''" "[(''port'', ''1=2'')]" 7 5 Map.empty]
  by (simp add: good_key_def fact_char_def pair_args_def fact_arg_def)

end
