(* ===== verification/SnapshotSync.thy ===== *)
theory SnapshotSync
  imports PyPath ArgParse
begin

text \<open>
  \<open>sync_contract_snapshot.py\<close>: copying the protocol files of an artifact into the source tree. The
  files of the snapshot are staged in a temporary directory first and moved into place afterwards; the
  SDK is copied as a tree. Paths name entries of one file system; the staging directory is new and
  therefore a map of its own, removed at the end of the block.
\<close>

section \<open>Files\<close>

text \<open>A symbolic link stands with the content it leads to, if it leads to a file.\<close>

datatype entry = Regular string | Link "string option" | Directory

type_synonym tree = "string \<rightharpoonup> entry"

definition SNAPSHOT_FILES :: "(string \<times> string) list" where
  "SNAPSHOT_FILES =
     [(''proto/common/identity.proto'', ''common/identity.proto''),
      (''cpp/proto/common/identity.pb.cc'', ''common/identity.pb.cc''),
      (''cpp/proto/common/identity.pb.h'', ''common/identity.pb.h''),
      (''proto/communication/session.proto'', ''communication/session.proto''),
      (''cpp/proto/communication/session.pb.cc'', ''communication/session.pb.cc''),
      (''cpp/proto/communication/session.pb.h'', ''communication/session.pb.h''),
      (''proto/maze/maze.proto'', ''maze/maze.proto''),
      (''cpp/proto/maze/maze.pb.cc'', ''maze/maze.pb.cc''),
      (''cpp/proto/maze/maze.pb.h'', ''maze/maze.pb.h''),
      (''cpp/proto/maze/maze.grpc.pb.cc'', ''maze/maze.grpc.pb.cc''),
      (''cpp/proto/maze/maze.grpc.pb.h'', ''maze/maze.grpc.pb.h''),
      (''cpp/proto/maze/maze.sdk.pb.h'', ''maze/maze.sdk.pb.h'')]"

datatype sync_error = Required_File_Missing string | Os_Error

text \<open>The \<open>SystemExit\<close> of a path that is no regular file, or is a link.\<close>

definition require_regular_file :: "tree \<Rightarrow> string \<Rightarrow> sync_error + string" where
  "require_regular_file t path =
     (case t path of Some (Regular content) \<Rightarrow> Inr content | _ \<Rightarrow> Inl (Required_File_Missing path))"

section \<open>The snapshot\<close>

text \<open>The first loop: every source is checked and copied into the stage.\<close>

primrec stage_files :: "tree \<Rightarrow> string \<Rightarrow> (string \<times> string) list \<Rightarrow> (string \<rightharpoonup> string) \<Rightarrow> sync_error + (string \<rightharpoonup> string)" where
  "stage_files t base [] stage = Inr stage"
| "stage_files t base (f # fs) stage =
     (case require_regular_file t (path_join base (fst f)) of
        Inl err \<Rightarrow> Inl err
      | Inr content \<Rightarrow> stage_files t base fs (stage(snd f \<mapsto> content)))"

text \<open>
  The second loop, as the list of the states it goes through. \<open>fails\<close> tells for which names
  \<open>os.replace\<close> or the creation of the directory raises.
\<close>

primrec replace_files :: "(string \<Rightarrow> bool) \<Rightarrow> string \<Rightarrow> string list \<Rightarrow> (string \<rightharpoonup> string) \<Rightarrow> tree \<Rightarrow> (sync_error + unit) \<times> tree list" where
  "replace_files fails base [] stage t = (Inr (), [t])"
| "replace_files fails base (n # ns) stage t =
     (if fails n then (Inl Os_Error, [t])
      else case stage n of
          None \<Rightarrow> (Inl Os_Error, [t])
        | Some content \<Rightarrow>
            let (result, ts) = replace_files fails base ns (stage(n := None)) (t(path_join base n \<mapsto> Regular content))
            in (result, t # ts))"

definition sync_snapshot :: "(string \<Rightarrow> bool) \<Rightarrow> string \<Rightarrow> string \<Rightarrow> tree \<Rightarrow> (sync_error + unit) \<times> tree list" where
  "sync_snapshot fails artifact_root target_root t =
     (case stage_files t artifact_root SNAPSHOT_FILES Map.empty of
        Inl err \<Rightarrow> (Inl err, [t])
      | Inr stage \<Rightarrow> replace_files fails target_root (map snd SNAPSHOT_FILES) stage t)"

section \<open>The SDK\<close>

definition SDK_REQUIRED :: "string list" where
  "SDK_REQUIRED =
     [''CMakeLists.txt'', ''include/rl_sdk/task_client.h'', ''tools/generate-task'', ''tools/protoc-gen-rl-sdk'',
      ''proto/common/identity.proto'', ''proto/communication/session.proto'']"

definition SDK_LEGACY :: "string list" where
  "SDK_LEGACY = [''session.h'', ''transport.h'', ''server_command.h'', ''replay_window.h'', ''metric_catalog.h'']"

primrec require_all :: "tree \<Rightarrow> string \<Rightarrow> string list \<Rightarrow> sync_error + unit" where
  "require_all t base [] = Inr ()"
| "require_all t base (n # ns) =
     (case require_regular_file t (path_join base n) of Inl err \<Rightarrow> Inl err | Inr _ \<Rightarrow> require_all t base ns)"

text \<open>
  \<open>shutil.copytree\<close> with existing directories allowed, between trees that do not overlap: files, and
  the files behind links, are copied; what the source does not name stays.
\<close>

definition copytree :: "string \<Rightarrow> string \<Rightarrow> tree \<Rightarrow> tree" where
  "copytree source target t = (\<lambda>p.
     if has_prefix (target @ [slash]) p then
       (case t (source @ slash # drop (Suc (length target)) p) of
          Some (Regular content) \<Rightarrow> Some (Regular content)
        | Some (Link (Some content)) \<Rightarrow> Some (Regular content)
        | Some Directory \<Rightarrow> Some Directory
        | _ \<Rightarrow> t p)
     else t p)"

definition sync_sdk :: "string \<Rightarrow> string \<Rightarrow> tree \<Rightarrow> (sync_error + unit) \<times> tree" where
  "sync_sdk artifact_root target_root t =
     (let source = path_join artifact_root ''sdk''; target = path_join target_root ''rl_sdk'' in
      case require_all t source SDK_REQUIRED of
        Inl err \<Rightarrow> (Inl err, t)
      | Inr _ \<Rightarrow> (Inr (), fold (\<lambda>n t. t(path_join target n := None)) SDK_LEGACY (copytree source target t)))"

text \<open>\<open>main\<close>, on resolved paths: the snapshot first, then the SDK.\<close>

definition sync_main :: "(string \<Rightarrow> bool) \<Rightarrow> string \<Rightarrow> string \<Rightarrow> tree \<Rightarrow> (sync_error + unit) \<times> tree list" where
  "sync_main fails artifact_dir target_dir t =
     (case sync_snapshot fails artifact_dir target_dir t of
        (Inl err, ts) \<Rightarrow> (Inl err, ts)
      | (Inr _, ts) \<Rightarrow> let (result, t') = sync_sdk artifact_dir target_dir (last ts) in (result, ts @ [t']))"

text \<open>The command line; \<open>resolve\<close> gives a path without links.\<close>

definition sync_parser :: "arg_option list" where
  "sync_parser =
     [help_option,
      (value_option ''artifact_dir'' [''--artifact-dir''] any_text)\<lparr>opt_required := True\<rparr>,
      (value_option ''target_dir'' [''--target-dir''] any_text)\<lparr>opt_required := True\<rparr>]"

definition sync_run ::
    "(string \<Rightarrow> bool) \<Rightarrow> (string \<Rightarrow> string) \<Rightarrow> string list \<Rightarrow> tree \<Rightarrow> arg_end + (sync_error + unit) \<times> tree list" where
  "sync_run fails resolve argv t =
     (case parse_args sync_parser argv of
        Inl e \<Rightarrow> Inl e
      | Inr ns \<Rightarrow> Inr (sync_main fails (resolve (value_of ns ''artifact_dir'' [])) (resolve (value_of ns ''target_dir'' [])) t))"

section \<open>Lemmas\<close>

definition is_regular :: "tree \<Rightarrow> string \<Rightarrow> bool" where
  "is_regular t path \<longleftrightarrow> (case t path of Some (Regular _) \<Rightarrow> True | _ \<Rightarrow> False)"

definition file_content :: "tree \<Rightarrow> string \<Rightarrow> string" where
  "file_content t path = (case t path of Some (Regular content) \<Rightarrow> content | _ \<Rightarrow> [])"

lemma require_regular_iff:
  "require_regular_file t path = (if is_regular t path then Inr (file_content t path) else Inl (Required_File_Missing path))"
  by (auto simp: require_regular_file_def is_regular_def file_content_def split: option.splits entry.splits)

lemma is_regularD: "is_regular t path \<Longrightarrow> t path = Some (Regular (file_content t path))"
  by (auto simp: is_regular_def file_content_def split: option.splits entry.splits)

lemma stage_files_eq:
  "stage_files t base fs stage =
    (case find (\<lambda>f. \<not> is_regular t (path_join base (fst f))) fs of
       Some f \<Rightarrow> Inl (Required_File_Missing (path_join base (fst f)))
     | None \<Rightarrow> Inr (fold (\<lambda>f stage. stage(snd f \<mapsto> file_content t (path_join base (fst f)))) fs stage))"
proof (induction fs arbitrary: stage)
  case (Cons f fs)
  then show ?case by (simp add: require_regular_iff split: option.split)
qed simp

lemma fold_upd_other: "k \<notin> g ` set fs \<Longrightarrow> fold (\<lambda>f m. m(g f := h f)) fs m k = m k"
  by (induction fs arbitrary: m) auto

lemma fold_upd_at: "distinct (map g fs) \<Longrightarrow> f \<in> set fs \<Longrightarrow> fold (\<lambda>f m. m(g f := h f)) fs m (g f) = h f"
proof (induction fs arbitrary: m)
  case (Cons a fs)
  show ?case
  proof (cases "f = a")
    case True
    then show ?thesis using Cons.prems(1) by (simp add: fold_upd_other del: fun_upd_apply) simp
  next
    case False
    then show ?thesis using Cons by simp
  qed
qed simp

definition placed :: "string \<Rightarrow> (string \<Rightarrow> string) \<Rightarrow> string list \<Rightarrow> tree \<Rightarrow> tree" where
  "placed base contents = fold (\<lambda>n t. t(path_join base n \<mapsto> Regular (contents n)))"

lemma distinct_joined: "distinct ns \<Longrightarrow> \<forall>n \<in> set ns. relative n \<Longrightarrow> distinct (map (path_join base) ns)"
  by (auto simp: distinct_map inj_on_def path_join_inj)

lemma placed_at:
  "distinct ns \<Longrightarrow> \<forall>n \<in> set ns. relative n \<Longrightarrow> n \<in> set ns \<Longrightarrow> placed base contents ns t (path_join base n) = Some (Regular (contents n))"
  unfolding placed_def by (rule fold_upd_at [OF distinct_joined])

lemma placed_other: "p \<notin> path_join base ` set ns \<Longrightarrow> placed base contents ns t p = t p"
  unfolding placed_def by (rule fold_upd_other)

text \<open>The second loop in closed form: the files before the first failure, one after the other.\<close>

lemma replace_files_eq:
  assumes "distinct ns" and "\<forall>n \<in> set ns. stage n = Some (contents n)"
  shows "replace_files fails base ns stage t =
    (if takeWhile (\<lambda>n. \<not> fails n) ns = ns then Inr () else Inl Os_Error,
     map (\<lambda>k. placed base contents (take k ns) t) [0..<Suc (length (takeWhile (\<lambda>n. \<not> fails n) ns))])"
  using assms
proof (induction ns arbitrary: stage t)
  case Nil
  then show ?case by (simp add: placed_def)
next
  case (Cons n ns)
  show ?case
  proof (cases "fails n")
    case True
    then show ?thesis by (simp add: placed_def)
  next
    case False
    let ?t = "t(path_join base n \<mapsto> Regular (contents n))"
    have "replace_files fails base ns (stage(n := None)) ?t =
      (if takeWhile (\<lambda>n. \<not> fails n) ns = ns then Inr () else Inl Os_Error,
       map (\<lambda>k. placed base contents (take k ns) ?t) [0..<Suc (length (takeWhile (\<lambda>n. \<not> fails n) ns))])"
      using Cons by (intro Cons.IH) auto
    moreover have "map (\<lambda>k. placed base contents (take k (n # ns)) t) [0..<Suc (Suc m)] =
        t # map (\<lambda>k. placed base contents (take k ns) ?t) [0..<Suc m]" for m
      by (subst upt_conv_Cons) (simp_all add: placed_def map_Suc_upt [symmetric] del: upt_Suc)
    ultimately show ?thesis using False Cons.prems(2) by (simp del: upt_Suc)
  qed
qed

abbreviation snapshot_names :: "string list" where
  "snapshot_names \<equiv> map snd SNAPSHOT_FILES"

lemma snapshot_names_ok: "distinct snapshot_names" "\<forall>n \<in> set snapshot_names. relative n"
  by (simp_all add: SNAPSHOT_FILES_def relative_def slash_def)

text \<open>The content a name of the snapshot gets.\<close>

definition source_content :: "tree \<Rightarrow> string \<Rightarrow> string \<Rightarrow> string" where
  "source_content t base n =
     (case find (\<lambda>f. snd f = n) SNAPSHOT_FILES of Some f \<Rightarrow> file_content t (path_join base (fst f)) | None \<Rightarrow> [])"

lemma find_snd: "distinct (map snd fs) \<Longrightarrow> f \<in> set fs \<Longrightarrow> find (\<lambda>g. snd g = snd f) fs = Some f"
  by (induction fs) (auto simp: image_iff)

lemma source_content_at: "f \<in> set SNAPSHOT_FILES \<Longrightarrow> source_content t base (snd f) = file_content t (path_join base (fst f))"
  by (simp add: source_content_def find_snd snapshot_names_ok(1))

lemma sync_snapshot_eq:
  "sync_snapshot fails a b t =
    (case find (\<lambda>f. \<not> is_regular t (path_join a (fst f))) SNAPSHOT_FILES of
       Some f \<Rightarrow> (Inl (Required_File_Missing (path_join a (fst f))), [t])
     | None \<Rightarrow>
         (if takeWhile (\<lambda>n. \<not> fails n) snapshot_names = snapshot_names then Inr () else Inl Os_Error,
          map (\<lambda>k. placed b (source_content t a) (take k snapshot_names) t)
            [0..<Suc (length (takeWhile (\<lambda>n. \<not> fails n) snapshot_names))]))"
proof (cases "find (\<lambda>f. \<not> is_regular t (path_join a (fst f))) SNAPSHOT_FILES")
  case None
  let ?stage = "fold (\<lambda>f stage. stage(snd f \<mapsto> file_content t (path_join a (fst f)))) SNAPSHOT_FILES Map.empty"
  have "?stage n = Some (source_content t a n)" if n: "n \<in> set snapshot_names" for n
  proof -
    from n obtain f where f: "f \<in> set SNAPSHOT_FILES" "n = snd f" by auto
    with fold_upd_at [OF snapshot_names_ok(1) f(1)] show ?thesis by (simp add: source_content_at)
  qed
  then have "replace_files fails b snapshot_names ?stage t =
      (if takeWhile (\<lambda>n. \<not> fails n) snapshot_names = snapshot_names then Inr () else Inl Os_Error,
       map (\<lambda>k. placed b (source_content t a) (take k snapshot_names) t)
         [0..<Suc (length (takeWhile (\<lambda>n. \<not> fails n) snapshot_names))])"
    by (intro replace_files_eq snapshot_names_ok(1)) blast
  with None show ?thesis by (simp add: sync_snapshot_def stage_files_eq del: upt_Suc)
qed (simp add: sync_snapshot_def stage_files_eq)

lemma complete_iff: "find (\<lambda>f. \<not> is_regular t (path_join a (fst f))) fs = None \<longleftrightarrow> (\<forall>f \<in> set fs. is_regular t (path_join a (fst f)))"
  unfolding find_None_iff by blast

lemma require_all_eq:
  "require_all t base ns =
    (case find (\<lambda>n. \<not> is_regular t (path_join base n)) ns of
       Some n \<Rightarrow> Inl (Required_File_Missing (path_join base n)) | None \<Rightarrow> Inr ())"
  by (induction ns) (auto simp: require_regular_iff)

section \<open>Properties\<close>

text \<open>When a file of the snapshot is missing, or is a link, the first such file is reported and nothing of the
  target changes.\<close>

theorem snapshot_checked_first:
  assumes "f \<in> set SNAPSHOT_FILES" and "\<not> is_regular t (path_join artifact (fst f))"
  shows "\<exists>pre g post. SNAPSHOT_FILES = pre @ g # post \<and> list_all (\<lambda>h. is_regular t (path_join artifact (fst h))) pre \<and>
    \<not> is_regular t (path_join artifact (fst g)) \<and>
    sync_snapshot fails artifact target t = (Inl (Required_File_Missing (path_join artifact (fst g))), [t])"
proof -
  let ?bad = "\<lambda>f. \<not> is_regular t (path_join artifact (fst f))"
  obtain g where g: "find ?bad SNAPSHOT_FILES = Some g"
    using assms by (metis find_None_iff2 not_Some_eq)
  then obtain i where i: "i < length SNAPSHOT_FILES" "?bad (SNAPSHOT_FILES ! i)" "g = SNAPSHOT_FILES ! i"
    "\<forall>j<i. \<not> ?bad (SNAPSHOT_FILES ! j)" by (auto simp: find_Some_iff)
  have "SNAPSHOT_FILES = take i SNAPSHOT_FILES @ g # drop (Suc i) SNAPSHOT_FILES"
    using i(1,3) by (simp add: id_take_nth_drop)
  moreover have "list_all (\<lambda>h. \<not> ?bad h) (take i SNAPSHOT_FILES)"
    using i(1,4) by (auto simp: list_all_length)
  ultimately show ?thesis
    using i(2,3) g by (intro exI conjI) (assumption | simp add: sync_snapshot_eq)+
qed

text \<open>C38: In every state of a run each path holds what it held before, or is a file of the snapshot with the content
  of its source; a run that succeeds ends with every file of the snapshot in place and every other path as it was.\<close>

theorem snapshot_old_or_new:
  assumes "sync_snapshot fails artifact target t = (result, ts)"
  shows "(\<forall>u \<in> set ts. \<forall>p. u p = t p \<or>
      (\<exists>f \<in> set SNAPSHOT_FILES. p = path_join target (snd f) \<and> u p = t (path_join artifact (fst f)) \<and> is_regular u p)) \<and>
    (result = Inr () \<longrightarrow>
      (\<forall>f \<in> set SNAPSHOT_FILES. last ts (path_join target (snd f)) = t (path_join artifact (fst f))) \<and>
      (\<forall>p. p \<notin> path_join target ` snd ` set SNAPSHOT_FILES \<longrightarrow> last ts p = t p))"
proof (cases "find (\<lambda>f. \<not> is_regular t (path_join artifact (fst f))) SNAPSHOT_FILES")
  case (Some f)
  then show ?thesis using assms by (auto simp: sync_snapshot_eq)
next
  case None
  let ?c = "source_content t artifact" and ?m = "length (takeWhile (\<lambda>n. \<not> fails n) snapshot_names)"
  have ts: "ts = map (\<lambda>k. placed target ?c (take k snapshot_names) t) [0..<Suc ?m]"
    and result: "result = (if takeWhile (\<lambda>n. \<not> fails n) snapshot_names = snapshot_names then Inr () else Inl Os_Error)"
    using assms None by (simp_all add: sync_snapshot_eq del: upt_Suc)
  have source: "Some (Regular (?c (snd f))) = t (path_join artifact (fst f))" if "f \<in> set SNAPSHOT_FILES" for f
  proof -
    have "is_regular t (path_join artifact (fst f))" using that None unfolding complete_iff by blast
    from is_regularD [OF this] that show ?thesis by (simp add: source_content_at)
  qed
  have at: "placed target ?c ns t (path_join target n) = Some (Regular (?c n))" if "n \<in> set ns" "distinct ns" "set ns \<subseteq> set snapshot_names" for ns n
    using that snapshot_names_ok(2) by (intro placed_at) auto
  have "u p = t p \<or> (\<exists>f \<in> set SNAPSHOT_FILES. p = path_join target (snd f) \<and> u p = t (path_join artifact (fst f)) \<and> is_regular u p)"
    if u: "u \<in> set ts" for u p
  proof -
    from u obtain k where k: "u = placed target ?c (take k snapshot_names) t" unfolding ts by auto
    show ?thesis
    proof (cases "p \<in> path_join target ` set (take k snapshot_names)")
      case True
      then obtain n where n: "n \<in> set (take k snapshot_names)" "p = path_join target n" by blast
      then obtain f where f: "f \<in> set SNAPSHOT_FILES" "n = snd f" using in_set_takeD [OF n(1)] by auto
      have "u p = Some (Regular (?c n))" unfolding k n(2)
        using n(1) snapshot_names_ok(1) set_take_subset by (intro at distinct_take) (assumption | blast)+
      with f n(2) source [OF f(1)] have "p = path_join target (snd f) \<and> u p = t (path_join artifact (fst f)) \<and> is_regular u p"
        by (simp add: is_regular_def flip: source [OF f(1)])
      with f(1) show ?thesis by blast
    next
      case False
      then show ?thesis unfolding k by (simp add: placed_other)
    qed
  qed
  moreover have "(\<forall>f \<in> set SNAPSHOT_FILES. last ts (path_join target (snd f)) = t (path_join artifact (fst f))) \<and>
      (\<forall>p. p \<notin> path_join target ` snd ` set SNAPSHOT_FILES \<longrightarrow> last ts p = t p)" if "result = Inr ()"
  proof -
    from that have "?m = length snapshot_names" unfolding result by (metis Inl_Inr_False)
    then have "last ts = placed target ?c snapshot_names t" unfolding ts by simp
    with at [of _ snapshot_names] source snapshot_names_ok(1) placed_other [of _ target snapshot_names] show ?thesis by auto
  qed
  ultimately show ?thesis by blast
qed

text \<open>A file system that holds an artifact, for the witnesses.\<close>

definition sample_tree :: tree where
  "sample_tree = (\<lambda>p. if p = ''/a/sdk/CMakeLists.txt'' then None
     else if has_prefix ''/a/'' p then Some (Regular ''new'') else if has_prefix ''/t/'' p then Some (Regular ''old'') else None)"

lemma sample_tree_at [simp]:
  "relative p \<Longrightarrow> p \<noteq> ''sdk/CMakeLists.txt'' \<Longrightarrow> sample_tree (path_join ''/a'' p) = Some (Regular ''new'')"
  by (simp add: sample_tree_def path_join_def slash_def relative_def)

lemma sample_sources: "f \<in> set SNAPSHOT_FILES \<Longrightarrow> sample_tree (path_join ''/a'' (fst f)) = Some (Regular ''new'')"
  by (auto simp: SNAPSHOT_FILES_def relative_def slash_def)

lemma sample_complete: "find (\<lambda>f. \<not> is_regular sample_tree (path_join ''/a'' (fst f))) SNAPSHOT_FILES = None"
  unfolding complete_iff by (simp add: is_regular_def sample_sources)

theorem snapshot_checked_first_witness:
  "fst (sync_snapshot (\<lambda>_. False) ''/b'' ''/t'' sample_tree) = Inl (Required_File_Missing ''/b/proto/common/identity.proto'') \<and>
   snd (sync_snapshot (\<lambda>_. False) ''/b'' ''/t'' sample_tree) = [sample_tree]"
proof -
  have none: "\<not> is_regular sample_tree (path_join ''/b'' (fst f))" if "f \<in> set SNAPSHOT_FILES" for f
    using that by (auto simp: SNAPSHOT_FILES_def is_regular_def sample_tree_def path_join_def slash_def)
  have first: "(''proto/common/identity.proto'', ''common/identity.proto'') \<in> set SNAPSHOT_FILES"
    by (simp add: SNAPSHOT_FILES_def)
  from snapshot_checked_first [OF first none [OF first], of "\<lambda>_. False" "''/t''"]
  obtain pre g post where s: "SNAPSHOT_FILES = pre @ g # post"
    "list_all (\<lambda>h. is_regular sample_tree (path_join ''/b'' (fst h))) pre"
    "sync_snapshot (\<lambda>_. False) ''/b'' ''/t'' sample_tree = (Inl (Required_File_Missing (path_join ''/b'' (fst g))), [sample_tree])"
    by blast
  have "pre = []"
  proof (cases pre)
    case (Cons h hs)
    then have "h \<in> set SNAPSHOT_FILES" unfolding s(1) by simp
    with none Cons s(2) show ?thesis by simp
  qed simp
  then have "g = (''proto/common/identity.proto'', ''common/identity.proto'')" using s(1) by (simp add: SNAPSHOT_FILES_def)
  with s(3) show ?thesis by (simp add: path_join_def slash_def)
qed

theorem snapshot_old_or_new_witness:
  "last (snd (sync_snapshot (\<lambda>_. False) ''/a'' ''/t'' sample_tree)) ''/t/maze/maze.proto'' = Some (Regular ''new'') \<and>
   last (snd (sync_snapshot (\<lambda>_. False) ''/a'' ''/t'' sample_tree)) ''/t/other'' = Some (Regular ''old'')"
proof -
  let ?r = "sync_snapshot (\<lambda>_. False) ''/a'' ''/t'' sample_tree"
  have run: "?r = (fst ?r, snd ?r)" by simp
  have "fst ?r = Inr ()" by (simp add: sync_snapshot_eq sample_complete)
  with snapshot_old_or_new [OF run]
  have "\<forall>f \<in> set SNAPSHOT_FILES. last (snd ?r) (path_join ''/t'' (snd f)) = sample_tree (path_join ''/a'' (fst f))"
    and "\<forall>p. p \<notin> path_join ''/t'' ` snd ` set SNAPSHOT_FILES \<longrightarrow> last (snd ?r) p = sample_tree p" by blast+
  moreover have "(''proto/maze/maze.proto'', ''maze/maze.proto'') \<in> set SNAPSHOT_FILES" by (simp add: SNAPSHOT_FILES_def)
  moreover have "''/t/other'' \<notin> path_join ''/t'' ` snd ` set SNAPSHOT_FILES"
    by (simp add: SNAPSHOT_FILES_def path_join_def slash_def)
  moreover have "sample_tree ''/t/other'' = Some (Regular ''old'')" by (simp add: sample_tree_def)
  ultimately show ?thesis using sample_sources by (force simp: path_join_def slash_def)
qed

text \<open>A replacement that fails stops the run half-way: the files before it are new, it and the files after it are
  as they were.\<close>

theorem snapshot_interrupted:
  assumes "sync_snapshot fails artifact target t = (Inl Os_Error, ts)"
  shows "\<exists>k < length SNAPSHOT_FILES. fails (snd (SNAPSHOT_FILES ! k)) \<and>
    (\<forall>i < length SNAPSHOT_FILES. last ts (path_join target (snd (SNAPSHOT_FILES ! i))) =
      (if i < k then t (path_join artifact (fst (SNAPSHOT_FILES ! i))) else t (path_join target (snd (SNAPSHOT_FILES ! i)))))"
proof -
  let ?c = "source_content t artifact" and ?k = "length (takeWhile (\<lambda>n. \<not> fails n) snapshot_names)"
  let ?f = "\<lambda>i. SNAPSHOT_FILES ! i"
  have complete: "find (\<lambda>f. \<not> is_regular t (path_join artifact (fst f))) SNAPSHOT_FILES = None"
    using assms by (auto simp: sync_snapshot_eq split: option.splits)
  then have last: "last ts = placed target ?c (take ?k snapshot_names) t"
    and fail: "takeWhile (\<lambda>n. \<not> fails n) snapshot_names \<noteq> snapshot_names"
    using assms by (auto simp: sync_snapshot_eq split: if_splits)
  then have k: "?k < length snapshot_names"
    by (metis length_takeWhile_le nat_less_le takeWhile_eq_take take_all_iff order_refl)
  have taken: "distinct (take ?k snapshot_names)" "\<forall>n \<in> set (take ?k snapshot_names). relative n"
    using snapshot_names_ok by (auto intro: distinct_take dest: in_set_takeD simp del: set_map)
  from k have "fails (snd (?f ?k))" using nth_length_takeWhile [OF k] by simp
  moreover have "last ts (path_join target (snd (?f i))) =
      (if i < ?k then t (path_join artifact (fst (?f i))) else t (path_join target (snd (?f i))))"
    if i: "i < length SNAPSHOT_FILES" for i
  proof (cases "i < ?k")
    case True
    have regular: "is_regular t (path_join artifact (fst (?f i)))" using complete i unfolding complete_iff by simp
    have "snd (?f i) \<in> set (take ?k snapshot_names)"
      using True i k by (metis length_map length_take min.absorb4 nth_map nth_mem nth_take)
    then have "last ts (path_join target (snd (?f i))) = Some (Regular (?c (snd (?f i))))"
      unfolding last by (intro placed_at taken)
    with True is_regularD [OF regular] i show ?thesis by (simp add: source_content_at)
  next
    case False
    have "path_join target (snd (?f i)) \<notin> path_join target ` set (take ?k snapshot_names)"
    proof
      assume "path_join target (snd (?f i)) \<in> path_join target ` set (take ?k snapshot_names)"
      then obtain n where n: "n \<in> set (take ?k snapshot_names)" "path_join target n = path_join target (snd (?f i))" by force
      moreover have "relative n" using n(1) snapshot_names_ok(2) by (meson in_set_takeD)
      moreover have "relative (snd (?f i))" using snapshot_names_ok(2) i by simp
      ultimately have "snapshot_names ! i \<in> set (take ?k snapshot_names)" using path_join_inj i by (metis nth_map)
      then obtain j where "j < ?k" "snapshot_names ! j = snapshot_names ! i" "j < length snapshot_names"
        by (auto simp: in_set_conv_nth)
      then have "j = i" using nth_eq_iff_index_eq [OF snapshot_names_ok(1), of j i] i by simp
      with \<open>j < ?k\<close> False show False by simp
    qed
    with False show ?thesis unfolding last by (simp add: placed_other)
  qed
  ultimately show ?thesis using k by (intro exI [of _ ?k]) simp
qed

theorem snapshot_interrupted_witness:
  "fst (sync_snapshot (\<lambda>n. n = ''maze/maze.pb.h'') ''/a'' ''/t'' sample_tree) = Inl Os_Error \<and>
   last (snd (sync_snapshot (\<lambda>n. n = ''maze/maze.pb.h'') ''/a'' ''/t'' sample_tree)) ''/t/common/identity.proto'' \<noteq>
   last (snd (sync_snapshot (\<lambda>n. n = ''maze/maze.pb.h'') ''/a'' ''/t'' sample_tree)) ''/t/maze/maze.sdk.pb.h''"
proof -
  let ?fails = "\<lambda>n. n = ''maze/maze.pb.h''"
  let ?r = "sync_snapshot ?fails ''/a'' ''/t'' sample_tree"
  have err: "fst ?r = Inl Os_Error" by (simp add: sync_snapshot_eq sample_complete) (simp add: SNAPSHOT_FILES_def)
  then have run: "?r = (Inl Os_Error, snd ?r)" by (metis prod.collapse)
  from snapshot_interrupted [OF run] obtain k where k: "k < length SNAPSHOT_FILES" "?fails (snd (SNAPSHOT_FILES ! k))"
    "\<forall>i < length SNAPSHOT_FILES. last (snd ?r) (path_join ''/t'' (snd (SNAPSHOT_FILES ! i))) =
      (if i < k then sample_tree (path_join ''/a'' (fst (SNAPSHOT_FILES ! i))) else sample_tree (path_join ''/t'' (snd (SNAPSHOT_FILES ! i))))"
    by blast
  have "snapshot_names ! k = ''maze/maze.pb.h''" using k(1,2) by (simp only: nth_map)
  also have "\<dots> = snapshot_names ! 8" by (simp add: SNAPSHOT_FILES_def)
  finally have "snapshot_names ! k = snapshot_names ! 8" .
  then have "k = 8" using k(1) snapshot_names_ok(1) by (subst (asm) nth_eq_iff_index_eq) (simp_all add: SNAPSHOT_FILES_def)
  with k(3) [rule_format, of 0] k(3) [rule_format, of 11] err show ?thesis
    by (simp add: SNAPSHOT_FILES_def relative_def) (simp add: path_join_def slash_def sample_tree_def)
qed

text \<open>The files the SDK needs are checked only after the snapshot has been moved into place: a run that fails on
  them has already changed the protocol files of the target, and the error names the missing file.\<close>

theorem sdk_checked_too_late:
  assumes "\<forall>f \<in> set SNAPSHOT_FILES. is_regular t (path_join artifact (fst f))"
    and "n \<in> set SDK_REQUIRED"
    and "\<not> is_regular t (path_join (path_join artifact ''sdk'') n)"
    and "path_join (path_join artifact ''sdk'') n \<notin> path_join target ` snd ` set SNAPSHOT_FILES"
  shows "\<exists>m \<in> set SDK_REQUIRED. \<exists>ts. sync_main (\<lambda>_. False) artifact target t =
      (Inl (Required_File_Missing (path_join (path_join artifact ''sdk'') m)), ts) \<and>
    (\<forall>f \<in> set SNAPSHOT_FILES. last ts (path_join target (snd f)) = t (path_join artifact (fst f)))"
proof -
  let ?u = "placed target (source_content t artifact) snapshot_names t" and ?sdk = "path_join artifact ''sdk''"
  have "find (\<lambda>f. \<not> is_regular t (path_join artifact (fst f))) SNAPSHOT_FILES = None"
    unfolding complete_iff by (rule assms(1))
  then obtain ts where run: "sync_snapshot (\<lambda>_. False) artifact target t = (Inr (), ts)" "last ts = ?u"
    by (simp add: sync_snapshot_eq takeWhile_eq_all_conv [THEN iffD2])
  have new: "?u (path_join target (snd f)) = t (path_join artifact (fst f))" if f: "f \<in> set SNAPSHOT_FILES" for f
  proof -
    have "?u (path_join target (snd f)) = Some (Regular (source_content t artifact (snd f)))"
      using f by (intro placed_at snapshot_names_ok) simp
    with f assms(1) is_regularD [of t "path_join artifact (fst f)"] show ?thesis by (simp add: source_content_at)
  qed
  have "?u (path_join ?sdk n) = t (path_join ?sdk n)" using assms(4) by (intro placed_other) (simp add: image_image)
  then have "\<not> is_regular ?u (path_join ?sdk n)" using assms(3) by (simp add: is_regular_def)
  then obtain m where m: "find (\<lambda>n. \<not> is_regular ?u (path_join ?sdk n)) SDK_REQUIRED = Some m"
    using assms(2) by (metis find_None_iff2 not_Some_eq)
  then have "m \<in> set SDK_REQUIRED" by (auto simp: find_Some_iff)
  moreover have "sync_main (\<lambda>_. False) artifact target t = (Inl (Required_File_Missing (path_join ?sdk m)), ts @ [?u])"
    using run m by (simp add: sync_main_def sync_sdk_def require_all_eq Let_def)
  ultimately show ?thesis using new by (metis last_snoc)
qed

theorem sdk_checked_too_late_witness:
  "fst (sync_main (\<lambda>_. False) ''/a'' ''/t'' sample_tree) \<noteq> Inr () \<and>
   last (snd (sync_main (\<lambda>_. False) ''/a'' ''/t'' sample_tree)) ''/t/maze/maze.proto'' = Some (Regular ''new'')"
proof -
  have complete: "\<forall>f \<in> set SNAPSHOT_FILES. is_regular sample_tree (path_join ''/a'' (fst f))"
    using sample_complete unfolding complete_iff .
  have n: "''CMakeLists.txt'' \<in> set SDK_REQUIRED" by (simp add: SDK_REQUIRED_def)
  have missing: "\<not> is_regular sample_tree (path_join (path_join ''/a'' ''sdk'') ''CMakeLists.txt'')"
    by (simp add: is_regular_def sample_tree_def path_join_def slash_def)
  have outside: "path_join (path_join ''/a'' ''sdk'') ''CMakeLists.txt'' \<notin> path_join ''/t'' ` snd ` set SNAPSHOT_FILES"
    by (simp add: SNAPSHOT_FILES_def path_join_def slash_def)
  have maze: "(''proto/maze/maze.proto'', ''maze/maze.proto'') \<in> set SNAPSHOT_FILES" by (simp add: SNAPSHOT_FILES_def)
  from sdk_checked_too_late [OF complete n missing outside] maze sample_sources show ?thesis
    by (force simp: path_join_def slash_def)
qed

lemma path_join_named: "relative n \<Longrightarrow> relative m \<Longrightarrow> last n \<noteq> slash \<Longrightarrow> path_join (path_join base n) m = path_join base n @ slash # m"
  by (auto simp: path_join_def relative_def)

text \<open>A synchronised SDK holds every file of the artifact's SDK, with the files of the old layout removed, even those
  the artifact brings; nothing outside the SDK directory changes.\<close>

theorem sync_sdk_exact:
  assumes "sync_sdk artifact target t = (Inr (), u)"
  shows "(\<forall>n. relative n \<and> is_regular t (path_join (path_join artifact ''sdk'') n) \<and> n \<notin> set SDK_LEGACY \<longrightarrow>
      u (path_join (path_join target ''rl_sdk'') n) = t (path_join (path_join artifact ''sdk'') n)) \<and>
    (\<forall>n \<in> set SDK_LEGACY. u (path_join (path_join target ''rl_sdk'') n) = None) \<and>
    (\<forall>p. \<not> has_prefix (path_join target ''rl_sdk'' @ ''/'') p \<longrightarrow> u p = t p)"
proof -
  let ?s = "path_join artifact ''sdk''" and ?d = "path_join target ''rl_sdk''"
  have u: "u = fold (\<lambda>n t. t(path_join ?d n := None)) SDK_LEGACY (copytree ?s ?d t)"
    using assms by (auto simp: sync_sdk_def Let_def split: sum.splits)
  have legacy: "relative n" if "n \<in> set SDK_LEGACY" for n
    using that by (auto simp: SDK_LEGACY_def relative_def slash_def)
  have inside: "path_join ?d n = ?d @ slash # n" and source: "path_join ?s n = ?s @ slash # n" if "relative n" for n
    using that by (simp_all add: path_join_named relative_def slash_def)
  have kept: "u p = copytree ?s ?d t p" if "p \<notin> path_join ?d ` set SDK_LEGACY" for p
    unfolding u using that by (rule fold_upd_other)
  have gone: "u (path_join ?d n) = None" if "n \<in> set SDK_LEGACY" for n
    using that unfolding u by (auto simp: SDK_LEGACY_def)
  have copied: "u (path_join ?d n) = t (path_join ?s n)"
    if "relative n" "is_regular t (path_join ?s n)" "n \<notin> set SDK_LEGACY" for n
  proof -
    have "path_join ?d n \<notin> path_join ?d ` set SDK_LEGACY" using that(1,3) legacy path_join_inj by blast
    moreover have "has_prefix (?d @ [slash]) (?d @ slash # n)" by (simp add: has_prefix_iff)
    ultimately show ?thesis
      using kept is_regularD [OF that(2)] by (simp add: copytree_def inside source that(1) slash_def)
  qed
  moreover have "u p = t p" if "\<not> has_prefix (?d @ ''/'') p" for p
  proof -
    have "p \<notin> path_join ?d ` set SDK_LEGACY" using that legacy inside by (auto simp: has_prefix_iff slash_def)
    with kept that show ?thesis by (simp add: copytree_def slash_def)
  qed
  ultimately show ?thesis using gone by blast
qed

theorem sync_sdk_exact_witness:
  "(let t = sample_tree(''/a/sdk/CMakeLists.txt'' \<mapsto> Regular ''new'') in
    snd (sync_sdk ''/a'' ''/t'' t) ''/t/rl_sdk/CMakeLists.txt'' = Some (Regular ''new'') \<and>
    snd (sync_sdk ''/a'' ''/t'' t) ''/t/rl_sdk/session.h'' = None)"
proof -
  let ?t = "sample_tree(''/a/sdk/CMakeLists.txt'' \<mapsto> Regular ''new'')"
  have sdk: "path_join ''/a'' ''sdk'' = ''/a/sdk''" "path_join ''/t'' ''rl_sdk'' = ''/t/rl_sdk''"
    by (simp_all add: path_join_def slash_def)
  have regular: "\<forall>n \<in> set SDK_REQUIRED. is_regular ?t (path_join ''/a/sdk'' n)"
    by (simp add: SDK_REQUIRED_def is_regular_def sample_tree_def path_join_def slash_def)
  then have "find (\<lambda>n. \<not> is_regular ?t (path_join ''/a/sdk'' n)) SDK_REQUIRED = None"
    unfolding find_None_iff by blast
  then have "fst (sync_sdk ''/a'' ''/t'' ?t) = Inr ()"
    by (simp add: sync_sdk_def require_all_eq sdk Let_def del: fun_upd_apply)
  then have run: "sync_sdk ''/a'' ''/t'' ?t = (Inr (), snd (sync_sdk ''/a'' ''/t'' ?t))" by (metis prod.collapse)
  have "relative ''CMakeLists.txt''" "is_regular ?t (path_join ''/a/sdk'' ''CMakeLists.txt'')"
    "''CMakeLists.txt'' \<notin> set SDK_LEGACY" "''session.h'' \<in> set SDK_LEGACY"
    using regular by (simp_all add: relative_def slash_def SDK_LEGACY_def SDK_REQUIRED_def)
  with sync_sdk_exact [OF run] have
    "snd (sync_sdk ''/a'' ''/t'' ?t) (path_join ''/t/rl_sdk'' ''CMakeLists.txt'') = ?t (path_join ''/a/sdk'' ''CMakeLists.txt'')"
    "snd (sync_sdk ''/a'' ''/t'' ?t) (path_join ''/t/rl_sdk'' ''session.h'') = None"
    unfolding sdk by blast+
  then show ?thesis by (simp add: Let_def path_join_def slash_def)
qed

end
