(* ===== verification/Spec2Isabelle.thy ===== *)
theory Spec2Isabelle
  imports RoomSearch MapPlay ClientEpisode VizReply VizMain VizThreads Readiness SnapshotSync
begin

text \<open>
  The Maze client: a development of its Python tools and of the C++ programs that use what they make.

  \<^bold>\<open>The program.\<close> Five scripts are modelled, and the parts of the C++ client that play on their maps.

    \<^item> \<open>tools/map_generator/generate_maze.py\<close> makes maze maps: it reads a configuration, carves a spanning tree of
      rooms, opens more walls, places end points, expands the rooms to a grid of blocked cells, adds obstacles, searches
      the grid with the nine actions of the game, merges blocked cells to wall segments, and writes one file per map.
    \<^item> \<open>tools/viz_player/maze_viz_server.py\<close> serves the replays the client records: an index of the lines of growing
      files, cached lists and maps, and an HTTP interface.
    \<^item> \<open>scripts/replay_service.py\<close> starts and stops that server as one detached process, with a state file, a receipt
      the server writes when it is ready, and checks of who owns a process.
    \<^item> \<open>scripts/publish_readiness.py\<close> and \<open>scripts/sync_contract_snapshot.py\<close> publish a readiness receipt and
      copy the protocol files of an artifact into the tree.
    \<^item> \<open>maze_env.cpp\<close> of the client reads a map, starts an episode, moves the agent between blocked cells, computes its
      mask, its rays and the least number of moves; \<open>session.h\<close>, \<open>action_receipt.h\<close> and \<open>client_adapter.cpp\<close> run
      the rounds of an episode against a server that decides on the actions.

  \<^bold>\<open>The theories.\<close> Names of definitions are those of the code where HOL allows it.

    \<^item> \<open>Prelude\<close>: ranges, loops that may raise (\<open>for_each\<close>), list indices with their exceptions. \<open>Grid\<close>: rows of cells;
      \<open>draws\<close> and \<open>paints\<close> say which cells a loop writes. \<open>Search\<close>: the abstract breadth-first search and its locale.
      \<open>PyText\<close>, \<open>PyPath\<close>, \<open>Json\<close>: the operations of strings, paths and documents the scripts use. \<open>ArgParse\<close>, \<open>Url\<close>,
      \<open>JsonText\<close>: the parts of the standard library (Python 3.11) the five \<open>main\<close> functions and the handler rest on:
      options with one value each, request targets with their queries and escapes, and the text of a document.
    \<^item> \<open>Rng\<close>, \<open>WallEdges\<close>, \<open>MazeDfs\<close>, \<open>OpenWalls\<close>: the random draws as a stream, \<open>WallEdgeSet\<close> with the locale
      \<open>wall_store\<close>, \<open>generate_maze_edges\<close>, \<open>extra_open_walls\<close>, \<open>clear_safe_zone\<close>, \<open>generate_random_start_end\<close>.
    \<^item> \<open>RoomSearch\<close>, \<open>ActionSearch\<close>: \<open>bfs_reachable\<close> and \<open>shortest_action_steps\<close>, both refined to \<open>Search\<close>.
    \<^item> \<open>BlockedGrid\<close>, \<open>Connectivity\<close>, \<open>WallSegments\<close>: \<open>edges_to_blocked_grid\<close>, \<open>add_room_obstacles\<close>,
      \<open>clear_blocked_safe_zone\<close>, \<open>blocked_bitmap_bytes\<close>; that the expanded grid stays walkable; and
      \<open>blocked_to_wall_segments\<close>.
    \<^item> \<open>GenerateMap\<close>: \<open>generate_map\<close> and \<open>generate_reachable_map\<close>. \<open>GenConfig\<close>: \<open>load_config\<close>, \<open>get_config_value\<close>.
      \<open>Preview\<close>: the two previews. \<open>GenMain\<close>: \<open>main\<close>, its arguments, its parameters and its loop over the seeds.
      \<open>MapText\<close>: the document of a map and its text. \<open>MapFile\<close>: that the document is well-formed, and the way from the
      generator to the server.
    \<^item> \<open>FloatSingle\<close>: the rounding of a number to a \<open>float\<close>. \<open>ClientMap\<close>: \<open>LoadMapFromFile\<close> and the searches in the
      text it is made of; \<open>ClientText\<close>, \<open>MapWalls\<close>: what these searches find in the text of a map. \<open>MazeEnv\<close>: the class
      \<open>MazeEnv\<close>, its start, steps, masks, rays and search. \<open>MazePlay\<close>: its search against the generator's, and every
      episode. \<open>ClientStart\<close>: how the client starts on a map. \<open>MapPlay\<close>: from the generator over the file to the game.
    \<^item> \<open>ClientSession\<close>: the cursor of a session, the exchange of one command with its waits, the order of the replies.
      \<open>ClientEpisode\<close>: the receipt of an action and the rounds of an episode, against any server.
    \<^item> \<open>VizIndex\<close>: \<open>_build_line_index\<close> and the reads through it, with a step relation of a recording client and a
      reading server; \<open>VizThreads\<close>: the same index when several requests build it at once. \<open>VizServer\<close>: the methods of \<open>VizReplayServer\<close>. \<open>VizHttp\<close>: \<open>VizHTTPHandler\<close> from the path of the
      request line to an answer. \<open>VizReply\<close>: the answer as headers and text, and the log. \<open>VizSession\<close>: one request after
      the other, with what the state keeps. \<open>VizMain\<close>: the receipt and \<open>main\<close>, from its arguments to its end.
    \<^item> \<open>AtomicWrite\<close>: every state of a file that is written beside its place and moved there; the locale \<open>publisher\<close>
      with an instance with cleanup and one without. \<open>Readiness\<close> uses the one, \<open>ReplayProcess\<close> and \<open>VizMain\<close> the other.
    \<^item> \<open>ReplayConfig\<close>, \<open>ReplayProcess\<close>, \<open>ReplayService\<close>: the configuration; the world of files, processes, signals and
      time with the functions that look at it; start and stop. \<open>ReplayMain\<close>: \<open>main\<close> with both of its parsers.
    \<^item> \<open>SnapshotSync\<close>: staging, replacing and the SDK.

  \<^bold>\<open>State.\<close> Python objects are records that operations return updated (\<open>wall_edge_set\<close>, \<open>viz_server\<close>, \<open>batch\<close>); the
  operating system is a record \<open>world\<close> whose other inhabitants act in a parameter \<open>tick\<close>, called where the service sleeps,
  and a record of what a request finds in the file system for the server. An exception that nothing catches is \<open>None\<close>; an
  error the code names is a constructor of an error type, in a sum.

  \<^bold>\<open>What is shown.\<close> For maps: the tree of passages, the exact sets of cells each pass writes, the exact distance of the
  search, that every map returned is walkable and its reported length the least number of moves, what the retry loop
  returns, that the generator never raises without fixed end points and never overwrites a file. For the replay server:
  the index is complete while whole lines are appended, pages hold exactly the requested frames, a request the page has
  encoded is answered for what was encoded, names stay inside their directory, the state stays well-formed through every
  session, and a map answered once is answered again. For the client: from the text of every generated map it reads back
  the walls, the end points and the cells the generator searched, it accepts the map, its own search gives the length the
  generator reports, no agent reaches the goal in fewer moves, and some agent reaches it in that many. Against any
  server, the client executes exactly the actions of the replies it has accepted, an episode ends when the server does not
  let it wait for ever, a command is committed at most once, and a command whose fate is unknown ends the session. For the service: options reach the start as they are given, the state file is always absent or complete, only a process that is recognised is
  signalled, a failed start leaves nothing behind, a second start finds the first, and a server started with the
  service's command understands it and writes the receipt the service accepts. For the publications: no reader sees a part of a file. Some properties show where the
  code does not do what it means to: end points in one room, retries inside a batch, an index taken in the middle of a
  line, a server that is started and not recorded, a second ownership check without effect, an id the server takes for
  an option, errors that are left out of the log.

  \<^bold>\<open>Loops and bounds.\<close> Loops over ranges and lists are structural. The searches and the depth-first search end because
  every turn visits a cell or shrinks a stack or queue; the retry loop runs 100 times and the search for random end points
  500 times, as in the code; the waits of the service end because the clock passes their deadline, one tenth of a second
  at a time. The loops of the session (\<open>exchange\<close>, \<open>run_episode\<close>, \<open>session_loop\<close>) depend on the server and are partial
  functions: that an episode returns is proved for servers that do not let the client wait for ever. Every theorem about
  a result states that there is one.

  \<^bold>\<open>Parameters.\<close> The order in which Python iterates over a set (\<open>iterates\<close>), the numbers of a seeded generator (\<open>rng\<close>),
  \<open>json.loads\<close> on the lines of a replay, the formatting of times, the decimals of floats (with \<open>plain_cents\<close>, two
  decimals without an exponent, where the client reads them), the server, the transport and the clock of a session, decoding of bytes that are no ASCII
  (\<open>decodes_ascii\<close> is all that is used of it), the check of a bracketed host, the sentences of errors, types guessed from
  file names, hashes, links (\<open>resolve\<close>), the content of the file system and the activity of other processes are arguments
  of the definitions.

  \<^bold>\<open>Not modelled.\<close> The rounding of Python's floats (they are exact rationals, without infinities and NaN), the exponent
  bounds of a C++ \<open>float\<close> (it is rounded to 24 binary digits), the width of a C++ \<open>int\<close>, characters outside
  a single byte, and so errors of decoding, the status line, headers and error pages the standard library adds, broken
  connections, the threads of the server outside the line index, printed messages, durability after a power failure, the lock
  of the service other than as atomicity of start and stop, interrupts from the keyboard, and what happens between two
  system calls of one operation other than in the publications. Of the C++ client the opening of a session, the
  outcome messages, \<open>config_loader\<close>, \<open>viz_recorder\<close> and the log lines are left out, and so are generated protocol code,
  web pages, shell scripts and tests.
\<close>

end
